(* ===== verification/Kernel_Prelude.thy ===== *)
theory Kernel_Prelude
  imports Main "HOL-Library.Word" "HOL-Library.Monad_Syntax"
begin

text \<open>
  Shared vocabulary of the development: the integer types of the kernel sources, the socket
  states of \<^verbatim>\<open>include/net/tcp_states.h\<close>, the error numbers the modelled functions return,
  and the record \<open>kenv\<close> of everything the modelled code takes from outside the repository
  (the clock, hash functions, the sequence and time comparisons, system settings,
  allocation results). Such code is a parameter of the definitions; what a property relies
  on is one of the named laws below. The generic facts on words, option-valued programs
  and singly linked chains that the component theories share come last.
\<close>

unbundle bit_operations_syntax

section \<open>Integer types and pointers\<close>

type_synonym u8 = "8 word"
type_synonym u16 = "16 word"
type_synonym u32 = "32 word"
type_synonym u64 = "64 word"

text \<open>Values in network byte order are kept as opaque words.\<close>

type_synonym be16 = "16 word"
type_synonym be32 = "32 word"

type_synonym ptr = nat

abbreviation (input) NULL :: ptr where
  "NULL \<equiv> 0"

section \<open>Socket states\<close>

datatype tcp_state =
    TCP_ESTABLISHED
  | TCP_SYN_SENT
  | TCP_SYN_RECV
  | TCP_FIN_WAIT1
  | TCP_FIN_WAIT2
  | TCP_TIME_WAIT
  | TCP_CLOSE
  | TCP_CLOSE_WAIT
  | TCP_LAST_ACK
  | TCP_LISTEN
  | TCP_CLOSING

section \<open>Error numbers\<close>

definition EINTR :: int where "EINTR = 4"
definition EAGAIN :: int where "EAGAIN = 11"
definition ENOMEM :: int where "ENOMEM = 12"
definition EINVAL :: int where "EINVAL = 22"
definition EADDRINUSE :: int where "EADDRINUSE = 98"
definition EADDRNOTAVAIL :: int where "EADDRNOTAVAIL = 99"

lemmas errno_defs = EINTR_def EAGAIN_def ENOMEM_def EINVAL_def EADDRINUSE_def EADDRNOTAVAIL_def

section \<open>The environment of the modelled code\<close>

record kenv =
  jiffies :: u64
  time_after_eq :: "u64 \<Rightarrow> u64 \<Rightarrow> bool"
  roundup_pow_of_two :: "u32 \<Rightarrow> u32"
  jhash_2words :: "u32 \<Rightarrow> u32 \<Rightarrow> u32 \<Rightarrow> u32"
  random_u32 :: u32
  page_size :: u64
  vzalloc_ok :: "u64 \<Rightarrow> bool"
  kzalloc_ok :: "u64 \<Rightarrow> bool"
  sysctl_max_syn_backlog :: u32
  sysctl_tcp_synack_retries :: int

text \<open>
  \<open>roundup_pow_of_two\<close> of \<^verbatim>\<open>linux/log2.h\<close> is documented to round its argument up to the
  nearest power of two; the law is stated for the arguments whose result fits 32 bits.
\<close>

definition roundup_law :: "kenv \<Rightarrow> bool" where
  "roundup_law K \<longleftrightarrow>
     (\<forall>n. 0 < unat n \<and> unat n \<le> 2 ^ 31 \<longrightarrow>
        (\<exists>k. unat (roundup_pow_of_two K n) = 2 ^ k \<and> unat n \<le> 2 ^ k \<and> 2 ^ k < 2 * unat n))"

text \<open>\<open>time_after_eq\<close> of \<^verbatim>\<open>linux/jiffies.h\<close> compares two clock values across a wrap.\<close>

definition time_law :: "kenv \<Rightarrow> bool" where
  "time_law K \<longleftrightarrow> (\<forall>a b. time_after_eq K a b \<longleftrightarrow> 0 \<le> sint (a - b))"

section \<open>Named collections\<close>

named_theorems rq_defs \<open>definitions of the request queue operations\<close>

section \<open>Shared lemmas\<close>

subsection \<open>Words\<close>

lemma unat_and_mask_less:
  fixes w m :: "'a::len word"
  assumes "0 < unat m"
  shows "unat (w AND (m - 1)) < unat m"
proof -
  have "w AND (m - 1) \<le> m - 1"
    by (simp add: word_and_le1)
  then have "unat (w AND (m - 1)) \<le> unat (m - 1)"
    by (simp add: word_le_nat_alt)
  also have "unat (m - 1) < unat m"
    using assms by (simp add: unat_minus_one unat_gt_0)
  finally show ?thesis .
qed

subsection \<open>Maps\<close>

lemma restrict_map_UNIV [simp]: "m |` UNIV = m"
  by (rule ext) simp

subsection \<open>Tables of chains\<close>

text \<open>One slot of a table taken out of, and put back into, the whole table.\<close>

lemma concat_split:
  assumes "i < length tbl"
  shows "concat tbl = concat (take i tbl) @ tbl ! i @ concat (drop (Suc i) tbl)"
    and "concat (tbl[i := ys]) = concat (take i tbl) @ ys @ concat (drop (Suc i) tbl)"
proof -
  show "concat tbl = concat (take i tbl) @ tbl ! i @ concat (drop (Suc i) tbl)"
    using id_take_nth_drop [OF assms] by (metis concat.simps(2) concat_append)
  show "concat (tbl[i := ys]) = concat (take i tbl) @ ys @ concat (drop (Suc i) tbl)"
    using assms by (simp add: upd_conv_take_nth_drop)
qed

lemma concat_cons:
  assumes "i < length tbl"
  shows "set (concat (tbl[i := x # tbl ! i])) = insert x (set (concat tbl))"
    and "distinct (concat (tbl[i := x # tbl ! i])) \<longleftrightarrow> x \<notin> set (concat tbl) \<and> distinct (concat tbl)"
  unfolding concat_split(2) [OF assms] concat_split(1) [OF assms] by auto

lemma concat_remove1:
  assumes "distinct (concat tbl)"
  shows "set (concat (map (remove1 x) tbl)) = set (concat tbl) - {x}"
    and "distinct (concat (map (remove1 x) tbl))"
proof -
  have "set (concat (map (remove1 x) tbl)) = set (concat tbl) - {x} \<and>
        distinct (concat (map (remove1 x) tbl))"
    using assms by (induction tbl) (auto simp: set_remove1_eq distinct_remove1)
  then show "set (concat (map (remove1 x) tbl)) = set (concat tbl) - {x}"
    "distinct (concat (map (remove1 x) tbl))" by auto
qed

lemma concat_remove1_slot:
  assumes "i < length tbl" "distinct (concat tbl)" "x \<in> set (tbl ! i)"
  shows "set (concat (tbl[i := remove1 x (tbl ! i)])) = set (concat tbl) - {x}"
    and "distinct (concat (tbl[i := remove1 x (tbl ! i)]))"
  using assms(2,3) unfolding concat_split(2) [OF assms(1)] concat_split(1) [OF assms(1)]
  by (auto simp: set_remove1_eq distinct_remove1)

lemma length_concat_update:
  "i < length tbl \<Longrightarrow> length (concat (tbl[i := ys])) + length (tbl ! i) = length (concat tbl) + length ys"
  by (subst concat_split(2), assumption, subst (2) concat_split(1), assumption) simp

lemma length_concat_remove1:
  assumes "i < length tbl" "x \<in> set (tbl ! i)"
  shows "Suc (length (concat (tbl[i := remove1 x (tbl ! i)]))) = length (concat tbl)"
proof -
  have "length (tbl ! i) = Suc (length (remove1 x (tbl ! i)))"
    using assms(2) length_pos_if_in_set [OF assms(2)] by (simp add: length_remove1)
  with length_concat_update [OF assms(1), of "remove1 x (tbl ! i)"] show ?thesis by linarith
qed

lemma in_concat_iff: "x \<in> set (concat tbl) \<longleftrightarrow> (\<exists>i < length tbl. x \<in> set (tbl ! i))"
  unfolding set_concat by (metis UN_iff in_set_conv_nth)

lemma in_one_slot:
  assumes "distinct (concat tbl)" "i < length tbl" "j < length tbl" "x \<in> set (tbl ! i)" "x \<in> set (tbl ! j)"
  shows "i = j"
proof (rule ccontr)
  assume "i \<noteq> j"
  have "x \<notin> set (concat (take j tbl)) \<and> x \<notin> set (concat (drop (Suc j) tbl))"
    using assms(1,5) unfolding concat_split(1) [OF assms(3)] by auto
  moreover have "tbl ! i \<in> set (take j tbl) \<or> tbl ! i \<in> set (drop (Suc j) tbl)"
  proof (cases "i < j")
    case True
    then show ?thesis using assms(2) by (metis in_set_conv_nth length_take min_less_iff_conj nth_take)
  next
    case False
    with \<open>i \<noteq> j\<close> have "Suc j \<le> i" by simp
    then have "tbl ! i = drop (Suc j) tbl ! (i - Suc j)" "i - Suc j < length (drop (Suc j) tbl)"
      using assms(2) by simp_all
    then show ?thesis by (metis nth_mem)
  qed
  ultimately show False using assms(4) by auto
qed

end
