(* ===== verification/Request_Queue.thy ===== *)
theory Request_Queue
  imports Kernel_Prelude
begin

text \<open>
  The connection requests of a listening socket: \<^verbatim>\<open>include/net/request_sock.h\<close>,
  \<^verbatim>\<open>net/core/request_sock.c\<close> and the request-queue half of
  \<^verbatim>\<open>net/ipv4/inet_connection_sock.c\<close> and \<^verbatim>\<open>include/net/inet_connection_sock.h\<close>.
  Requests live in an explicit store (\<open>reqs\<close>, a map from addresses); the hash chains of the
  SYN table and the accept queue are linked through \<open>dl_next\<close> as in the code. An operation
  that would dereference a null or freed request, or index the table out of range, has the
  value \<^term>\<open>None\<close>; a C \<open>**\<close> argument is a \<open>link\<close>, the place a chain pointer is stored in.
  Locks, statistics and the warnings of \<open>WARN_ON\<close> are left out.
\<close>

section \<open>Data\<close>

record request_sock =
  dl_next :: ptr
  req_mss :: u16
  req_retrans :: u8
  req_cookie_ts :: u8
  req_window_clamp :: u32
  req_rcv_wnd :: u32
  req_ts_recent :: u32
  req_expires :: u64
  req_sk :: ptr
  req_secid :: u32
  req_peer_secid :: u32

record inet_request_sock = request_sock +
  loc_port :: be16
  loc_addr :: be32
  rmt_addr :: be32
  rmt_port :: be16
  ireq_snd_wscale :: u8
  ireq_rcv_wscale :: u8
  ireq_tstamp_ok :: bool
  ireq_sack_ok :: bool
  ireq_wscale_ok :: bool
  ireq_ecn_ok :: bool
  acked :: bool
  no_srccheck :: bool

record tcp_request_sock = inet_request_sock +
  rcv_isn :: u32
  snt_isn :: u32
  snt_synack :: u32

record listen_sock =
  max_qlen_log :: u8
  synflood_warned :: u8
  qlen :: int
  qlen_young :: int
  clock_hand :: u32
  hash_rnd :: u32
  nr_table_entries :: u32
  syn_table :: "ptr list"

text \<open>
  \<open>listener\<close> is the part of a listening \<open>struct sock\<close> that the request queue code reads and
  writes: the embedded \<open>request_sock_queue\<close>, the backlog counters, the keepalive timer
  (\<^term>\<open>None\<close> when stopped) and the settings, together with the store of the requests.
\<close>

record listener =
  reqs :: "ptr \<rightharpoonup> tcp_request_sock"
  rskq_accept_head :: ptr
  rskq_accept_tail :: ptr
  rskq_defer_accept :: u8
  listen_opt :: "listen_sock option"
  sk_ack_backlog :: u16
  sk_max_ack_backlog :: u16
  sk_timer :: "u64 option"
  icsk_syn_retries :: u8
  lsk_state :: tcp_state
  sk_rcvtimeo :: int

datatype link = Slot nat | Next ptr

definition upd_req :: "ptr \<Rightarrow> (tcp_request_sock \<Rightarrow> tcp_request_sock) \<Rightarrow> listener \<Rightarrow> listener option" where
  "upd_req p f s = do { r \<leftarrow> reqs s p; Some (s\<lparr>reqs := (reqs s)(p \<mapsto> f r)\<rparr>) }"

fun read_link :: "listener \<Rightarrow> link \<Rightarrow> ptr option" where
  "read_link s (Slot i) = do {
     lopt \<leftarrow> listen_opt s;
     if i < length (syn_table lopt) then Some (syn_table lopt ! i) else None }"
| "read_link s (Next p) = map_option dl_next (reqs s p)"

fun write_link :: "link \<Rightarrow> ptr \<Rightarrow> listener \<Rightarrow> listener option" where
  "write_link (Slot i) q s = do {
     lopt \<leftarrow> listen_opt s;
     if i < length (syn_table lopt)
     then Some (s\<lparr>listen_opt := Some (lopt\<lparr>syn_table := (syn_table lopt)[i := q]\<rparr>)\<rparr>)
     else None }"
| "write_link (Next p) q s = upd_req p (\<lambda>r. r\<lparr>dl_next := q\<rparr>) s"

section \<open>request_sock.c: allocation and destruction of the SYN table\<close>

function max_qlen_log_loop :: "nat \<Rightarrow> nat \<Rightarrow> nat" where
  "max_qlen_log_loop n l = (if l < 32 \<and> 2 ^ l < n then max_qlen_log_loop n (Suc l) else l)"
  by pat_completeness auto
termination
  by (relation "measure (\<lambda>(n, l). 32 - l)") auto

declare max_qlen_log_loop.simps [simp del]

definition listen_sock_size :: "u32 \<Rightarrow> u64" where
  "listen_sock_size n = 24 + ucast n * 8"

definition reqsk_queue_alloc :: "kenv \<Rightarrow> u32 \<Rightarrow> listener \<Rightarrow> int \<times> listener" where
  "reqsk_queue_alloc K n s =
     (let n1 = min n (sysctl_max_syn_backlog K);
          n2 = max n1 8;
          nr = roundup_pow_of_two K (n2 + 1);
          lopt_size = listen_sock_size nr;
          ok = (if page_size K < lopt_size then vzalloc_ok K lopt_size else kzalloc_ok K lopt_size)
      in if \<not> ok then (- ENOMEM, s)
         else (0, s\<lparr>rskq_accept_head := NULL,
                    listen_opt := Some \<lparr>max_qlen_log = of_nat (max_qlen_log_loop (unat nr) 3),
                                        synflood_warned = 0, qlen = 0, qlen_young = 0,
                                        clock_hand = 0, hash_rnd = random_u32 K,
                                        nr_table_entries = nr,
                                        syn_table = replicate (unat nr) NULL\<rparr>\<rparr>))"

definition reqsk_free :: "ptr \<Rightarrow> listener \<Rightarrow> listener option" where
  "reqsk_free p s = do { _ \<leftarrow> reqs s p; Some (s\<lparr>reqs := (reqs s)(p := None)\<rparr>) }"

definition reqsk_queue_yank_listen_sk :: "listener \<Rightarrow> listen_sock option \<times> listener" where
  "reqsk_queue_yank_listen_sk s = (listen_opt s, s\<lparr>listen_opt := None\<rparr>)"

text \<open>
  The walk of \<open>reqsk_queue_destroy\<close> over one slot: the head of the chain is unlinked,
  counted and freed until the chain is empty. \<^term>\<open>None\<close> is a fault or a walk that does not end.
\<close>

partial_function (option) destroy_chain ::
    "ptr \<Rightarrow> int \<Rightarrow> listener \<Rightarrow> (int \<times> listener) option" where
  "destroy_chain p n s =
     (if p = NULL then Some (n, s)
      else do { r \<leftarrow> reqs s p; s1 \<leftarrow> reqsk_free p s; destroy_chain (dl_next r) (n - 1) s1 })"

fun destroy_slots :: "ptr list \<Rightarrow> int \<Rightarrow> listener \<Rightarrow> (int \<times> listener) option" where
  "destroy_slots [] n s = Some (n, s)"
| "destroy_slots (p # ps) n s = do { (n1, s1) \<leftarrow> destroy_chain p n s; destroy_slots ps n1 s1 }"

definition reqsk_queue_destroy :: "listener \<Rightarrow> (int \<times> listener) option" where
  "reqsk_queue_destroy s =
     (case reqsk_queue_yank_listen_sk s of (l, s1) \<Rightarrow> do {
        lopt \<leftarrow> l;
        if qlen lopt \<noteq> 0 then destroy_slots (syn_table lopt) (qlen lopt) s1
        else Some (qlen lopt, s1) })"

section \<open>request_sock.h: the accept queue and the counters of the SYN table\<close>

definition reqsk_queue_yank_acceptq :: "listener \<Rightarrow> ptr \<times> listener" where
  "reqsk_queue_yank_acceptq s = (rskq_accept_head s, s\<lparr>rskq_accept_head := NULL\<rparr>)"

definition reqsk_queue_empty :: "listener \<Rightarrow> bool" where
  "reqsk_queue_empty s = (rskq_accept_head s = NULL)"

definition sk_acceptq_removed :: "listener \<Rightarrow> listener" where
  "sk_acceptq_removed s = s\<lparr>sk_ack_backlog := sk_ack_backlog s - 1\<rparr>"

definition sk_acceptq_added :: "listener \<Rightarrow> listener" where
  "sk_acceptq_added s = s\<lparr>sk_ack_backlog := sk_ack_backlog s + 1\<rparr>"

definition sk_acceptq_is_full :: "listener \<Rightarrow> bool" where
  "sk_acceptq_is_full s = (sk_max_ack_backlog s < sk_ack_backlog s)"

definition reqsk_queue_unlink :: "ptr \<Rightarrow> link \<Rightarrow> listener \<Rightarrow> listener option" where
  "reqsk_queue_unlink req prev_req s = do { r \<leftarrow> reqs s req; write_link prev_req (dl_next r) s }"

definition reqsk_queue_add :: "ptr \<Rightarrow> ptr \<Rightarrow> listener \<Rightarrow> listener option" where
  "reqsk_queue_add req child s = do {
     s1 \<leftarrow> upd_req req (\<lambda>r. r\<lparr>req_sk := child\<rparr>) s;
     let s2 = sk_acceptq_added s1;
     s3 \<leftarrow> (if rskq_accept_head s2 = NULL then Some (s2\<lparr>rskq_accept_head := req\<rparr>)
           else upd_req (rskq_accept_tail s2) (\<lambda>r. r\<lparr>dl_next := req\<rparr>) s2);
     upd_req req (\<lambda>r. r\<lparr>dl_next := NULL\<rparr>) (s3\<lparr>rskq_accept_tail := req\<rparr>) }"

definition reqsk_queue_remove :: "listener \<Rightarrow> (ptr \<times> listener) option" where
  "reqsk_queue_remove s = do {
     let req = rskq_accept_head s;
     r \<leftarrow> reqs s req;
     let s1 = s\<lparr>rskq_accept_head := dl_next r\<rparr>;
     Some (req, if rskq_accept_head s1 = NULL then s1\<lparr>rskq_accept_tail := NULL\<rparr> else s1) }"

definition reqsk_queue_get_child :: "listener \<Rightarrow> (ptr \<times> listener) option" where
  "reqsk_queue_get_child s = do {
     (req, s1) \<leftarrow> reqsk_queue_remove s;
     r \<leftarrow> reqs s1 req;
     let child = req_sk r;
     s2 \<leftarrow> reqsk_free req (sk_acceptq_removed s1);
     Some (child, s2) }"

definition reqsk_queue_removed :: "ptr \<Rightarrow> listener \<Rightarrow> (int \<times> listener) option" where
  "reqsk_queue_removed req s = do {
     lopt \<leftarrow> listen_opt s;
     r \<leftarrow> reqs s req;
     let lopt1 = (if req_retrans r = 0 then lopt\<lparr>qlen_young := qlen_young lopt - 1\<rparr> else lopt);
     let lopt2 = lopt1\<lparr>qlen := qlen lopt1 - 1\<rparr>;
     Some (qlen lopt2, s\<lparr>listen_opt := Some lopt2\<rparr>) }"

definition reqsk_queue_added :: "listener \<Rightarrow> (int \<times> listener) option" where
  "reqsk_queue_added s = do {
     lopt \<leftarrow> listen_opt s;
     let prev_qlen = qlen lopt;
     Some (prev_qlen, s\<lparr>listen_opt := Some (lopt\<lparr>qlen_young := qlen_young lopt + 1,
                                                qlen := qlen lopt + 1\<rparr>)\<rparr>) }"

definition reqsk_queue_len :: "listener \<Rightarrow> int" where
  "reqsk_queue_len s = (case listen_opt s of Some lopt \<Rightarrow> qlen lopt | None \<Rightarrow> 0)"

definition reqsk_queue_len_young :: "listener \<Rightarrow> int option" where
  "reqsk_queue_len_young s = map_option qlen_young (listen_opt s)"

definition reqsk_queue_is_full :: "listener \<Rightarrow> int option" where
  "reqsk_queue_is_full s =
     map_option (\<lambda>lopt. drop_bit (unat (max_qlen_log lopt)) (qlen lopt)) (listen_opt s)"

definition reqsk_queue_hash_req :: "kenv \<Rightarrow> nat \<Rightarrow> ptr \<Rightarrow> u64 \<Rightarrow> listener \<Rightarrow> listener option" where
  "reqsk_queue_hash_req K h req timeout s = do {
     old \<leftarrow> read_link s (Slot h);
     s1 \<leftarrow> upd_req req (\<lambda>r. r\<lparr>req_expires := jiffies K + timeout, req_retrans := 0,
                              req_sk := NULL, dl_next := old\<rparr>) s;
     write_link (Slot h) req s1 }"

section \<open>inet_connection_sock: the listening socket's view\<close>

definition inet_csk_delete_keepalive_timer :: "listener \<Rightarrow> listener" where
  "inet_csk_delete_keepalive_timer s = s\<lparr>sk_timer := None\<rparr>"

definition inet_csk_reset_keepalive_timer :: "kenv \<Rightarrow> u64 \<Rightarrow> listener \<Rightarrow> listener" where
  "inet_csk_reset_keepalive_timer K len s = s\<lparr>sk_timer := Some (jiffies K + len)\<rparr>"

definition inet_csk_reqsk_queue_removed :: "ptr \<Rightarrow> listener \<Rightarrow> listener option" where
  "inet_csk_reqsk_queue_removed req s = do {
     (n, s1) \<leftarrow> reqsk_queue_removed req s;
     Some (if n = 0 then inet_csk_delete_keepalive_timer s1 else s1) }"

definition inet_csk_reqsk_queue_added :: "kenv \<Rightarrow> u64 \<Rightarrow> listener \<Rightarrow> listener option" where
  "inet_csk_reqsk_queue_added K timeout s = do {
     (n, s1) \<leftarrow> reqsk_queue_added s;
     Some (if n = 0 then inet_csk_reset_keepalive_timer K timeout s1 else s1) }"

definition inet_csk_reqsk_queue_drop :: "ptr \<Rightarrow> link \<Rightarrow> listener \<Rightarrow> listener option" where
  "inet_csk_reqsk_queue_drop req prev s = do {
     s1 \<leftarrow> reqsk_queue_unlink req prev s;
     s2 \<leftarrow> inet_csk_reqsk_queue_removed req s1;
     reqsk_free req s2 }"

definition inet_synq_hash :: "kenv \<Rightarrow> be32 \<Rightarrow> be16 \<Rightarrow> u32 \<Rightarrow> u32 \<Rightarrow> u32" where
  "inet_synq_hash K raddr rport rnd synq_hsize =
     jhash_2words K raddr (ucast rport) rnd AND (synq_hsize - 1)"

text \<open>The family test of the lookup is constantly true (no IPv6 configured).\<close>

definition req_matches :: "be16 \<Rightarrow> be32 \<Rightarrow> be32 \<Rightarrow> tcp_request_sock \<Rightarrow> bool" where
  "req_matches rport raddr laddr r \<longleftrightarrow> rmt_port r = rport \<and> rmt_addr r = raddr \<and> loc_addr r = laddr"

partial_function (option) search_chain ::
    "be16 \<Rightarrow> be32 \<Rightarrow> be32 \<Rightarrow> link \<Rightarrow> listener \<Rightarrow> (ptr \<times> link) option option" where
  "search_chain rport raddr laddr prev s = do {
     req \<leftarrow> read_link s prev;
     if req = NULL then Some None
     else do {
       r \<leftarrow> reqs s req;
       if req_matches rport raddr laddr r then Some (Some (req, prev))
       else search_chain rport raddr laddr (Next req) s } }"

definition inet_csk_search_req ::
    "kenv \<Rightarrow> be16 \<Rightarrow> be32 \<Rightarrow> be32 \<Rightarrow> listener \<Rightarrow> (ptr \<times> link) option option" where
  "inet_csk_search_req K rport raddr laddr s = do {
     lopt \<leftarrow> listen_opt s;
     search_chain rport raddr laddr
       (Slot (unat (inet_synq_hash K raddr rport (hash_rnd lopt) (nr_table_entries lopt)))) s }"

definition inet_csk_reqsk_queue_hash_add :: "kenv \<Rightarrow> ptr \<Rightarrow> u64 \<Rightarrow> listener \<Rightarrow> listener option" where
  "inet_csk_reqsk_queue_hash_add K req timeout s = do {
     lopt \<leftarrow> listen_opt s;
     r \<leftarrow> reqs s req;
     let h = inet_synq_hash K (rmt_addr r) (rmt_port r) (hash_rnd lopt) (nr_table_entries lopt);
     s1 \<leftarrow> reqsk_queue_hash_req K (unat h) req timeout s;
     inet_csk_reqsk_queue_added K timeout s1 }"

section \<open>Expiry of connection requests\<close>

definition syn_ack_recalc :: "tcp_request_sock \<Rightarrow> int \<Rightarrow> int \<Rightarrow> u8 \<Rightarrow> bool \<times> bool" where
  "syn_ack_recalc r thresh max_retries defer_accept =
     (if defer_accept = 0 then (thresh \<le> uint (req_retrans r), True)
      else (thresh \<le> uint (req_retrans r) \<and>
              (\<not> acked r \<or> max_retries \<le> uint (req_retrans r)),
            \<not> acked r \<or> uint defer_accept - 1 \<le> uint (req_retrans r)))"

function thresh_loop :: "int \<Rightarrow> int \<Rightarrow> int \<Rightarrow> int" where
  "thresh_loop ql young thresh =
     (if 2 < thresh then
        if ql < young then thresh else thresh_loop ql (2 * young) (thresh - 1)
      else thresh)"
  by pat_completeness auto
termination
  by (relation "measure (\<lambda>(ql, young, thresh). nat thresh)") auto

declare thresh_loop.simps [simp del]

text \<open>
  The per-pass values of \<open>inet_csk_reqsk_queue_prune\<close>: the clock reading, the two retry
  limits, the deferral setting, the two intervals and, for a request and the number of
  retransmissions so far, the result of \<open>rsk_ops->rtx_syn_ack\<close> (0 on success).
\<close>

record prune_pass =
  pp_now :: u64
  pp_thresh :: int
  pp_max_retries :: int
  pp_defer :: u8
  pp_timeout :: u64
  pp_max_rto :: u64
  pp_rtx_syn_ack :: "ptr \<Rightarrow> u8 \<Rightarrow> int"

partial_function (option) prune_chain ::
    "kenv \<Rightarrow> prune_pass \<Rightarrow> link \<Rightarrow> listener \<Rightarrow> listener option" where
  "prune_chain K P reqp s = do {
     req \<leftarrow> read_link s reqp;
     if req = NULL then Some s
     else do {
       r \<leftarrow> reqs s req;
       if time_after_eq K (pp_now P) (req_expires r) then
         (case syn_ack_recalc r (pp_thresh P) (pp_max_retries P) (pp_defer P) of (expire, resend) \<Rightarrow>
           if \<not> expire \<and> (\<not> resend \<or> pp_rtx_syn_ack P req (req_retrans r) = 0 \<or> acked r) then do {
             lopt \<leftarrow> listen_opt s;
             let lopt1 = (if req_retrans r = 0 then lopt\<lparr>qlen_young := qlen_young lopt - 1\<rparr> else lopt);
             let retrans1 = req_retrans r + 1;
             let timeo = min (push_bit (unat retrans1) (pp_timeout P)) (pp_max_rto P);
             s1 \<leftarrow> upd_req req (\<lambda>r. r\<lparr>req_retrans := retrans1, req_expires := pp_now P + timeo\<rparr>)
                    (s\<lparr>listen_opt := Some lopt1\<rparr>);
             prune_chain K P (Next req) s1 }
           else do {
             s1 \<leftarrow> reqsk_queue_unlink req reqp s;
             (_, s2) \<leftarrow> reqsk_queue_removed req s1;
             s3 \<leftarrow> reqsk_free req s2;
             prune_chain K P reqp s3 })
       else prune_chain K P (Next req) s } }"

text \<open>The outer loop visits slots from the clock hand on, one slot per unit of budget.\<close>

fun prune_slots :: "kenv \<Rightarrow> prune_pass \<Rightarrow> nat \<Rightarrow> u32 \<Rightarrow> u32 \<Rightarrow> listener \<Rightarrow> (u32 \<times> listener) option" where
  "prune_slots K P 0 nr i s = Some (i, s)"
| "prune_slots K P (Suc n) nr i s = do {
     s1 \<leftarrow> prune_chain K P (Slot (unat i)) s;
     prune_slots K P n nr ((i + 1) AND (nr - 1)) s1 }"

definition prune_budget :: "u32 \<Rightarrow> u64 \<Rightarrow> u64 \<Rightarrow> int" where
  "prune_budget nr timeout interval =
     sint (ucast (2 * (ucast nr div (timeout div interval)) :: u64) :: 32 word)"

definition prune_params ::
    "kenv \<Rightarrow> (ptr \<Rightarrow> u8 \<Rightarrow> int) \<Rightarrow> u64 \<Rightarrow> u64 \<Rightarrow> listener \<Rightarrow> listen_sock \<Rightarrow> prune_pass" where
  "prune_params K rtx timeout max_rto s lopt =
     (let max_retries = (if icsk_syn_retries s \<noteq> 0 then uint (icsk_syn_retries s)
                         else sysctl_tcp_synack_retries K);
          thresh = (if drop_bit (unat (max_qlen_log lopt) - 1) (qlen lopt) \<noteq> 0
                    then thresh_loop (qlen lopt) (2 * qlen_young lopt) max_retries
                    else max_retries)
      in \<lparr>pp_now = jiffies K, pp_thresh = thresh,
          pp_max_retries = (if rskq_defer_accept s \<noteq> 0 then uint (rskq_defer_accept s)
                            else max_retries),
          pp_defer = rskq_defer_accept s, pp_timeout = timeout, pp_max_rto = max_rto,
          pp_rtx_syn_ack = rtx\<rparr>)"

definition inet_csk_reqsk_queue_prune ::
    "kenv \<Rightarrow> (ptr \<Rightarrow> u8 \<Rightarrow> int) \<Rightarrow> u64 \<Rightarrow> u64 \<Rightarrow> u64 \<Rightarrow> listener \<Rightarrow> listener option" where
  "inet_csk_reqsk_queue_prune K rtx interval timeout max_rto s =
     (case listen_opt s of
        None \<Rightarrow> Some s
      | Some lopt \<Rightarrow>
          if qlen lopt = 0 then Some s
          else if interval = 0 \<or> timeout div interval = 0 then None
          else do {
            let P = prune_params K rtx timeout max_rto s lopt;
            let budget = prune_budget (nr_table_entries lopt) timeout interval;
            (i, s1) \<leftarrow> prune_slots K P (nat (max 1 budget)) (nr_table_entries lopt)
                        (clock_hand lopt) s;
            lopt1 \<leftarrow> listen_opt s1;
            let s2 = s1\<lparr>listen_opt := Some (lopt1\<lparr>clock_hand := i\<rparr>)\<rparr>;
            Some (if qlen lopt1 \<noteq> 0 then inet_csk_reset_keepalive_timer K interval s2 else s2) })"

section \<open>accept and the end of listening\<close>

definition ERESTARTSYS :: int where "ERESTARTSYS = 512"

definition MAX_SCHEDULE_TIMEOUT :: int where "MAX_SCHEDULE_TIMEOUT = 2 ^ 63 - 1"

definition sock_rcvtimeo :: "listener \<Rightarrow> bool \<Rightarrow> int" where
  "sock_rcvtimeo s noblock = (if noblock then 0 else sk_rcvtimeo s)"

definition sock_intr_errno :: "int \<Rightarrow> int" where
  "sock_intr_errno timeo = (if timeo = MAX_SCHEDULE_TIMEOUT then - ERESTARTSYS else - EINTR)"

text \<open>
  One sleep of \<open>inet_csk_wait_for_connect\<close>, as the scheduler and the other contexts make it:
  what happens to the socket when the lock is released and while the process sleeps, the
  time left, and whether a signal is pending. A list of sleeps drives the loop; when
  it is used up the process is still waiting.
\<close>

record sleep =
  on_release :: "listener \<Rightarrow> listener"
  on_sleep :: "listener \<Rightarrow> listener"
  time_left :: int
  signal_pending :: bool

fun inet_csk_wait_for_connect :: "sleep list \<Rightarrow> int \<Rightarrow> listener \<Rightarrow> (int \<times> listener) option" where
  "inet_csk_wait_for_connect [] timeo s = None"
| "inet_csk_wait_for_connect (e # es) timeo s =
     (let s1 = on_release e s;
          asleep = reqsk_queue_empty s1;
          timeo1 = (if asleep then time_left e else timeo);
          s2 = (if asleep then on_sleep e s1 else s1)
      in if \<not> reqsk_queue_empty s2 then Some (0, s2)
         else if lsk_state s2 \<noteq> TCP_LISTEN then Some (- EINVAL, s2)
         else if signal_pending e then Some (sock_intr_errno timeo1, s2)
         else if timeo1 = 0 then Some (- EAGAIN, s2)
         else inet_csk_wait_for_connect es timeo1 s2)"

definition inet_csk_accept :: "sleep list \<Rightarrow> bool \<Rightarrow> listener \<Rightarrow> ((int + ptr) \<times> listener) option" where
  "inet_csk_accept es nonblock s =
     (if lsk_state s \<noteq> TCP_LISTEN then Some (Inl (- EINVAL), s)
      else do {
        (err, s1) \<leftarrow> (if reqsk_queue_empty s then
                       (let timeo = sock_rcvtimeo s nonblock
                        in if timeo = 0 then Some (- EAGAIN, s)
                           else inet_csk_wait_for_connect es timeo s)
                     else Some (0, s));
        if err \<noteq> 0 then Some (Inl err, s1)
        else do { (newsk, s2) \<leftarrow> reqsk_queue_get_child s1; Some (Inr newsk, s2) } })"

text \<open>
  The children still in the accept queue are disconnected, orphaned and destroyed one by
  one; the model returns them in that order.
\<close>

partial_function (option) stop_chain ::
    "ptr \<Rightarrow> ptr list \<Rightarrow> listener \<Rightarrow> (ptr list \<times> listener) option" where
  "stop_chain acc_req closed s =
     (if acc_req = NULL then Some (closed, s)
      else do {
        r \<leftarrow> reqs s acc_req;
        s1 \<leftarrow> reqsk_free acc_req (sk_acceptq_removed s);
        stop_chain (dl_next r) (closed @ [req_sk r]) s1 })"

definition inet_csk_listen_stop :: "listener \<Rightarrow> (ptr list \<times> listener) option" where
  "inet_csk_listen_stop s =
     (case reqsk_queue_yank_acceptq (inet_csk_delete_keepalive_timer s) of (acc_req, s1) \<Rightarrow> do {
        (_, s2) \<leftarrow> reqsk_queue_destroy s1;
        stop_chain acc_req [] s2 })"

end
