(* ===== verification/Request_Queue_Correct.thy ===== *)
theory Request_Queue_Correct
  imports Request_Queue
begin

text \<open>
  Correctness of the request queue. \<open>rq_rel K s aq tbl\<close> says that the linked structures of
  the listener \<open>s\<close> represent the accept queue \<open>aq\<close> (requests, oldest first) and the SYN table
  \<open>tbl\<close> (one list of requests per slot), with all counters in step. Every operation is shown
  to be free of faults in related states and to perform the expected change on \<open>aq\<close> and \<open>tbl\<close>.
\<close>

section \<open>Chains in the store\<close>

fun chain :: "(ptr \<rightharpoonup> tcp_request_sock) \<Rightarrow> ptr \<Rightarrow> ptr list \<Rightarrow> bool" where
  "chain h p [] \<longleftrightarrow> p = NULL"
| "chain h p (x # xs) \<longleftrightarrow> p = x \<and> x \<noteq> NULL \<and> (\<exists>r. h x = Some r \<and> chain h (dl_next r) xs)"

lemma chain_NULL [simp]: "chain h NULL xs \<longleftrightarrow> xs = []"
  by (cases xs) auto

lemma chain_cong:
  "(\<And>x. x \<in> set xs \<Longrightarrow> map_option dl_next (h' x) = map_option dl_next (h x)) \<Longrightarrow>
   chain h' p xs \<longleftrightarrow> chain h p xs"
proof (induction xs arbitrary: p)
  case (Cons x xs)
  have "map_option dl_next (h' x) = map_option dl_next (h x)"
    by (rule Cons.prems) simp
  then show ?case
    using Cons.IH Cons.prems by (cases "h x"; cases "h' x") auto
qed simp

lemma chain_upd_notin [simp]: "q \<notin> set xs \<Longrightarrow> chain (h(q := v)) p xs \<longleftrightarrow> chain h p xs"
  by (rule chain_cong) auto

lemma chain_mem: "chain h p xs \<Longrightarrow> x \<in> set xs \<Longrightarrow> x \<noteq> NULL \<and> (\<exists>r. h x = Some r)"
  by (induction xs arbitrary: p) auto

lemma chain_unique: "chain h p xs \<Longrightarrow> chain h p ys \<Longrightarrow> xs = ys"
  by (induction xs arbitrary: p ys; case_tac ys) auto

lemma chain_snoc:
  assumes "chain h p (xs @ [t])" "distinct (xs @ [t])" "h t = Some r" "q \<noteq> NULL" "q \<notin> set (xs @ [t])"
  shows "chain (h(t \<mapsto> r\<lparr>dl_next := q\<rparr>, q \<mapsto> rq\<lparr>dl_next := NULL\<rparr>)) p (xs @ [t, q])"
  using assms
proof (induction xs arbitrary: p)
  case (Cons x xs)
  from Cons.prems(1) obtain rx where rx: "p = x" "x \<noteq> NULL" "h x = Some rx"
    and c: "chain h (dl_next rx) (xs @ [t])" by auto
  from Cons.prems have "x \<noteq> t" "x \<noteq> q" by auto
  with rx Cons.IH [OF c] Cons.prems show ?case by auto
qed auto

section \<open>Representation of the queues\<close>

definition req_slot :: "kenv \<Rightarrow> listen_sock \<Rightarrow> tcp_request_sock \<Rightarrow> nat" where
  "req_slot K lopt r =
     unat (inet_synq_hash K (rmt_addr r) (rmt_port r) (hash_rnd lopt) (nr_table_entries lopt))"

definition is_young :: "(ptr \<rightharpoonup> tcp_request_sock) \<Rightarrow> ptr \<Rightarrow> bool" where
  "is_young h x = (case h x of Some r \<Rightarrow> req_retrans r = 0 | None \<Rightarrow> False)"

definition young :: "(ptr \<rightharpoonup> tcp_request_sock) \<Rightarrow> ptr list \<Rightarrow> nat" where
  "young h xs = length (filter (is_young h) xs)"

definition in_slot :: "kenv \<Rightarrow> listen_sock \<Rightarrow> (ptr \<rightharpoonup> tcp_request_sock) \<Rightarrow> nat \<Rightarrow> ptr \<Rightarrow> bool" where
  "in_slot K lopt h i x = (case h x of Some r \<Rightarrow> req_slot K lopt r = i | None \<Rightarrow> False)"

definition table_rel ::
    "kenv \<Rightarrow> listen_sock \<Rightarrow> (ptr \<rightharpoonup> tcp_request_sock) \<Rightarrow> ptr list list \<Rightarrow> bool" where
  "table_rel K lopt h tbl \<longleftrightarrow>
     unat (nr_table_entries lopt) = 2 ^ unat (max_qlen_log lopt) \<and>
     length (syn_table lopt) = unat (nr_table_entries lopt) \<and>
     length tbl = unat (nr_table_entries lopt) \<and>
     clock_hand lopt < nr_table_entries lopt \<and>
     qlen lopt = int (length (concat tbl)) \<and>
     qlen_young lopt = int (young h (concat tbl)) \<and>
     (\<forall>i < length tbl. chain h (syn_table lopt ! i) (tbl ! i) \<and>
                       (\<forall>x \<in> set (tbl ! i). in_slot K lopt h i x))"

definition acceptq_rel :: "listener \<Rightarrow> ptr list \<Rightarrow> bool" where
  "acceptq_rel s aq \<longleftrightarrow>
     chain (reqs s) (rskq_accept_head s) aq \<and>
     (aq \<noteq> [] \<longrightarrow> rskq_accept_tail s = last aq) \<and>
     sk_ack_backlog s = of_nat (length aq)"

definition rq_rel :: "kenv \<Rightarrow> listener \<Rightarrow> ptr list \<Rightarrow> ptr list list \<Rightarrow> bool" where
  "rq_rel K s aq tbl \<longleftrightarrow>
     (\<exists>lopt. listen_opt s = Some lopt \<and> table_rel K lopt (reqs s) tbl) \<and>
     acceptq_rel s aq \<and> distinct (aq @ concat tbl)"

lemma in_slot_lopt:
  "nr_table_entries l' = nr_table_entries l \<Longrightarrow> hash_rnd l' = hash_rnd l \<Longrightarrow>
   in_slot K l' h i x = in_slot K l h i x"
  by (simp add: in_slot_def req_slot_def split: option.split)

lemma young_cong: "(\<And>x. x \<in> set xs \<Longrightarrow> is_young h' x = is_young h x) \<Longrightarrow> young h' xs = young h xs"
  unfolding young_def by (metis (mono_tags, lifting) filter_cong)

lemma young_simps [simp]:
  "young h [] = 0"
  "young h (x # xs) = (if is_young h x then Suc (young h xs) else young h xs)"
  "young h (xs @ ys) = young h xs + young h ys"
  by (simp_all add: young_def)

lemma young_upd_notin [simp]: "x \<notin> set xs \<Longrightarrow> young (h(x := v)) xs = young h xs"
  by (rule young_cong) (auto simp: is_young_def)

definition rest :: "ptr list list \<Rightarrow> nat \<Rightarrow> ptr list" where
  "rest tbl i = concat (take i tbl) @ concat (drop (Suc i) tbl)"

lemma set_other_slot:
  assumes "j < length tbl" "j \<noteq> i" "x \<in> set (tbl ! j)"
  shows "x \<in> set (rest tbl i)"
proof (cases "j < i")
  case True
  then have "tbl ! j \<in> set (take i tbl)"
    using assms by (metis in_set_conv_nth length_take min_less_iff_conj nth_take)
  with assms(3) show ?thesis by (auto simp: rest_def)
next
  case False
  with assms(2) have "Suc i \<le> j" by simp
  then have "tbl ! j = drop (Suc i) tbl ! (j - Suc i)" "j - Suc i < length (drop (Suc i) tbl)"
    using assms(1) by simp_all
  then have "tbl ! j \<in> set (drop (Suc i) tbl)" by (metis nth_mem)
  with assms(3) show ?thesis by (auto simp: rest_def)
qed

lemma mset_slot:
  assumes "i < length tbl"
  shows "length (concat tbl) = length (tbl ! i) + length (rest tbl i)"
    and "young h (concat tbl) = young h (tbl ! i) + young h (rest tbl i)"
    and "set (concat tbl) = set (tbl ! i) \<union> set (rest tbl i)"
    and "distinct (concat tbl) \<longleftrightarrow> distinct (tbl ! i) \<and> distinct (rest tbl i) \<and>
           set (tbl ! i) \<inter> set (rest tbl i) = {}"
proof -
  note c = concat_split(1) [OF assms]
  show "length (concat tbl) = length (tbl ! i) + length (rest tbl i)"
    by (subst c) (simp add: rest_def)
  show "young h (concat tbl) = young h (tbl ! i) + young h (rest tbl i)"
    by (subst c) (simp add: rest_def)
  show "set (concat tbl) = set (tbl ! i) \<union> set (rest tbl i)"
    by (subst c) (auto simp: rest_def)
  show "distinct (concat tbl) \<longleftrightarrow> distinct (tbl ! i) \<and> distinct (rest tbl i) \<and>
           set (tbl ! i) \<inter> set (rest tbl i) = {}"
    by (subst c) (auto simp: rest_def)
qed

lemma rest_update [simp]: "rest (tbl[i := ys]) i = rest tbl i"
  by (simp add: rest_def)

text \<open>
  The frame rule of the table: changing one slot's chain, and no request outside of it, keeps
  the representation when the counters follow.
\<close>

lemma table_rel_slot:
  assumes rel: "table_rel K lopt h tbl" and i: "i < length tbl"
    and lopt': "nr_table_entries lopt' = nr_table_entries lopt" "hash_rnd lopt' = hash_rnd lopt"
      "max_qlen_log lopt' = max_qlen_log lopt" "clock_hand lopt' = clock_hand lopt"
      "syn_table lopt' = (syn_table lopt)[i := p]"
    and frame: "\<And>x. x \<in> set (rest tbl i) \<Longrightarrow> h' x = h x"
    and ys: "chain h' p ys" "\<And>x. x \<in> set ys \<Longrightarrow> in_slot K lopt h' i x"
    and ql: "qlen lopt' = qlen lopt - int (length (tbl ! i)) + int (length ys)"
    and qy: "qlen_young lopt' = qlen_young lopt - int (young h (tbl ! i)) + int (young h' ys)"
  shows "table_rel K lopt' h' (tbl[i := ys])"
proof -
  have yr: "young h' (rest tbl i) = young h (rest tbl i)"
    by (rule young_cong) (simp add: is_young_def frame)
  have slot: "in_slot K lopt' h' j x = in_slot K lopt h' j x" for j x
    by (rule in_slot_lopt) (simp_all add: lopt')
  have other: "chain h' (syn_table lopt ! j) (tbl ! j) \<and> (\<forall>x \<in> set (tbl ! j). in_slot K lopt' h' j x)"
    if "j < length tbl" "j \<noteq> i" for j
  proof -
    have same: "h' x = h x" if "x \<in> set (tbl ! j)" for x
      using that \<open>j < length tbl\<close> \<open>j \<noteq> i\<close> by (metis frame set_other_slot)
    have "chain h (syn_table lopt ! j) (tbl ! j)" "\<forall>x \<in> set (tbl ! j). in_slot K lopt h j x"
      using rel that by (auto simp: table_rel_def)
    moreover have "chain h' (syn_table lopt ! j) (tbl ! j) = chain h (syn_table lopt ! j) (tbl ! j)"
      by (rule chain_cong) (simp add: same)
    ultimately show ?thesis by (simp add: slot) (simp add: in_slot_def same)
  qed
  have here: "\<forall>x \<in> set ys. in_slot K lopt' h' i x"
    using ys(2) by (simp add: slot)
  have "length (concat (tbl[i := ys])) = length ys + length (rest tbl i)"
       "young h' (concat (tbl[i := ys])) = young h' ys + young h (rest tbl i)"
    using mset_slot(1,2) [of i "tbl[i := ys]"] i yr by simp_all
  moreover have "length (concat tbl) = length (tbl ! i) + length (rest tbl i)"
      "young h (concat tbl) = young h (tbl ! i) + young h (rest tbl i)"
    using mset_slot(1,2) [OF i] by simp_all
  moreover have "chain h' ((syn_table lopt)[i := p] ! j) (tbl[i := ys] ! j) \<and>
      (\<forall>x \<in> set (tbl[i := ys] ! j). in_slot K lopt' h' j x)" if "j < length tbl" for j
    using other [OF that] ys(1) here i rel that
    by (cases "j = i") (auto simp: table_rel_def nth_list_update)
  ultimately show ?thesis
    using rel ql qy by (auto simp: table_rel_def lopt')
qed

lemma rq_relE:
  assumes "rq_rel K s aq tbl"
  obtains lopt where "listen_opt s = Some lopt" "table_rel K lopt (reqs s) tbl"
    "acceptq_rel s aq" "distinct aq" "distinct (concat tbl)" "set aq \<inter> set (concat tbl) = {}"
  using assms by (auto simp: rq_rel_def)

lemma table_rel_slot_lt:
  assumes "table_rel K lopt h tbl"
  shows "req_slot K lopt r < length tbl"
proof -
  have "0 < unat (nr_table_entries lopt)"
    using assms by (simp add: table_rel_def)
  then have "req_slot K lopt r < unat (nr_table_entries lopt)"
    unfolding req_slot_def inet_synq_hash_def by (rule unat_and_mask_less)
  then show ?thesis using assms by (simp add: table_rel_def)
qed

section \<open>Reading and cutting chains\<close>

definition head_ptr :: "ptr list \<Rightarrow> ptr" where
  "head_ptr xs = (case xs of [] \<Rightarrow> NULL | x # _ \<Rightarrow> x)"

definition link_after :: "nat \<Rightarrow> ptr list \<Rightarrow> link" where
  "link_after i done = (if done = [] then Slot i else Next (last done))"

lemma head_ptr_simps [simp]: "head_ptr [] = NULL" "head_ptr (x # xs) = x"
  by (simp_all add: head_ptr_def)

lemma chain_head: "chain h p xs \<Longrightarrow> p = head_ptr xs"
  by (cases xs) auto

lemma chain_at:
  "chain h p (as @ a # bs) \<Longrightarrow> \<exists>r. h a = Some r \<and> a \<noteq> NULL \<and> dl_next r = head_ptr bs \<and> chain h (dl_next r) bs"
  by (induction as arbitrary: p) (auto dest: chain_head)

lemma chain_unlink:
  assumes "chain h p (as @ a # x # bs)" "distinct (as @ a # x # bs)" "h a = Some ra" "h x = Some rx"
  shows "chain (h(a \<mapsto> ra\<lparr>dl_next := dl_next rx\<rparr>)) p (as @ a # bs)"
  using assms
proof (induction as arbitrary: p)
  case Nil
  then have "chain h (dl_next rx) bs" "a \<notin> set bs" "p = a" "a \<noteq> NULL" by auto
  then show ?case by (simp add: chain_upd_notin del: fun_upd_apply) (simp add: fun_upd_same)
next
  case (Cons y ys)
  then obtain ry where ry: "p = y" "y \<noteq> NULL" "h y = Some ry"
    and c: "chain h (dl_next ry) (ys @ a # x # bs)" by auto
  from Cons.prems have "y \<noteq> a" by auto
  with Cons.IH [OF c] Cons.prems ry show ?case by auto
qed

lemma rq_rel_chain:
  assumes "rq_rel K s aq tbl" "i < length tbl"
  obtains lopt where "listen_opt s = Some lopt" "i < length (syn_table lopt)"
    "chain (reqs s) (syn_table lopt ! i) (tbl ! i)" "table_rel K lopt (reqs s) tbl"
  using assms by (auto simp: rq_rel_def table_rel_def)

lemma rq_rel_read_link:
  assumes "rq_rel K s aq tbl" "i < length tbl" "tbl ! i = done @ todo"
  shows "read_link s (link_after i done) = Some (head_ptr todo)"
proof -
  from rq_rel_chain [OF assms(1,2)] obtain lopt where lopt: "listen_opt s = Some lopt"
    "i < length (syn_table lopt)" "chain (reqs s) (syn_table lopt ! i) (done @ todo)"
    using assms(3) by metis
  show ?thesis
  proof (cases "done = []")
    case True
    with lopt show ?thesis by (auto simp: link_after_def dest: chain_head)
  next
    case False
    then have "done @ todo = butlast done @ last done # todo" by simp
    with lopt(3) have "\<exists>r. reqs s (last done) = Some r \<and> dl_next r = head_ptr todo"
      using chain_at by metis
    with False show ?thesis by (auto simp: link_after_def)
  qed
qed

section \<open>Unlinking, freeing and queueing a request\<close>

text \<open>A request's content is its record without the link.\<close>

definition content :: "listener \<Rightarrow> ptr \<Rightarrow> tcp_request_sock option" where
  "content s x = map_option (\<lambda>r. r\<lparr>dl_next := NULL\<rparr>) (reqs s x)"

lemma content_same_retrans:
  assumes "map_option (\<lambda>r. r\<lparr>dl_next := NULL\<rparr>) (h' x) = map_option (\<lambda>r. r\<lparr>dl_next := NULL\<rparr>) (h x)"
  shows "is_young h' x = is_young h x" "in_slot K lopt h' i x = in_slot K lopt h i x"
proof -
  have "is_young h' x = is_young h x \<and> in_slot K lopt h' i x = in_slot K lopt h i x"
  proof (cases "h x")
    case None
    with assms have "h' x = None" by simp
    with None show ?thesis by (simp add: is_young_def in_slot_def)
  next
    case (Some r)
    with assms obtain r' where r': "h' x = Some r'" "r'\<lparr>dl_next := NULL\<rparr> = r\<lparr>dl_next := NULL\<rparr>"
      by (metis (no_types, lifting) map_option_eq_Some)
    have "req_retrans (r'\<lparr>dl_next := NULL\<rparr>) = req_retrans (r\<lparr>dl_next := NULL\<rparr>)"
      "rmt_addr (r'\<lparr>dl_next := NULL\<rparr>) = rmt_addr (r\<lparr>dl_next := NULL\<rparr>)"
      "rmt_port (r'\<lparr>dl_next := NULL\<rparr>) = rmt_port (r\<lparr>dl_next := NULL\<rparr>)"
      by (simp_all only: r'(2))
    with Some r'(1) show ?thesis by (simp add: req_slot_def is_young_def in_slot_def)
  qed
  then show "is_young h' x = is_young h x" "in_slot K lopt h' i x = in_slot K lopt h i x"
    by simp_all
qed

lemma unlink_spec:
  assumes "rq_rel K s aq tbl" "i < length tbl" "tbl ! i = as @ x # bs"
    and lopt: "listen_opt s = Some lopt"
  shows "\<exists>h q. reqsk_queue_unlink x (link_after i as) s =
           Some (s\<lparr>reqs := h, listen_opt := Some (lopt\<lparr>syn_table := (syn_table lopt)[i := q]\<rparr>)\<rparr>) \<and>
         chain h q (as @ bs) \<and> (\<forall>y. y \<notin> set as \<longrightarrow> h y = reqs s y) \<and>
         (\<forall>y. map_option (\<lambda>r. r\<lparr>dl_next := NULL\<rparr>) (h y) = content s y)"
proof -
  from rq_rel_chain [OF assms(1,2)] lopt assms(3) have i: "i < length (syn_table lopt)"
    and c: "chain (reqs s) (syn_table lopt ! i) (as @ x # bs)" by auto
  from assms have d: "distinct (as @ x # bs)"
    using mset_slot(4) [OF assms(2)] by (auto simp: rq_rel_def)
  from chain_at [OF c] obtain rx where rx: "reqs s x = Some rx" "chain (reqs s) (dl_next rx) bs"
    by blast
  show ?thesis
  proof (cases as rule: rev_cases)
    case Nil
    then have "reqsk_queue_unlink x (link_after i as) s =
        Some (s\<lparr>reqs := reqs s, listen_opt := Some (lopt\<lparr>syn_table := (syn_table lopt)[i := dl_next rx]\<rparr>)\<rparr>)"
      using rx i lopt by (simp add: reqsk_queue_unlink_def link_after_def)
    moreover have "chain (reqs s) (dl_next rx) (as @ bs)" using rx Nil by simp
    ultimately show ?thesis by (metis content_def)
  next
    case (snoc as' a)
    from c snoc obtain ra where ra: "reqs s a = Some ra"
      by (metis append.assoc append_Cons append_Nil chain_at)
    define h where "h = (reqs s)(a \<mapsto> ra\<lparr>dl_next := dl_next rx\<rparr>)"
    have "reqsk_queue_unlink x (link_after i as) s =
        Some (s\<lparr>reqs := h, listen_opt := Some (lopt\<lparr>syn_table := (syn_table lopt)[i := syn_table lopt ! i]\<rparr>)\<rparr>)"
      using rx ra lopt snoc by (simp add: reqsk_queue_unlink_def link_after_def upd_req_def h_def)
    moreover have "chain h (syn_table lopt ! i) (as @ bs)"
      using chain_unlink [of "reqs s" "syn_table lopt ! i" as' a x bs ra rx] c d ra rx snoc
      by (simp add: h_def)
    moreover have "\<forall>y. y \<notin> set as \<longrightarrow> h y = reqs s y" using snoc by (simp add: h_def)
    moreover have "\<forall>y. map_option (\<lambda>r. r\<lparr>dl_next := NULL\<rparr>) (h y) = content s y"
      using ra by (simp add: h_def content_def)
    ultimately show ?thesis by blast
  qed
qed

text \<open>The fields of the listener that a walk over one slot leaves alone.\<close>

definition same_config :: "listener \<Rightarrow> listener \<Rightarrow> bool" where
  "same_config s s' \<longleftrightarrow>
     s'\<lparr>reqs := Map.empty, listen_opt := None\<rparr> = s\<lparr>reqs := Map.empty, listen_opt := None\<rparr> \<and>
     (case (listen_opt s, listen_opt s') of
        (Some l, Some l') \<Rightarrow> nr_table_entries l' = nr_table_entries l \<and> hash_rnd l' = hash_rnd l \<and>
          max_qlen_log l' = max_qlen_log l \<and> clock_hand l' = clock_hand l
      | _ \<Rightarrow> False)"

lemma same_config_trans: "same_config s1 s2 \<Longrightarrow> same_config s2 s3 \<Longrightarrow> same_config s1 s3"
  by (simp add: same_config_def split: option.splits)

lemma same_config_reqs: "same_config s s' \<Longrightarrow> same_config s (s'\<lparr>reqs := h\<rparr>)"
  by (simp add: same_config_def)

lemma unlink_removed_spec:
  assumes rel: "rq_rel K s aq tbl" and i: "i < length tbl" and x: "tbl ! i = as @ x # bs"
  shows "\<exists>s1 s2. reqsk_queue_unlink x (link_after i as) s = Some s1 \<and>
           reqsk_queue_removed x s1 = Some (int (length (concat tbl)) - 1, s2) \<and>
           rq_rel K s2 aq (tbl[i := as @ bs]) \<and> reqs s2 x \<noteq> None \<and> content s2 = content s \<and>
           x \<notin> set (aq @ concat (tbl[i := as @ bs])) \<and>
           same_config s s2"
proof -
  from rq_relE [OF rel] obtain lopt where lopt: "listen_opt s = Some lopt"
    and tr: "table_rel K lopt (reqs s) tbl" and aq: "acceptq_rel s aq"
    and d: "distinct aq" "distinct (concat tbl)" "set aq \<inter> set (concat tbl) = {}" .
  from unlink_spec [OF rel i x lopt] obtain h q where
    u: "reqsk_queue_unlink x (link_after i as) s =
         Some (s\<lparr>reqs := h, listen_opt := Some (lopt\<lparr>syn_table := (syn_table lopt)[i := q]\<rparr>)\<rparr>)"
    and c: "chain h q (as @ bs)" and fr: "\<And>y. y \<notin> set as \<Longrightarrow> h y = reqs s y"
    and ct: "\<And>y. map_option (\<lambda>r. r\<lparr>dl_next := NULL\<rparr>) (h y) = content s y" by blast
  have dx: "distinct (as @ x # bs)" "set (as @ x # bs) \<inter> set (rest tbl i) = {}"
    using mset_slot(4) [OF i] d x by auto
  from rq_rel_chain [OF rel i] lopt x have "chain (reqs s) (syn_table lopt ! i) (as @ x # bs)" by auto
  then obtain r where r: "reqs s x = Some r" using chain_at by blast
  with dx have hx: "h x = Some r" using fr [of x] by simp
  have yh: "is_young h y = is_young (reqs s) y" and ih: "in_slot K lopt h j y = in_slot K lopt (reqs s) j y" for y j
    using content_same_retrans [of h y "reqs s"] ct [of y] by (auto simp: content_def)
  define lopt' where "lopt' = lopt\<lparr>syn_table := (syn_table lopt)[i := q],
      qlen_young := (if req_retrans r = 0 then qlen_young lopt - 1 else qlen_young lopt), qlen := qlen lopt - 1\<rparr>"
  define s2 where "s2 = s\<lparr>reqs := h, listen_opt := Some lopt'\<rparr>"
  have rem: "reqsk_queue_removed x (s\<lparr>reqs := h, listen_opt := Some (lopt\<lparr>syn_table := (syn_table lopt)[i := q]\<rparr>)\<rparr>) =
      Some (qlen lopt - 1, s2)"
    using hx by (simp add: reqsk_queue_removed_def s2_def lopt'_def)
  have yy: "young h (as @ bs) = young (reqs s) (as @ bs)" by (rule young_cong) (simp add: yh)
  have "table_rel K lopt' h (tbl[i := as @ bs])"
  proof (rule table_rel_slot [OF tr i])
    show "h y = reqs s y" if "y \<in> set (rest tbl i)" for y
      using that dx by (intro fr) auto
    show "in_slot K lopt h i y" if "y \<in> set (as @ bs)" for y
      using that tr i x by (auto simp: ih table_rel_def)
    show "qlen_young lopt' = qlen_young lopt - int (young (reqs s) (tbl ! i)) + int (young h (as @ bs))"
      using r x yy by (simp add: lopt'_def is_young_def)
  qed (use c x in \<open>simp_all add: lopt'_def\<close>)
  moreover have "chain h p aq = chain (reqs s) p aq" for p
  proof (rule chain_cong)
    show "map_option dl_next (h y) = map_option dl_next (reqs s y)" if "y \<in> set aq" for y
      using that x d mset_slot(3) [OF i] by (subst fr) auto
  qed
  moreover have "distinct (aq @ concat (tbl[i := as @ bs]))"
    "x \<notin> set (aq @ concat (tbl[i := as @ bs]))"
    using d dx x mset_slot(3,4) [OF i] mset_slot(3,4) [of i "tbl[i := as @ bs]"] i by auto
  ultimately have "rq_rel K s2 aq (tbl[i := as @ bs])" "x \<notin> set (aq @ concat (tbl[i := as @ bs]))"
    using aq by (auto simp: rq_rel_def s2_def acceptq_rel_def)
  moreover have "content s2 = content s" by (rule ext) (simp add: s2_def content_def ct [unfolded content_def])
  moreover have "qlen lopt = int (length (concat tbl))" using tr by (simp add: table_rel_def)
  moreover have "same_config s s2" by (simp add: same_config_def s2_def lopt lopt'_def)
  ultimately show ?thesis using u rem hx by (auto simp: s2_def)
qed

lemma rq_rel_free:
  assumes rel: "rq_rel K s aq tbl" and x: "x \<notin> set (aq @ concat tbl)" and r: "reqs s x \<noteq> None"
  shows "reqsk_free x s = Some (s\<lparr>reqs := (reqs s)(x := None)\<rparr>)"
    and "rq_rel K (s\<lparr>reqs := (reqs s)(x := None)\<rparr>) aq tbl"
proof -
  show "reqsk_free x s = Some (s\<lparr>reqs := (reqs s)(x := None)\<rparr>)"
    using r by (auto simp: reqsk_free_def)
  from rq_relE [OF rel] obtain lopt where lopt: "listen_opt s = Some lopt"
    and tr: "table_rel K lopt (reqs s) tbl" and aq: "acceptq_rel s aq" by metis
  have "young ((reqs s)(x := None)) (concat tbl) = young (reqs s) (concat tbl)"
    using x by (intro young_cong) (auto simp: is_young_def)
  moreover have "in_slot K lopt ((reqs s)(x := None)) i y = in_slot K lopt (reqs s) i y"
    if "y \<in> set (concat tbl)" for i y
    using that x by (auto simp: in_slot_def)
  moreover have "x \<notin> set (tbl ! i)" if "i < length tbl" for i
    using x that nth_mem by fastforce
  ultimately have "table_rel K lopt ((reqs s)(x := None)) tbl"
    using tr nth_mem by (fastforce simp: table_rel_def)
  then show "rq_rel K (s\<lparr>reqs := (reqs s)(x := None)\<rparr>) aq tbl"
    using rel lopt aq x by (auto simp: rq_rel_def acceptq_rel_def)
qed

text \<open>
  The frame rule for the store: a request outside of both structures may be changed, added or
  removed, and the link of a queued request may be rewritten where its chain is unaffected.
\<close>

lemma table_rel_cong:
  assumes "table_rel K lopt h tbl" "\<And>y. y \<in> set (concat tbl) \<Longrightarrow> h' y = h y"
  shows "table_rel K lopt h' tbl"
proof -
  have "young h' (concat tbl) = young h (concat tbl)"
    using assms(2) by (intro young_cong) (simp add: is_young_def)
  moreover have "chain h' p (tbl ! i) = chain h p (tbl ! i)" if "i < length tbl" for i p
    using that assms(2) nth_mem by (intro chain_cong) fastforce
  moreover have "in_slot K lopt h' i y = in_slot K lopt h i y" if "i < length tbl" "y \<in> set (tbl ! i)" for i y
    using that assms(2) [of y] nth_mem by (fastforce simp: in_slot_def)
  ultimately show ?thesis using assms(1) by (simp add: table_rel_def)
qed

lemma reqsk_queue_add_spec:
  assumes rel: "rq_rel K s aq tbl" and x: "x \<notin> set (aq @ concat tbl)" "x \<noteq> NULL"
    and r: "reqs s x = Some r"
  shows "\<exists>s'. reqsk_queue_add x child s = Some s' \<and> rq_rel K s' (aq @ [x]) tbl \<and>
           content s' x = Some (r\<lparr>req_sk := child, dl_next := NULL\<rparr>) \<and>
           (\<forall>y. y \<noteq> x \<longrightarrow> content s' y = content s y)"
proof -
  from rq_relE [OF rel] obtain lopt where lopt: "listen_opt s = Some lopt"
    and tr: "table_rel K lopt (reqs s) tbl" and aq: "acceptq_rel s aq"
    and d: "distinct aq" "distinct (concat tbl)" "set aq \<inter> set (concat tbl) = {}" .
  define r1 where "r1 = r\<lparr>req_sk := child\<rparr>"
  show ?thesis
  proof (cases aq rule: rev_cases)
    case Nil
    define s' where "s' = s\<lparr>reqs := (reqs s)(x \<mapsto> r1\<lparr>dl_next := NULL\<rparr>), sk_ack_backlog := sk_ack_backlog s + 1,
        rskq_accept_head := x, rskq_accept_tail := x\<rparr>"
    have "reqsk_queue_add x child s = Some s'"
      using aq Nil r by (simp add: reqsk_queue_add_def upd_req_def sk_acceptq_added_def
          acceptq_rel_def s'_def r1_def)
    moreover have "acceptq_rel s' (aq @ [x])"
      using aq Nil x by (simp add: acceptq_rel_def s'_def)
    moreover have "table_rel K lopt (reqs s') tbl"
      using x by (intro table_rel_cong [OF tr]) (auto simp: s'_def)
    ultimately show ?thesis
      using lopt x d by (auto simp: rq_rel_def s'_def content_def r1_def)
  next
    case (snoc as t)
    then have c: "chain (reqs s) (rskq_accept_head s) (as @ [t])"
      and tl: "rskq_accept_tail s = t" using aq by (simp_all add: acceptq_rel_def)
    from chain_at [OF c] obtain rt where rt: "reqs s t = Some rt" by blast
    have "t \<noteq> x" using x snoc by auto
    define h where "h = (reqs s)(t \<mapsto> rt\<lparr>dl_next := x\<rparr>, x \<mapsto> r1\<lparr>dl_next := NULL\<rparr>)"
    define s' where "s' = s\<lparr>reqs := h, sk_ack_backlog := sk_ack_backlog s + 1, rskq_accept_tail := x\<rparr>"
    have ne: "rskq_accept_head s \<noteq> NULL" using c by (cases as) auto
    have "reqsk_queue_add x child s = Some s'"
      using r rt tl ne \<open>t \<noteq> x\<close> by (simp add: reqsk_queue_add_def upd_req_def sk_acceptq_added_def
          s'_def h_def r1_def fun_upd_twist)
    moreover have "chain h (rskq_accept_head s) (as @ [t, x])"
      unfolding h_def using c d rt x snoc by (intro chain_snoc) auto
    then have "acceptq_rel s' (aq @ [x])"
      using aq snoc by (simp add: acceptq_rel_def s'_def algebra_simps)
    moreover have "table_rel K lopt h tbl"
      using x d snoc by (intro table_rel_cong [OF tr]) (auto simp: h_def)
    moreover have "content s' x = Some (r\<lparr>req_sk := child, dl_next := NULL\<rparr>)"
      by (simp add: content_def s'_def h_def r1_def)
    moreover have "content s' y = content s y" if "y \<noteq> x" for y
      using that rt by (simp add: content_def s'_def h_def)
    ultimately show ?thesis using lopt x d by (auto simp: rq_rel_def s'_def)
  qed
qed

lemma reqsk_queue_get_child_spec:
  assumes rel: "rq_rel K s (x # aq) tbl"
  shows "\<exists>r s'. reqs s x = Some r \<and> reqsk_queue_get_child s = Some (req_sk r, s') \<and>
           rq_rel K s' aq tbl \<and> reqs s' = (reqs s)(x := None) \<and>
           sk_ack_backlog s' = sk_ack_backlog s - 1"
proof -
  from rq_relE [OF rel] obtain lopt where lopt: "listen_opt s = Some lopt"
    and tr: "table_rel K lopt (reqs s) tbl" and aq: "acceptq_rel s (x # aq)"
    and d: "distinct (x # aq)" "distinct (concat tbl)" "set (x # aq) \<inter> set (concat tbl) = {}" .
  from aq obtain r where r: "reqs s x = Some r" and hd: "rskq_accept_head s = x"
    and c: "chain (reqs s) (dl_next r) aq" by (auto simp: acceptq_rel_def)
  define s' where "s' = s\<lparr>reqs := (reqs s)(x := None), rskq_accept_head := dl_next r,
      rskq_accept_tail := (if dl_next r = NULL then NULL else rskq_accept_tail s),
      sk_ack_backlog := sk_ack_backlog s - 1\<rparr>"
  have "reqsk_queue_get_child s = Some (req_sk r, s')"
    using r hd by (simp add: reqsk_queue_get_child_def reqsk_queue_remove_def reqsk_free_def
        sk_acceptq_removed_def s'_def)
  moreover have "acceptq_rel s' aq"
    using aq c d by (cases aq) (auto simp: acceptq_rel_def s'_def)
  moreover have "table_rel K lopt (reqs s') tbl"
    using d by (intro table_rel_cong [OF tr]) (auto simp: s'_def)
  ultimately show ?thesis using r lopt d by (auto simp: rq_rel_def s'_def)
qed

lemma reqsk_queue_hash_add_spec:
  assumes rel: "rq_rel K s aq tbl" and x: "x \<notin> set (aq @ concat tbl)" "x \<noteq> NULL"
    and r: "reqs s x = Some r" and lopt: "listen_opt s = Some lopt"
  defines "i \<equiv> req_slot K lopt r"
  shows "\<exists>s'. inet_csk_reqsk_queue_hash_add K x timeout s = Some s' \<and>
           rq_rel K s' aq (tbl[i := x # tbl ! i]) \<and>
           content s' x = Some (r\<lparr>req_expires := jiffies K + timeout, req_retrans := 0,
                                  req_sk := NULL, dl_next := NULL\<rparr>) \<and>
           (\<forall>y. y \<noteq> x \<longrightarrow> reqs s' y = reqs s y) \<and>
           sk_timer s' = (if concat tbl = [] then Some (jiffies K + timeout) else sk_timer s)"
proof -
  from rq_relE [OF rel] lopt have tr: "table_rel K lopt (reqs s) tbl" and aq: "acceptq_rel s aq"
    and d: "distinct aq" "distinct (concat tbl)" "set aq \<inter> set (concat tbl) = {}" by auto
  have i: "i < length tbl" unfolding i_def by (rule table_rel_slot_lt [OF tr])
  with tr have i': "i < length (syn_table lopt)"
    and c: "chain (reqs s) (syn_table lopt ! i) (tbl ! i)" by (auto simp: table_rel_def)
  have xi: "x \<notin> set (tbl ! i)" "x \<notin> set (rest tbl i)" using x mset_slot(3) [OF i] by auto
  define r' where "r' = r\<lparr>req_expires := jiffies K + timeout, req_retrans := 0,
      req_sk := NULL, dl_next := syn_table lopt ! i\<rparr>"
  define h where "h = (reqs s)(x \<mapsto> r')"
  define lopt' where "lopt' = lopt\<lparr>syn_table := (syn_table lopt)[i := x],
      qlen_young := qlen_young lopt + 1, qlen := qlen lopt + 1\<rparr>"
  define s' where "s' = s\<lparr>reqs := h, listen_opt := Some lopt',
      sk_timer := (if concat tbl = [] then Some (jiffies K + timeout) else sk_timer s)\<rparr>"
  have "qlen lopt = 0 \<longleftrightarrow> concat tbl = []" using tr by (simp add: table_rel_def)
  then have "inet_csk_reqsk_queue_hash_add K x timeout s = Some s'"
    using r lopt i' unfolding inet_csk_reqsk_queue_hash_add_def reqsk_queue_hash_req_def
      inet_csk_reqsk_queue_added_def reqsk_queue_added_def inet_csk_reset_keepalive_timer_def
    by (simp add: upd_req_def i_def [symmetric, unfolded req_slot_def] s'_def h_def lopt'_def r'_def)
  moreover have "table_rel K lopt' h (tbl[i := x # tbl ! i])"
  proof (rule table_rel_slot [OF tr i])
    show "chain h x (x # tbl ! i)" using c xi x by (simp add: h_def r'_def)
    show "in_slot K lopt h i y" if "y \<in> set (x # tbl ! i)" for y
      using that tr i xi by (auto simp: in_slot_def h_def r'_def i_def req_slot_def table_rel_def)
    have "young h (tbl ! i) = young (reqs s) (tbl ! i)"
      using xi by (simp add: h_def)
    then show "qlen_young lopt' = qlen_young lopt - int (young (reqs s) (tbl ! i)) + int (young h (x # tbl ! i))"
      by (simp add: lopt'_def is_young_def h_def r'_def)
  qed (use xi in \<open>auto simp: lopt'_def h_def\<close>)
  moreover have "chain h p aq = chain (reqs s) p aq" for p
    using x by (simp add: h_def del: fun_upd_apply)
  moreover have "distinct (aq @ concat (tbl[i := x # tbl ! i]))"
    using d x xi mset_slot(3,4) [OF i] mset_slot(3,4) [of i "tbl[i := x # tbl ! i]"] i by auto
  ultimately show ?thesis using aq
    by (auto simp: rq_rel_def s'_def acceptq_rel_def content_def h_def r'_def)
qed

section \<open>Searching the table\<close>

fun link_to :: "link \<Rightarrow> ptr list \<Rightarrow> ptr \<Rightarrow> link" where
  "link_to L [] p = L"
| "link_to L (x # xs) p = (if x = p then L else link_to (Next x) xs p)"

lemma link_to_split:
  "distinct (as @ x # bs) \<Longrightarrow>
   link_to L (as @ x # bs) x = (if as = [] then L else Next (last as))"
  by (induction as arbitrary: L) (auto simp: last_append)

definition req_at :: "listener \<Rightarrow> be16 \<Rightarrow> be32 \<Rightarrow> be32 \<Rightarrow> ptr \<Rightarrow> bool" where
  "req_at s rport raddr laddr x =
     (case reqs s x of Some r \<Rightarrow> req_matches rport raddr laddr r | None \<Rightarrow> False)"

lemma search_chain_spec:
  "read_link s L = Some p \<Longrightarrow> chain (reqs s) p xs \<Longrightarrow>
   search_chain rport raddr laddr L s =
     Some (map_option (\<lambda>x. (x, link_to L xs x)) (find (req_at s rport raddr laddr) xs))"
proof (induction xs arbitrary: L p)
  case Nil
  then show ?case by (subst search_chain.simps) simp
next
  case (Cons x xs)
  then obtain r where r: "p = x" "x \<noteq> NULL" "reqs s x = Some r" "chain (reqs s) (dl_next r) xs"
    by auto
  have step: "search_chain rport raddr laddr L s =
      (if req_matches rport raddr laddr r then Some (Some (x, L))
       else search_chain rport raddr laddr (Next x) s)"
    using r Cons.prems by (subst search_chain.simps) simp
  have "search_chain rport raddr laddr (Next x) s =
      Some (map_option (\<lambda>y. (y, link_to (Next x) xs y)) (find (req_at s rport raddr laddr) xs))"
    using r by (intro Cons.IH [of _ "dl_next r"]) auto
  moreover have "req_at s rport raddr laddr x = req_matches rport raddr laddr r"
    using r by (simp add: req_at_def)
  moreover have "y \<noteq> x" if "find (req_at s rport raddr laddr) xs = Some y"
    "\<not> req_matches rport raddr laddr r" for y
    using that r by (auto simp: find_Some_iff req_at_def)
  ultimately show ?case using step by (cases "find (req_at s rport raddr laddr) xs") auto
qed

lemma search_req_spec:
  fixes rport :: be16 and raddr laddr :: be32
  assumes rel: "rq_rel K s aq tbl" and lopt: "listen_opt s = Some lopt"
  defines "i \<equiv> unat (inet_synq_hash K raddr rport (hash_rnd lopt) (nr_table_entries lopt))"
  shows "inet_csk_search_req K rport raddr laddr s =
     Some (map_option (\<lambda>x. (x, link_to (Slot i) (tbl ! i) x)) (find (req_at s rport raddr laddr) (tbl ! i)))"
    and "i < length tbl"
proof -
  from rq_relE [OF rel] lopt have tr: "table_rel K lopt (reqs s) tbl" by auto
  have "0 < unat (nr_table_entries lopt)" using tr by (simp add: table_rel_def)
  then have "i < unat (nr_table_entries lopt)"
    unfolding i_def inet_synq_hash_def by (rule unat_and_mask_less)
  with tr show i: "i < length tbl" by (simp add: table_rel_def)
  with tr have "chain (reqs s) (syn_table lopt ! i) (tbl ! i)" "i < length (syn_table lopt)"
    by (auto simp: table_rel_def)
  then show "inet_csk_search_req K rport raddr laddr s =
     Some (map_option (\<lambda>x. (x, link_to (Slot i) (tbl ! i) x)) (find (req_at s rport raddr laddr) (tbl ! i)))"
    unfolding inet_csk_search_req_def
    by (simp add: lopt i_def [symmetric] search_chain_spec [of s "Slot i" "syn_table lopt ! i"])
qed

section \<open>Expiry\<close>

text \<open>What one expiry pass does to a single request: kept, kept for another round, or dropped.\<close>

definition prune_req :: "kenv \<Rightarrow> prune_pass \<Rightarrow> ptr \<Rightarrow> tcp_request_sock \<Rightarrow> tcp_request_sock option" where
  "prune_req K P x r =
     (if \<not> time_after_eq K (pp_now P) (req_expires r) then Some r
      else case syn_ack_recalc r (pp_thresh P) (pp_max_retries P) (pp_defer P) of (expire, resend) \<Rightarrow>
        if \<not> expire \<and> (\<not> resend \<or> pp_rtx_syn_ack P x (req_retrans r) = 0 \<or> acked r)
        then Some (r\<lparr>req_retrans := req_retrans r + 1,
                     req_expires := pp_now P + min (push_bit (unat (req_retrans r + 1)) (pp_timeout P)) (pp_max_rto P)\<rparr>)
        else None)"

definition pruned :: "kenv \<Rightarrow> prune_pass \<Rightarrow> listener \<Rightarrow> ptr \<Rightarrow> tcp_request_sock option" where
  "pruned K P s x = Option.bind (content s x) (prune_req K P x)"

lemma prune_req_link:
  "prune_req K P x (r\<lparr>dl_next := q\<rparr>) = map_option (\<lambda>r. r\<lparr>dl_next := q\<rparr>) (prune_req K P x r)"
  by (simp add: prune_req_def syn_ack_recalc_def)

lemma prune_req_frame:
  "prune_req K P x r = Some r' \<Longrightarrow>
   dl_next r' = dl_next r \<and> rmt_addr r' = rmt_addr r \<and> rmt_port r' = rmt_port r"
  by (auto simp: prune_req_def split: if_splits prod.splits)

lemma word8_not_max: "(w :: 8 word) \<noteq> 255 \<Longrightarrow> w + 1 \<noteq> 0"
proof
  assume "w \<noteq> 255" "w + 1 = 0"
  then have "w = - 1" by (simp add: eq_neg_iff_add_eq_0)
  with \<open>w \<noteq> 255\<close> show False by simp
qed

text \<open>A kept request's counter does not wrap as long as the limits fit the counter.\<close>

lemma keep_no_wrap:
  assumes "prune_req K P x r = Some r'" "pp_thresh P \<le> 255" "pp_max_retries P \<le> 255"
    "time_after_eq K (pp_now P) (req_expires r)"
  shows "req_retrans r + 1 \<noteq> 0"
proof (rule word8_not_max, rule notI)
  assume "req_retrans r = 255"
  then have "uint (req_retrans r) = 255" by simp
  with assms show False
    by (auto simp: prune_req_def syn_ack_recalc_def split: if_splits)
qed

lemma rq_rel_touch:
  assumes rel: "rq_rel K s aq tbl" and i: "i < length tbl" and x: "x \<in> set (tbl ! i)"
    and lopt: "listen_opt s = Some lopt" and r: "reqs s x = Some r"
    and r': "dl_next r' = dl_next r" "rmt_addr r' = rmt_addr r" "rmt_port r' = rmt_port r"
    and lopt': "lopt' = lopt\<lparr>qlen_young := qlen_young lopt - (if req_retrans r = 0 then 1 else 0)
                                     + (if req_retrans r' = 0 then 1 else 0)\<rparr>"
  shows "rq_rel K (s\<lparr>listen_opt := Some lopt', reqs := (reqs s)(x \<mapsto> r')\<rparr>) aq tbl"
proof -
  from rq_relE [OF rel] lopt have tr: "table_rel K lopt (reqs s) tbl" and aq: "acceptq_rel s aq"
    and d: "distinct aq" "distinct (concat tbl)" "set aq \<inter> set (concat tbl) = {}" by auto
  define h where "h = (reqs s)(x \<mapsto> r')"
  have dl: "map_option dl_next (h y) = map_option dl_next (reqs s y)" for y
    using r r' by (simp add: h_def)
  from x obtain as bs where ab: "tbl ! i = as @ x # bs" by (meson split_list)
  have dx: "x \<notin> set as" "x \<notin> set bs" "x \<notin> set (rest tbl i)"
    using mset_slot(4) [OF i] d ab by auto
  have "young h as = young (reqs s) as" "young h bs = young (reqs s) bs"
    using dx by (simp_all add: h_def)
  then have y: "int (young h (tbl ! i)) = int (young (reqs s) (tbl ! i))
      - (if req_retrans r = 0 then 1 else 0) + (if req_retrans r' = 0 then 1 else 0)"
    using ab r by (simp add: is_young_def h_def)
  have "table_rel K lopt' h (tbl[i := tbl ! i])"
  proof (rule table_rel_slot [OF tr i])
    show "chain h (syn_table lopt ! i) (tbl ! i)"
      using tr i chain_cong [of "tbl ! i" h "reqs s"] dl by (auto simp: table_rel_def)
    show "in_slot K lopt h i z" if "z \<in> set (tbl ! i)" for z
    proof -
      have "in_slot K lopt (reqs s) i z" using that tr i by (simp add: table_rel_def)
      moreover have "req_slot K lopt r' = req_slot K lopt r" using r' by (simp add: req_slot_def)
      ultimately show ?thesis using r by (auto simp: in_slot_def h_def)
    qed
    show "qlen_young lopt' = qlen_young lopt - int (young (reqs s) (tbl ! i)) + int (young h (tbl ! i))"
      using y by (simp add: lopt')
  qed (use dx in \<open>auto simp: lopt' h_def\<close>)
  then have "table_rel K lopt' h tbl" by simp
  moreover have "chain h p aq = chain (reqs s) p aq" for p
    using dl by (intro chain_cong) simp
  ultimately show ?thesis
    using aq d by (auto simp: rq_rel_def acceptq_rel_def h_def [symmetric])
qed

lemma prune_chain_step:
  assumes "read_link s L = Some x" "x \<noteq> NULL" "reqs s x = Some r" "listen_opt s = Some lopt"
  shows "prune_chain K P L s =
     (case prune_req K P x r of
        None \<Rightarrow> do { s1 \<leftarrow> reqsk_queue_unlink x L s; (_, s2) \<leftarrow> reqsk_queue_removed x s1;
                    s3 \<leftarrow> reqsk_free x s2; prune_chain K P L s3 }
      | Some r' \<Rightarrow> prune_chain K P (Next x)
          (if time_after_eq K (pp_now P) (req_expires r)
           then s\<lparr>listen_opt := Some (if req_retrans r = 0 then lopt\<lparr>qlen_young := qlen_young lopt - 1\<rparr> else lopt),
                  reqs := (reqs s)(x \<mapsto> r')\<rparr>
           else s))"
proof (cases "time_after_eq K (pp_now P) (req_expires r)")
  case False
  with assms show ?thesis by (subst prune_chain.simps) (simp add: prune_req_def)
next
  case True
  obtain e f where ef: "syn_ack_recalc r (pp_thresh P) (pp_max_retries P) (pp_defer P) = (e, f)"
    by fastforce
  show ?thesis
  proof (cases "\<not> e \<and> (\<not> f \<or> pp_rtx_syn_ack P x (req_retrans r) = 0 \<or> acked r)")
    case keep: True
    with True ef assms show ?thesis
      by (subst prune_chain.simps) (simp add: prune_req_def upd_req_def Let_def)
  next
    case drop: False
    then have "prune_req K P x r = None" using True ef by (simp add: prune_req_def)
    with drop True ef assms show ?thesis
      by (subst prune_chain.simps) (auto simp: Let_def)
  qed
qed

lemma prune_chain_spec:
  assumes "rq_rel K s aq tbl" "i < length tbl" "tbl ! i = done @ todo"
    and P: "pp_thresh P \<le> 255" "pp_max_retries P \<le> 255"
  shows "\<exists>s'. prune_chain K P (link_after i done) s = Some s' \<and> same_config s s' \<and>
           rq_rel K s' aq (tbl[i := done @ filter (\<lambda>x. pruned K P s x \<noteq> None) todo]) \<and>
           (\<forall>x. content s' x = (if x \<in> set todo then pruned K P s x else content s x))"
  using assms(1-3)
proof (induction todo arbitrary: s tbl "done")
  case Nil
  from rq_rel_read_link [OF Nil] Nil have "prune_chain K P (link_after i done) s = Some s"
    by (subst prune_chain.simps) simp
  moreover have "same_config s s"
    using Nil(1) by (auto simp: same_config_def rq_rel_def)
  ultimately show ?case using Nil by (auto simp: list_update_same_conv)
next
  case (Cons x todo)
  note rel = Cons.prems(1) and i = Cons.prems(2) and split = Cons.prems(3)
  from rq_rel_chain [OF rel i] split obtain lopt where lopt: "listen_opt s = Some lopt"
    and c: "chain (reqs s) (syn_table lopt ! i) (done @ x # todo)" by metis
  from chain_at [OF c] obtain r where r: "reqs s x = Some r" "x \<noteq> NULL" by blast
  have rd: "read_link s (link_after i done) = Some x"
    using rq_rel_read_link [OF rel i split] by simp
  have la: "link_after i (done @ [x]) = Next x" by (simp add: link_after_def)
  have dx: "x \<notin> set todo" "x \<notin> set done"
    using mset_slot(4) [OF i] rel split by (auto simp: rq_rel_def)
  have pr: "pruned K P s x = map_option (\<lambda>r. r\<lparr>dl_next := NULL\<rparr>) (prune_req K P x r)"
    using r by (simp add: pruned_def content_def prune_req_link)
  show ?case
  proof (cases "prune_req K P x r")
    case None
    from unlink_removed_spec [OF rel i split] obtain s1 s2 where
      u: "reqsk_queue_unlink x (link_after i done) s = Some s1"
      "reqsk_queue_removed x s1 = Some (int (length (concat tbl)) - 1, s2)"
      and rel2: "rq_rel K s2 aq (tbl[i := done @ todo])" and x2: "reqs s2 x \<noteq> None"
      and ct: "content s2 = content s" and xn: "x \<notin> set (aq @ concat (tbl[i := done @ todo]))"
      and s2: "same_config s s2" by blast
    define s3 where "s3 = s2\<lparr>reqs := (reqs s2)(x := None)\<rparr>"
    note f = rq_rel_free [OF rel2 xn x2, folded s3_def]
    have step: "prune_chain K P (link_after i done) s = prune_chain K P (link_after i done) s3"
      using prune_chain_step [OF rd r(2) r(1) lopt] None u f(1) by simp
    have cfg: "same_config s s3" unfolding s3_def by (rule same_config_reqs [OF s2])
    from Cons.IH [OF f(2)] i have "\<exists>s'. prune_chain K P (link_after i done) s3 = Some s' \<and> same_config s3 s' \<and>
        rq_rel K s' aq (tbl[i := done @ filter (\<lambda>x. pruned K P s3 x \<noteq> None) todo]) \<and>
        (\<forall>y. content s' y = (if y \<in> set todo then pruned K P s3 y else content s3 y))" by simp
    moreover have "content s3 y = (if y = x then None else content s y)" for y
      using ct by (simp add: s3_def content_def fun_eq_iff)
    moreover from this dx have "pruned K P s3 y = pruned K P s y" if "y \<in> set todo" for y
      using that by (auto simp: pruned_def)
    then have "filter (\<lambda>x. pruned K P s3 x \<noteq> None) todo = filter (\<lambda>x. pruned K P s x \<noteq> None) todo"
      by (metis (no_types, lifting) filter_cong)
    ultimately show ?thesis
      using step cfg pr None dx \<open>\<And>y. y \<in> set todo \<Longrightarrow> pruned K P s3 y = pruned K P s y\<close>
      by (auto intro: same_config_trans)
  next
    case (Some r')
    define expd where "expd = time_after_eq K (pp_now P) (req_expires r)"
    define lopt1 where "lopt1 = (if req_retrans r = 0 then lopt\<lparr>qlen_young := qlen_young lopt - 1\<rparr> else lopt)"
    define s1 where "s1 = (if expd then s\<lparr>listen_opt := Some lopt1, reqs := (reqs s)(x \<mapsto> r')\<rparr> else s)"
    note fr = prune_req_frame [OF Some]
    have step: "prune_chain K P (link_after i done) s = prune_chain K P (Next x) s1"
      using prune_chain_step [OF rd r(2) r(1) lopt] Some by (simp add: s1_def expd_def lopt1_def)
    have rel1: "rq_rel K s1 aq tbl"
    proof (cases expd)
      case True
      then have "req_retrans r' \<noteq> 0"
        using keep_no_wrap [OF Some P] Some
        by (auto simp: expd_def prune_req_def split: if_splits prod.splits)
      with True show ?thesis
        unfolding s1_def using rq_rel_touch [OF rel i _ lopt r(1), of r' lopt1] split fr
        by (simp add: lopt1_def)
    qed (simp add: s1_def rel)
    have "r' = r" if "\<not> expd" using that Some by (simp add: prune_req_def expd_def)
    then have ct: "content s1 y = (if y = x then Some (r'\<lparr>dl_next := NULL\<rparr>) else content s y)" for y
      using r by (auto simp: s1_def content_def)
    have cfg: "same_config s s1" by (simp add: same_config_def s1_def lopt lopt1_def)
    have pt: "pruned K P s1 y = pruned K P s y" if "y \<in> set todo" for y
      using that dx ct by (auto simp: pruned_def)
    then have fl: "filter (\<lambda>x. pruned K P s1 x \<noteq> None) todo = filter (\<lambda>x. pruned K P s x \<noteq> None) todo"
      by (metis (no_types, lifting) filter_cong)
    from Cons.IH [OF rel1 i, of "done @ [x]"] split la fl obtain s' where
      "prune_chain K P (Next x) s1 = Some s'" "same_config s1 s'"
      "rq_rel K s' aq (tbl[i := done @ x # filter (\<lambda>x. pruned K P s x \<noteq> None) todo])"
      "\<forall>y. content s' y = (if y \<in> set todo then pruned K P s1 y else content s1 y)" by auto
    with step cfg pr Some dx pt ct show ?thesis by (auto intro: same_config_trans)
  qed
qed

text \<open>A walk over several slots: the queues stay well formed, only expired requests change.\<close>

lemma prune_slots_spec:
  assumes "rq_rel K s aq tbl" "listen_opt s = Some lopt" "nr_table_entries lopt = nr" "i < nr"
    and P: "pp_thresh P \<le> 255" "pp_max_retries P \<le> 255"
  shows "\<exists>i' s' tbl'. prune_slots K P n nr i s = Some (i', s') \<and> i' < nr \<and> same_config s s' \<and>
           rq_rel K s' aq tbl' \<and> set (concat tbl') \<subseteq> set (concat tbl) \<and>
           (\<forall>x. content s' x = content s x \<or>
              x \<in> set (concat tbl) \<and> (\<exists>r. reqs s x = Some r \<and> time_after_eq K (pp_now P) (req_expires r)))"
  using assms(1-4)
proof (induction n arbitrary: i s tbl lopt)
  case 0
  then show ?case by (auto simp: same_config_def)
next
  case (Suc n)
  note rel = Suc.prems(1) and lopt = Suc.prems(2) and nr = Suc.prems(3)
  from rq_relE [OF rel] lopt have tr: "table_rel K lopt (reqs s) tbl" by auto
  have i: "unat i < length tbl"
    using Suc.prems(4) tr nr by (simp add: table_rel_def word_less_nat_alt)
  from prune_chain_spec [OF rel i, of "[]" "tbl ! unat i", simplified, OF P] obtain s1 where
    s1: "prune_chain K P (Slot (unat i)) s = Some s1" "same_config s s1"
    and rel1: "rq_rel K s1 aq (tbl[unat i := filter (\<lambda>x. pruned K P s x \<noteq> None) (tbl ! unat i)])"
    and ct: "\<forall>x. content s1 x = (if x \<in> set (tbl ! unat i) then pruned K P s x else content s x)"
    by (auto simp: link_after_def)
  from s1(2) lopt obtain l1 where l1: "listen_opt s1 = Some l1" "nr_table_entries l1 = nr"
    using nr by (auto simp: same_config_def split: option.splits)
  have "unat ((i + 1) AND (nr - 1)) < unat nr"
    using Suc.prems(4) by (intro unat_and_mask_less) (simp add: word_less_nat_alt)
  then have i1: "(i + 1) AND (nr - 1) < nr" by (simp add: word_less_nat_alt)
  from Suc.IH [OF rel1 l1(1,2) i1] obtain i' s' tbl' where
    r: "prune_slots K P n nr ((i + 1) AND (nr - 1)) s1 = Some (i', s')" "i' < nr" "same_config s1 s'"
      "rq_rel K s' aq tbl'"
    and sub: "set (concat tbl') \<subseteq> set (concat (tbl[unat i := filter (\<lambda>x. pruned K P s x \<noteq> None) (tbl ! unat i)]))"
    and ct': "\<forall>x. content s' x = content s1 x \<or>
        x \<in> set (concat (tbl[unat i := filter (\<lambda>x. pruned K P s x \<noteq> None) (tbl ! unat i)])) \<and>
        (\<exists>r. reqs s1 x = Some r \<and> time_after_eq K (pp_now P) (req_expires r))" by blast
  have sub1: "set (concat (tbl[unat i := filter (\<lambda>x. pruned K P s x \<noteq> None) (tbl ! unat i)])) \<subseteq> set (concat tbl)"
    using mset_slot(3) [OF i] mset_slot(3) [of "unat i" "tbl[unat i := filter (\<lambda>x. pruned K P s x \<noteq> None) (tbl ! unat i)]"] i
    by auto
  have ch: "content s1 x = content s x \<or>
      x \<in> set (concat tbl) \<and> (\<exists>r. reqs s x = Some r \<and> time_after_eq K (pp_now P) (req_expires r))" for x
  proof (cases "x \<in> set (tbl ! unat i)")
    case True
    then have "x \<in> set (concat tbl)" using mset_slot(3) [OF i] by auto
    moreover from tr i True obtain r where "reqs s x = Some r"
      by (metis chain_mem table_rel_def)
    ultimately show ?thesis
      using ct True by (auto simp: pruned_def content_def prune_req_def)
  qed (use ct in simp)
  have ex: "\<exists>r'. reqs s x = Some r' \<and> req_expires r' = req_expires r"
    if "reqs s1 x = Some r" "content s1 x = content s x" for x r
  proof -
    from that obtain r' where r': "reqs s x = Some r'" "r\<lparr>dl_next := NULL\<rparr> = r'\<lparr>dl_next := NULL\<rparr>"
      by (auto simp: content_def map_option_case split: option.splits)
    have "req_expires (r\<lparr>dl_next := NULL\<rparr>) = req_expires (r'\<lparr>dl_next := NULL\<rparr>)" by (simp only: r'(2))
    with r'(1) show ?thesis by simp
  qed
  have "content s' x = content s x \<or>
      x \<in> set (concat tbl) \<and> (\<exists>r. reqs s x = Some r \<and> time_after_eq K (pp_now P) (req_expires r))" for x
  proof (cases "content s1 x = content s x")
    case True
    from ct' [rule_format, of x] show ?thesis
    proof
      assume "content s' x = content s1 x"
      with True show ?thesis by simp
    next
      assume a: "x \<in> set (concat (tbl[unat i := filter (\<lambda>x. pruned K P s x \<noteq> None) (tbl ! unat i)])) \<and>
          (\<exists>r. reqs s1 x = Some r \<and> time_after_eq K (pp_now P) (req_expires r))"
      from a [THEN conjunct2] obtain r where r1: "reqs s1 x = Some r"
        and t: "time_after_eq K (pp_now P) (req_expires r)" by (elim exE conjE)
      from ex [OF r1 True] obtain r' where r': "reqs s x = Some r'" "req_expires r' = req_expires r"
        by (elim exE conjE)
      have "x \<in> set (concat tbl)" by (rule subsetD [OF sub1 a [THEN conjunct1]])
      with r' t show ?thesis by simp
    qed
  next
    case False
    with ch [of x] show ?thesis by blast
  qed
  then have res: "\<forall>x. content s' x = content s x \<or>
      x \<in> set (concat tbl) \<and> (\<exists>r. reqs s x = Some r \<and> time_after_eq K (pp_now P) (req_expires r))"
    by blast
  have run: "prune_slots K P (Suc n) nr i s = Some (i', s')" using s1 r by simp
  have cfg: "same_config s s'" using s1(2) r(3) by (rule same_config_trans)
  have sub': "set (concat tbl') \<subseteq> set (concat tbl)" using sub sub1 by (rule subset_trans)
  show ?case
    by (rule exI [of _ i'], rule exI [of _ s'], rule exI [of _ tbl'])
      (intro conjI run r(2) cfg r(4) sub' res)
qed

lemma thresh_loop_le: "thresh_loop ql y t \<le> t"
proof (induction ql y t rule: thresh_loop.induct)
  case (1 ql y t)
  then show ?case by (subst thresh_loop.simps) auto
qed

lemma prune_params_bounds:
  assumes "sysctl_tcp_synack_retries K \<le> 255"
  shows "pp_thresh (prune_params K rtx timeout max_rto s lopt) \<le> 255"
    "pp_max_retries (prune_params K rtx timeout max_rto s lopt) \<le> 255"
proof -
  have u: "uint (w :: 8 word) \<le> 255" for w using uint_lt2p [of w] by simp
  show "pp_thresh (prune_params K rtx timeout max_rto s lopt) \<le> 255"
    using u assms by (auto simp: prune_params_def Let_def intro: order_trans [OF thresh_loop_le])
  show "pp_max_retries (prune_params K rtx timeout max_rto s lopt) \<le> 255"
    using u assms by (auto simp: prune_params_def Let_def)
qed

lemma queue_prune_spec:
  assumes rel: "rq_rel K s aq tbl" and iv: "interval \<noteq> 0" "interval \<le> timeout"
    and sys: "sysctl_tcp_synack_retries K \<le> 255"
  shows "\<exists>s' tbl'. inet_csk_reqsk_queue_prune K rtx interval timeout max_rto s = Some s' \<and>
           rq_rel K s' aq tbl' \<and> set (concat tbl') \<subseteq> set (concat tbl) \<and>
           (\<forall>x. content s' x = content s x \<or>
              x \<in> set (concat tbl) \<and> (\<exists>r. reqs s x = Some r \<and> time_after_eq K (jiffies K) (req_expires r))) \<and>
           (concat tbl' \<noteq> [] \<longrightarrow> sk_timer s' = Some (jiffies K + interval))"
proof -
  from rq_relE [OF rel] obtain lopt where lopt: "listen_opt s = Some lopt"
    and tr: "table_rel K lopt (reqs s) tbl" by metis
  show ?thesis
  proof (cases "qlen lopt = 0")
    case True
    then have "concat tbl = []" using tr by (simp add: table_rel_def)
    with True lopt rel show ?thesis by (auto simp: inet_csk_reqsk_queue_prune_def)
  next
    case False
    define P where "P = prune_params K rtx timeout max_rto s lopt"
    have P: "pp_thresh P \<le> 255" "pp_max_retries P \<le> 255" "pp_now P = jiffies K"
      unfolding P_def using prune_params_bounds [OF sys] by (auto simp: prune_params_def Let_def)
    have nz: "timeout div interval \<noteq> 0"
    proof -
      have "0 < unat timeout div unat interval"
        using iv by (simp add: div_greater_zero_iff word_le_nat_alt unat_gt_0)
      then show ?thesis by (metis unat_div unat_0 less_irrefl)
    qed
    have ch: "clock_hand lopt < nr_table_entries lopt" using tr by (simp add: table_rel_def)
    from prune_slots_spec [OF rel lopt refl ch P(1,2), of "nat (max 1 (prune_budget (nr_table_entries lopt) timeout interval))"]
    obtain i' s1 tbl' where
      r: "prune_slots K P (nat (max 1 (prune_budget (nr_table_entries lopt) timeout interval)))
            (nr_table_entries lopt) (clock_hand lopt) s = Some (i', s1)"
      and i': "i' < nr_table_entries lopt" and cfg: "same_config s s1" and rel1: "rq_rel K s1 aq tbl'"
      and sub: "set (concat tbl') \<subseteq> set (concat tbl)"
      and ct: "\<forall>x. content s1 x = content s x \<or> x \<in> set (concat tbl) \<and>
           (\<exists>r. reqs s x = Some r \<and> time_after_eq K (jiffies K) (req_expires r))"
      using P(3) by auto
    from rq_relE [OF rel1] obtain l1 where l1: "listen_opt s1 = Some l1"
      and tr1: "table_rel K l1 (reqs s1) tbl'" by metis
    have nr1: "nr_table_entries l1 = nr_table_entries lopt"
      using cfg lopt l1 by (simp add: same_config_def)
    define s2 where "s2 = s1\<lparr>listen_opt := Some (l1\<lparr>clock_hand := i'\<rparr>)\<rparr>"
    define s' where "s' = (if qlen l1 \<noteq> 0 then inet_csk_reset_keepalive_timer K interval s2 else s2)"
    have "inet_csk_reqsk_queue_prune K rtx interval timeout max_rto s = Some s'"
      using lopt False iv nz r l1
      by (simp add: inet_csk_reqsk_queue_prune_def P_def [symmetric] Let_def s'_def s2_def)
    moreover have "table_rel K (l1\<lparr>clock_hand := i'\<rparr>) (reqs s1) tbl'"
      using tr1 i' nr1 by (simp add: table_rel_def in_slot_lopt [of "l1\<lparr>clock_hand := i'\<rparr>" l1])
    then have "rq_rel K s' aq tbl'"
      using rel1 by (auto simp: rq_rel_def s'_def s2_def acceptq_rel_def inet_csk_reset_keepalive_timer_def)
    moreover have "content s' x = content s1 x" for x
      by (simp add: s'_def s2_def content_def inet_csk_reset_keepalive_timer_def)
    moreover have "sk_timer s' = Some (jiffies K + interval)" if "concat tbl' \<noteq> []"
      using that tr1 by (simp add: s'_def inet_csk_reset_keepalive_timer_def table_rel_def)
    ultimately show ?thesis using sub ct by auto
  qed
qed

section \<open>Allocation and destruction\<close>

lemma max_qlen_log_loop_pow: "l \<le> k \<Longrightarrow> k \<le> 32 \<Longrightarrow> max_qlen_log_loop (2 ^ k) l = k"
proof (induction "k - l" arbitrary: l)
  case 0
  then show ?case by (subst max_qlen_log_loop.simps) simp
next
  case (Suc d)
  then have "l < k" "max_qlen_log_loop (2 ^ k) (Suc l) = k" by auto
  with Suc.prems show ?case by (subst max_qlen_log_loop.simps) simp
qed

text \<open>The size of the table: a power of two above the clamped backlog, and at least 16.\<close>

lemma alloc_size:
  fixes n :: u32
  assumes law: "roundup_law K" and sys: "unat (sysctl_max_syn_backlog K) < 2 ^ 31"
  defines "m \<equiv> max (min n (sysctl_max_syn_backlog K)) 8"
  shows "\<exists>k. unat (roundup_pow_of_two K (m + 1)) = 2 ^ k \<and> 4 \<le> k \<and> k \<le> 31 \<and>
           unat m < 2 ^ k \<and> 2 ^ k \<le> 2 * unat m"
proof -
  have m: "unat m < 2 ^ 31" "8 \<le> unat m"
    using sys by (auto simp: m_def max_def min_def word_le_nat_alt split: if_splits)
  then have m1: "unat (m + 1) = unat m + 1" by (simp add: unat_word_ariths)
  with m law [unfolded roundup_law_def, rule_format, of "m + 1"] obtain k where
    k: "unat (roundup_pow_of_two K (m + 1)) = 2 ^ k" "unat m + 1 \<le> 2 ^ k" "2 ^ k < 2 * (unat m + 1)"
    by auto
  have "(2::nat) ^ 3 < 2 ^ k" using k(2) m(2) by simp
  then have k4: "4 \<le> k" using power_strict_increasing_iff [of "2::nat" 3 k] by simp
  have "(2::nat) ^ k < 2 ^ 32" using k(3) m(1) by simp
  then have "k < 32" by (rule power_less_imp_less_exp [rotated]) simp
  then have k31: "k \<le> 31" by simp
  have "even ((2::nat) ^ k)" using k4 by simp
  then have "2 ^ k \<le> 2 * unat m" using k(3) by presburger
  with k k4 k31 show ?thesis by auto
qed

lemma alloc_spec:
  assumes law: "roundup_law K" and sys: "unat (sysctl_max_syn_backlog K) < 2 ^ 31"
    and ok: "reqsk_queue_alloc K n s = (0, s')"
  shows "\<exists>lopt k. listen_opt s' = Some lopt \<and> unat (nr_table_entries lopt) = 2 ^ k \<and>
           4 \<le> k \<and> unat (max_qlen_log lopt) = k \<and> length (syn_table lopt) = 2 ^ k \<and>
           unat (max (min n (sysctl_max_syn_backlog K)) 8) < 2 ^ k \<and>
           rq_rel K (s'\<lparr>sk_ack_backlog := 0\<rparr>) [] (replicate (2 ^ k) [])"
proof -
  define m where "m = max (min n (sysctl_max_syn_backlog K)) 8"
  define nr where "nr = roundup_pow_of_two K (m + 1)"
  from alloc_size [OF law sys, of n, folded m_def] obtain k where
    k: "unat nr = 2 ^ k" "4 \<le> k" "k \<le> 31" "unat m < 2 ^ k" by (auto simp: nr_def)
  have loop: "max_qlen_log_loop (2 ^ k) 3 = k" using k by (intro max_qlen_log_loop_pow) auto
  have lg: "unat (of_nat k :: 8 word) = k" using k by (simp add: unat_of_nat)
  from ok have s': "s' = s\<lparr>rskq_accept_head := NULL,
      listen_opt := Some \<lparr>max_qlen_log = of_nat k, synflood_warned = 0, qlen = 0, qlen_young = 0,
        clock_hand = 0, hash_rnd = random_u32 K, nr_table_entries = nr, syn_table = replicate (2 ^ k) NULL\<rparr>\<rparr>"
    by (auto simp: reqsk_queue_alloc_def Let_def ENOMEM_def m_def [symmetric] nr_def [symmetric] k(1) loop
        split: if_splits)
  have "concat (replicate j []) = ([] :: ptr list)" for j by (induction j) auto
  moreover have "0 < nr" using k(1) by (simp add: word_less_nat_alt)
  ultimately have "rq_rel K (s'\<lparr>sk_ack_backlog := 0\<rparr>) [] (replicate (2 ^ k) [])"
    using k lg by (simp add: s' rq_rel_def table_rel_def acceptq_rel_def)
  with k lg show ?thesis by (simp add: s' m_def [symmetric])
qed

lemma s1_restrict:
  "s1 = f (s\<lparr>reqs := (reqs s)(x := None)\<rparr>) \<Longrightarrow> (\<And>s. reqs (f s) = reqs s) \<Longrightarrow>
   reqs s1 |` (- set xs) = reqs s |` (- set (x # xs))"
  by (rule ext) (simp add: restrict_map_def)

lemma destroy_chain_spec:
  "chain (reqs s) p xs \<Longrightarrow> distinct xs \<Longrightarrow>
   destroy_chain p n s = Some (n - int (length xs), s\<lparr>reqs := reqs s |` (- set xs)\<rparr>)"
proof (induction xs arbitrary: p n s)
  case Nil
  then show ?case by (subst destroy_chain.simps) simp
next
  case (Cons x xs)
  then obtain r where r: "p = x" "x \<noteq> NULL" "reqs s x = Some r" "chain (reqs s) (dl_next r) xs"
    by auto
  define s1 where "s1 = s\<lparr>reqs := (reqs s)(x := None)\<rparr>"
  have "destroy_chain p n s = destroy_chain (dl_next r) (n - 1) s1"
    using r by (subst destroy_chain.simps) (simp add: reqsk_free_def s1_def)
  also have "\<dots> = Some (n - 1 - int (length xs), s1\<lparr>reqs := reqs s1 |` (- set xs)\<rparr>)"
    using r Cons.prems by (intro Cons.IH) (auto simp: s1_def simp del: fun_upd_apply)
  also have "s1\<lparr>reqs := reqs s1 |` (- set xs)\<rparr> = s\<lparr>reqs := reqs s |` (- set (x # xs))\<rparr>"
    using s1_restrict [of s1 "\<lambda>s. s" s x xs] by (simp add: s1_def)
  finally show ?case by simp
qed

lemma destroy_slots_spec:
  "list_all2 (chain (reqs s)) ps tbl \<Longrightarrow> distinct (concat tbl) \<Longrightarrow>
   destroy_slots ps n s =
     Some (n - int (length (concat tbl)), s\<lparr>reqs := reqs s |` (- set (concat tbl))\<rparr>)"
proof (induction ps arbitrary: tbl n s)
  case Nil
  then show ?case by simp
next
  case (Cons p ps tbl0)
  then obtain xs tbl where tbl0: "tbl0 = xs # tbl" and ch: "chain (reqs s) p xs"
    "list_all2 (chain (reqs s)) ps tbl" by (auto simp: list_all2_Cons1)
  define s1 where "s1 = s\<lparr>reqs := reqs s |` (- set xs)\<rparr>"
  have "destroy_chain p n s = Some (n - int (length xs), s1)"
    unfolding s1_def using Cons.prems tbl0 ch(1) by (intro destroy_chain_spec) auto
  moreover have "list_all2 (chain (reqs s1)) ps tbl"
  proof (rule list.rel_mono_strong [OF ch(2)])
    fix q ys assume "q \<in> set ps" "ys \<in> set tbl" "chain (reqs s) q ys"
    moreover from this have "set ys \<inter> set xs = {}" using Cons.prems tbl0 by auto
    then have "chain (reqs s1) q ys = chain (reqs s) q ys"
      by (intro chain_cong) (auto simp: s1_def restrict_map_def)
    ultimately show "chain (reqs s1) q ys" by simp
  qed
  moreover have "reqs s |` (- set xs) |` (- set (concat tbl)) = reqs s |` (- set (concat (xs # tbl)))"
    by (rule ext) (auto simp: restrict_map_def)
  ultimately show ?case using Cons.IH [of s1 tbl "n - int (length xs)"] Cons.prems tbl0
    by (simp add: s1_def del: restrict_restrict)
qed

lemma queue_destroy_spec:
  assumes lopt: "listen_opt s = Some lopt" and tr: "table_rel K lopt (reqs s) tbl"
    and d: "distinct (concat tbl)"
  shows "reqsk_queue_destroy s =
     Some (0, s\<lparr>listen_opt := None, reqs := reqs s |` (- set (concat tbl))\<rparr>)"
proof -
  have ql: "qlen lopt = int (length (concat tbl))" using tr by (simp add: table_rel_def)
  have "list_all2 (chain (reqs (s\<lparr>listen_opt := None\<rparr>))) (syn_table lopt) tbl"
    using tr by (simp add: list_all2_conv_all_nth table_rel_def)
  from destroy_slots_spec [OF this d, of "qlen lopt"]
  have "destroy_slots (syn_table lopt) (qlen lopt) (s\<lparr>listen_opt := None\<rparr>) =
      Some (0, s\<lparr>listen_opt := None, reqs := reqs s |` (- set (concat tbl))\<rparr>)"
    using ql by simp
  moreover have "s\<lparr>listen_opt := None, reqs := reqs s |` (- set (concat tbl))\<rparr> = s\<lparr>listen_opt := None\<rparr>"
    if "qlen lopt = 0"
  proof -
    have "set (concat tbl) = {}" using that ql by (metis length_0_conv of_nat_eq_0_iff list.set(1))
    then show ?thesis by (simp only: Compl_empty_eq restrict_map_UNIV) simp
  qed
  ultimately show ?thesis
    using lopt by (simp add: reqsk_queue_destroy_def reqsk_queue_yank_listen_sk_def)
qed

lemma stop_chain_spec:
  "chain (reqs s) p xs \<Longrightarrow> distinct xs \<Longrightarrow>
   stop_chain p cl s =
     Some (cl @ map (\<lambda>x. req_sk (the (reqs s x))) xs,
           s\<lparr>sk_ack_backlog := sk_ack_backlog s - of_nat (length xs), reqs := reqs s |` (- set xs)\<rparr>)"
proof (induction xs arbitrary: p cl s)
  case Nil
  then show ?case by (subst stop_chain.simps) simp
next
  case (Cons x xs)
  then obtain r where r: "p = x" "x \<noteq> NULL" "reqs s x = Some r" "chain (reqs s) (dl_next r) xs"
    by auto
  define s1 where "s1 = s\<lparr>sk_ack_backlog := sk_ack_backlog s - 1, reqs := (reqs s)(x := None)\<rparr>"
  have "stop_chain p cl s = stop_chain (dl_next r) (cl @ [req_sk r]) s1"
    using r by (subst stop_chain.simps) (simp add: reqsk_free_def sk_acceptq_removed_def s1_def)
  also have "\<dots> = Some ((cl @ [req_sk r]) @ map (\<lambda>x. req_sk (the (reqs s1 x))) xs,
      s1\<lparr>sk_ack_backlog := sk_ack_backlog s1 - of_nat (length xs), reqs := reqs s1 |` (- set xs)\<rparr>)"
    using r Cons.prems by (intro Cons.IH) (auto simp: s1_def simp del: fun_upd_apply)
  also have "map (\<lambda>x. req_sk (the (reqs s1 x))) xs = map (\<lambda>x. req_sk (the (reqs s x))) xs"
    using Cons.prems by (auto simp: s1_def)
  also have "reqs s1 |` (- set xs) = reqs s |` (- set (x # xs))"
    by (rule s1_restrict [of _ "\<lambda>s. s\<lparr>sk_ack_backlog := sk_ack_backlog s - 1\<rparr>"]) (simp_all add: s1_def)
  finally show ?case using r by (simp add: s1_def algebra_simps)
qed

lemma listen_stop_spec:
  assumes rel: "rq_rel K s aq tbl"
  shows "\<exists>s'. inet_csk_listen_stop s = Some (map (\<lambda>x. req_sk (the (reqs s x))) aq, s') \<and>
           reqs s' = reqs s |` (- (set aq \<union> set (concat tbl))) \<and> sk_ack_backlog s' = 0 \<and>
           listen_opt s' = None \<and> sk_timer s' = None \<and> reqsk_queue_empty s'"
proof -
  define s1 where "s1 = s\<lparr>sk_timer := None, rskq_accept_head := NULL\<rparr>"
  define s2 where "s2 = s1\<lparr>listen_opt := None, reqs := reqs s |` (- set (concat tbl))\<rparr>"
  from rq_relE [OF rel] obtain lopt where lopt: "listen_opt s = Some lopt"
    and tr: "table_rel K lopt (reqs s) tbl" and aq: "acceptq_rel s aq"
    and d: "distinct aq" "distinct (concat tbl)" "set aq \<inter> set (concat tbl) = {}" .
  have destroy: "reqsk_queue_destroy s1 = Some (0, s2)"
    using queue_destroy_spec [of s1 lopt K tbl] lopt tr d by (simp add: s1_def s2_def)
  have same: "reqs s2 x = reqs s x" if "x \<in> set aq" for x
    using that d by (auto simp: s2_def restrict_map_def)
  then have "chain (reqs s2) (rskq_accept_head s) aq = chain (reqs s) (rskq_accept_head s) aq"
    by (intro chain_cong) simp
  with aq have "chain (reqs s2) (rskq_accept_head s) aq" by (simp add: acceptq_rel_def)
  from stop_chain_spec [OF this d(1), of "[]"]
  have stop: "stop_chain (rskq_accept_head s) [] s2 = Some (map (\<lambda>x. req_sk (the (reqs s x))) aq,
      s2\<lparr>sk_ack_backlog := 0, reqs := reqs s2 |` (- set aq)\<rparr>)"
    using aq same by (simp add: s2_def s1_def acceptq_rel_def cong: map_cong)
  have "reqs s2 |` (- set aq) = reqs s |` (- (set aq \<union> set (concat tbl)))"
    by (rule ext) (auto simp: s2_def restrict_map_def)
  with stop destroy show ?thesis
    by (simp add: inet_csk_listen_stop_def reqsk_queue_yank_acceptq_def
        inet_csk_delete_keepalive_timer_def s1_def [symmetric] reqsk_queue_empty_def)
      (simp add: s2_def s1_def)
qed

end
