(* ===== verification/Accept_Queue.thy ===== *)
theory Accept_Queue
  imports Request_Queue_Correct
begin

text \<open>
  The accept queue as a first-in first-out queue. The locale \<open>fifo\<close> is the contract that
  \<open>accept\<close> relies on: what queueing a pair and taking one off do to the abstract queue.
  Inside it, every interleaving of the two operations is shown to deliver the entries in the
  order they were queued. The interpretation \<open>acceptq\<close> discharges the contract for
  \<open>reqsk_queue_add\<close> and the non-blocking \<open>inet_csk_accept\<close>.
\<close>

section \<open>Interleaved queue operations\<close>

datatype 'e qop = Enq 'e | Deq

fun run_queue ::
    "('e \<Rightarrow> 's \<Rightarrow> 's option) \<Rightarrow> ('s \<Rightarrow> ((int + 'v) \<times> 's) option) \<Rightarrow> 'e qop list \<Rightarrow> 's \<Rightarrow>
     ('v list \<times> 's) option" where
  "run_queue enq deq [] s = Some ([], s)"
| "run_queue enq deq (Enq e # ops) s = do { s1 \<leftarrow> enq e s; run_queue enq deq ops s1 }"
| "run_queue enq deq (Deq # ops) s = do {
     (r, s1) \<leftarrow> deq s;
     (vs, s2) \<leftarrow> run_queue enq deq ops s1;
     Some (case r of Inl _ \<Rightarrow> vs | Inr v \<Rightarrow> v # vs, s2) }"

fun enqs :: "'e qop list \<Rightarrow> 'e list" where
  "enqs [] = []"
| "enqs (Enq e # ops) = e # enqs ops"
| "enqs (Deq # ops) = enqs ops"

fun deqs :: "'e qop list \<Rightarrow> nat" where
  "deqs [] = 0"
| "deqs (Enq e # ops) = deqs ops"
| "deqs (Deq # ops) = Suc (deqs ops)"

section \<open>The contract\<close>

locale fifo =
  fixes view :: "'s \<Rightarrow> 'e list \<Rightarrow> bool"
    and ready :: "'s \<Rightarrow> 'e list \<Rightarrow> 'e \<Rightarrow> bool"
    and key :: "'e \<Rightarrow> 'k"
    and val :: "'e \<Rightarrow> 'v"
    and enq :: "'e \<Rightarrow> 's \<Rightarrow> 's option"
    and deq :: "'s \<Rightarrow> ((int + 'v) \<times> 's) option"
  assumes enq_law: "view s q \<Longrightarrow> ready s q e \<Longrightarrow>
      \<exists>s'. enq e s = Some s' \<and> view s' (q @ [e]) \<and>
           (\<forall>e'. ready s q e' \<longrightarrow> key e' \<noteq> key e \<longrightarrow> ready s' (q @ [e]) e')"
    and deq_law: "view s (e # q) \<Longrightarrow>
      \<exists>s'. deq s = Some (Inr (val e), s') \<and> view s' q \<and>
           (\<forall>e'. ready s (e # q) e' \<longrightarrow> ready s' q e')"
    and deq_empty_law: "view s [] \<Longrightarrow> \<exists>err. deq s = Some (Inl err, s)"
begin

lemma run_order:
  assumes "view s q" "\<forall>e \<in> set (enqs ops). ready s q e" "distinct (map key (enqs ops))"
  shows "\<exists>vs s' q'. run_queue enq deq ops s = Some (vs, s') \<and> view s' q' \<and>
           vs @ map val q' = map val (q @ enqs ops)"
  using assms
proof (induction ops arbitrary: s q)
  case (Cons op ops)
  show ?case
  proof (cases op)
    case (Enq e)
    with Cons.prems enq_law [of s q e] obtain s1
      where s1: "enq e s = Some s1" "view s1 (q @ [e])"
        and r: "\<forall>e'. ready s q e' \<longrightarrow> key e' \<noteq> key e \<longrightarrow> ready s1 (q @ [e]) e'" by auto
    have "\<forall>e' \<in> set (enqs ops). ready s1 (q @ [e]) e'"
      by (intro ballI r [rule_format]) (use Cons.prems(2,3) Enq in \<open>auto simp: image_iff\<close>)
    with Cons.IH [OF s1(2)] Cons.prems(3) Enq s1(1) show ?thesis by auto
  next
    case Deq
    show ?thesis
    proof (cases q)
      case Nil
      with Cons.prems(1) deq_empty_law [of s] obtain err where "deq s = Some (Inl err, s)" by auto
      with Cons.IH [OF Cons.prems(1)] Cons.prems(2,3) Deq show ?thesis by auto
    next
      case (Cons e q1)
      with Cons.prems(1) deq_law [of s e q1] obtain s1
        where s1: "deq s = Some (Inr (val e), s1)" "view s1 q1"
          and r: "\<forall>e'. ready s (e # q1) e' \<longrightarrow> ready s1 q1 e'" by auto
      have "\<forall>e' \<in> set (enqs ops). ready s1 q1 e'"
        using r Cons.prems(2) Deq Cons by auto
      with Cons.IH [OF s1(2)] Cons.prems(3) Deq s1(1) Cons show ?thesis by auto
    qed
  qed
qed auto

text \<open>Filling the queue and then draining it returns exactly the entries, in order.\<close>

lemma fill_drain:
  assumes "view s []" "\<forall>e \<in> set es. ready s [] e" "distinct (map key es)"
  shows "\<exists>s'. run_queue enq deq (map Enq es @ replicate (length es) Deq) s = Some (map val es, s') \<and>
           view s' []"
proof -
  have drain: "\<exists>s'. run_queue enq deq (replicate (length q) Deq) s = Some (map val q, s') \<and> view s' []"
    if "view s q" for q s
    using that
  proof (induction q arbitrary: s)
    case (Cons e q)
    then show ?case using deq_law [of s e q] by fastforce
  qed simp
  have "\<exists>s'. run_queue enq deq (map Enq es @ replicate (length q + length es) Deq) s =
           Some (map val (q @ es), s') \<and> view s' []"
    if "view s q" "\<forall>e \<in> set es. ready s q e" "distinct (map key es)" for q s
    using that
  proof (induction es arbitrary: s q)
    case Nil
    with drain show ?case by simp
  next
    case (Cons e es)
    with enq_law [of s q e] obtain s1
      where s1: "enq e s = Some s1" "view s1 (q @ [e])"
        and r: "\<forall>e'. ready s q e' \<longrightarrow> key e' \<noteq> key e \<longrightarrow> ready s1 (q @ [e]) e'" by auto
    have "\<forall>e' \<in> set es. ready s1 (q @ [e]) e'"
      by (intro ballI r [rule_format]) (use Cons.prems(2,3) in \<open>auto simp: image_iff\<close>)
    with Cons.IH [OF s1(2)] Cons.prems(3) s1(1) show ?case by simp
  qed
  from this [OF assms] show ?thesis by simp
qed

end

section \<open>The accept queue meets the contract\<close>

text \<open>An entry is a request together with the child socket that was made for it.\<close>

definition acc_view :: "kenv \<Rightarrow> ptr list list \<Rightarrow> listener \<Rightarrow> (ptr \<times> ptr) list \<Rightarrow> bool" where
  "acc_view K tbl s q \<longleftrightarrow> lsk_state s = TCP_LISTEN \<and> rq_rel K s (map fst q) tbl \<and>
     (\<forall>e \<in> set q. map_option req_sk (content s (fst e)) = Some (snd e))"

text \<open>A request is ready to be queued when it is allocated and in neither structure.\<close>

definition acc_ready :: "ptr list list \<Rightarrow> listener \<Rightarrow> (ptr \<times> ptr) list \<Rightarrow> ptr \<times> ptr \<Rightarrow> bool" where
  "acc_ready tbl s q e \<longleftrightarrow> fst e \<noteq> NULL \<and> reqs s (fst e) \<noteq> None \<and>
     fst e \<notin> set (map fst q @ concat tbl)"

definition acc_enq :: "ptr \<times> ptr \<Rightarrow> listener \<Rightarrow> listener option" where
  "acc_enq e = reqsk_queue_add (fst e) (snd e)"

lemma reqsk_queue_add_state: "reqsk_queue_add x c s = Some s' \<Longrightarrow> lsk_state s' = lsk_state s"
  by (auto simp: reqsk_queue_add_def upd_req_def sk_acceptq_added_def Let_def bind_eq_Some_conv
      split: if_splits)

lemma content_None_iff: "content s x = None \<longleftrightarrow> reqs s x = None"
  by (simp add: content_def)

lemma rq_rel_empty_iff: "rq_rel K s aq tbl \<Longrightarrow> reqsk_queue_empty s \<longleftrightarrow> aq = []"
  by (cases aq) (auto simp: rq_rel_def acceptq_rel_def reqsk_queue_empty_def)

lemma acc_enq_law:
  assumes view: "acc_view K tbl s q" and ready: "acc_ready tbl s q e"
  shows "\<exists>s'. acc_enq e s = Some s' \<and> acc_view K tbl s' (q @ [e]) \<and>
     (\<forall>e'. acc_ready tbl s q e' \<longrightarrow> fst e' \<noteq> fst e \<longrightarrow> acc_ready tbl s' (q @ [e]) e')"
proof -
  from ready obtain r where r: "reqs s (fst e) = Some r" by (auto simp: acc_ready_def)
  with view ready reqsk_queue_add_spec [of K s "map fst q" tbl "fst e" r "snd e"] obtain s'
    where s': "acc_enq e s = Some s'" "rq_rel K s' (map fst q @ [fst e]) tbl"
      "content s' (fst e) = Some (r\<lparr>req_sk := snd e, dl_next := NULL\<rparr>)"
      and other: "\<forall>y. y \<noteq> fst e \<longrightarrow> content s' y = content s y"
    by (auto simp: acc_view_def acc_ready_def acc_enq_def)
  have "lsk_state s' = TCP_LISTEN"
    using view s'(1) reqsk_queue_add_state by (auto simp: acc_view_def acc_enq_def)
  moreover have "\<forall>e' \<in> set q. map_option req_sk (content s' (fst e')) = Some (snd e')"
  proof
    fix e' assume "e' \<in> set q"
    then have "fst e' \<noteq> fst e" "map_option req_sk (content s (fst e')) = Some (snd e')"
      using view ready by (auto simp: acc_view_def acc_ready_def image_iff)
    then show "map_option req_sk (content s' (fst e')) = Some (snd e')" using other by simp
  qed
  ultimately have "acc_view K tbl s' (q @ [e])"
    using s' by (auto simp: acc_view_def)
  moreover have "acc_ready tbl s' (q @ [e]) e'" if "acc_ready tbl s q e'" "fst e' \<noteq> fst e" for e'
  proof -
    have "content s' (fst e') = content s (fst e')" using that(2) other by simp
    then have "reqs s' (fst e') = None \<longleftrightarrow> reqs s (fst e') = None" by (simp flip: content_None_iff)
    with that show ?thesis by (simp add: acc_ready_def)
  qed
  ultimately show ?thesis using s'(1) by blast
qed

lemma accept_nonempty:
  assumes "lsk_state s = TCP_LISTEN" "\<not> reqsk_queue_empty s" "reqsk_queue_get_child s = Some (c, s')"
  shows "inet_csk_accept es nonblock s = Some (Inr c, s')"
  using assms by (simp add: inet_csk_accept_def)

lemma get_child_state: "reqsk_queue_get_child s = Some (c, s') \<Longrightarrow> lsk_state s' = lsk_state s"
  by (auto simp: reqsk_queue_get_child_def reqsk_queue_remove_def reqsk_free_def
      sk_acceptq_removed_def Let_def bind_eq_Some_conv split: if_splits)

lemma acc_deq_law:
  assumes view: "acc_view K tbl s (e # q)"
  shows "\<exists>s'. inet_csk_accept es nonblock s = Some (Inr (snd e), s') \<and> acc_view K tbl s' q \<and>
     (\<forall>e'. acc_ready tbl s (e # q) e' \<longrightarrow> acc_ready tbl s' q e')"
proof -
  from view have rel: "rq_rel K s (fst e # map fst q) tbl" by (simp add: acc_view_def)
  from reqsk_queue_get_child_spec [OF this] obtain r s'
    where r: "reqs s (fst e) = Some r" and s': "reqsk_queue_get_child s = Some (req_sk r, s')"
      "rq_rel K s' (map fst q) tbl" "reqs s' = (reqs s)(fst e := None)" by blast
  have "req_sk r = snd e" using view r by (simp add: acc_view_def content_def)
  moreover have ne: "\<not> reqsk_queue_empty s" using rq_rel_empty_iff [OF rel] by simp
  moreover have d: "fst e \<notin> set (map fst q)" using rel by (simp add: rq_rel_def)
  moreover have "acc_view K tbl s' q"
    unfolding acc_view_def
  proof (intro conjI ballI)
    show "lsk_state s' = TCP_LISTEN" using view get_child_state [OF s'(1)] by (simp add: acc_view_def)
    fix e' assume "e' \<in> set q"
    then have "fst e' \<noteq> fst e" "map_option req_sk (content s (fst e')) = Some (snd e')"
      using view d by (auto simp: acc_view_def image_iff)
    then show "map_option req_sk (content s' (fst e')) = Some (snd e')"
      by (simp add: content_def s'(3))
  qed (rule s'(2))
  moreover have "\<forall>e'. acc_ready tbl s (e # q) e' \<longrightarrow> acc_ready tbl s' q e'"
    using s'(3) by (auto simp: acc_ready_def)
  ultimately show ?thesis
    using s'(1) view accept_nonempty by (auto simp: acc_view_def)
qed

lemma acc_deq_empty_law:
  assumes "acc_view K tbl s []"
  shows "\<exists>err. inet_csk_accept es True s = Some (Inl err, s)"
  using assms rq_rel_empty_iff [of K s "[]" tbl]
  by (auto simp: acc_view_def inet_csk_accept_def sock_rcvtimeo_def EAGAIN_def)

interpretation acceptq: fifo "acc_view K tbl" "acc_ready tbl" fst snd acc_enq "inet_csk_accept [] True"
  for K :: kenv and tbl :: "ptr list list"
  by unfold_locales (rule acc_enq_law acc_deq_law acc_deq_empty_law; assumption)+

end
