(* ===== verification/Example_Env.thy ===== *)
theory Example_Env
  imports Request_Queue "HOL-Library.Log_Nat"
begin

text \<open>
  A concrete environment that satisfies the laws of the parameters, and a small listening
  socket in it. The properties with hypotheses are applied to them.
\<close>

definition ref_roundup :: "u32 \<Rightarrow> u32" where
  "ref_roundup n = (if unat n \<le> 1 then 1 else word_of_nat (2 ^ nat (bitlen (int (unat n) - 1))))"

definition K0 :: kenv where
  "K0 = \<lparr>jiffies = 1000, time_after_eq = (\<lambda>a b. 0 \<le> sint (a - b)),
         roundup_pow_of_two = ref_roundup, jhash_2words = (\<lambda>a b c. a XOR b XOR c),
         random_u32 = 0, page_size = 4096, vzalloc_ok = (\<lambda>n. True), kzalloc_ok = (\<lambda>n. True),
         sysctl_max_syn_backlog = 256, sysctl_tcp_synack_retries = 5\<rparr>"

lemma K0_simps [simp]:
  "jiffies K0 = 1000" "time_after_eq K0 a b = (0 \<le> sint (a - b))"
  "roundup_pow_of_two K0 = ref_roundup" "jhash_2words K0 x y z = x XOR y XOR z"
  "random_u32 K0 = 0" "page_size K0 = 4096" "vzalloc_ok K0 sz" "kzalloc_ok K0 sz"
  "sysctl_max_syn_backlog K0 = 256" "sysctl_tcp_synack_retries K0 = 5"
  by (simp_all add: K0_def)

lemma ref_roundup_law:
  fixes n :: u32
  assumes "0 < unat n" "unat n \<le> 2 ^ 31"
  shows "\<exists>k. unat (ref_roundup n) = 2 ^ k \<and> unat n \<le> 2 ^ k \<and> 2 ^ k < 2 * unat n"
proof (cases "unat n \<le> 1")
  case True
  then show ?thesis using assms by (intro exI [of _ 0]) (simp add: ref_roundup_def)
next
  case False
  define v where "v = unat n"
  define m where "m = int v - 1"
  define k where "k = nat (bitlen m)"
  have m: "0 < m" "m < 2 ^ 31" using False assms by (simp_all add: m_def flip: v_def)
  then have b: "2 ^ (k - 1) \<le> m" "m < 2 ^ k" "0 < k"
    using bitlen_bounds [of m] bitlen_nonneg [of m] bitlen_eq_zero_iff [of m]
    by (auto simp: k_def nat_diff_distrib)
  have "(2 :: int) ^ (k - 1) < 2 ^ 31" using b(1) m(2) by linarith
  then have "k - 1 < 31" by (rule power_less_imp_less_exp [rotated]) simp
  then have "(2 :: nat) ^ k < 2 ^ 32" by (intro power_strict_increasing) simp_all
  then have u: "unat (word_of_nat (2 ^ k) :: u32) = 2 ^ k" by (subst unat_of_nat) simp
  have "(2 :: int) ^ k = 2 * 2 ^ (k - 1)" using b(3) by (simp flip: power_Suc)
  with b have "int v \<le> 2 ^ k" "(2 :: int) ^ k < 2 * int v" by (simp_all add: m_def)
  then have "int v \<le> int (2 ^ k)" "int (2 ^ k) < int (2 * v)" by simp_all
  then have "v \<le> 2 ^ k" "2 ^ k < 2 * v" by (simp_all only: of_nat_le_iff of_nat_less_iff)
  with u show ?thesis
    using False by (intro exI [of _ k]) (simp add: ref_roundup_def k_def m_def v_def)
qed

lemma K0_laws: "roundup_law K0" "time_law K0"
  using ref_roundup_law by (auto simp: roundup_law_def time_law_def)

text \<open>A request from 10.0.0.1, port 1024, and a listening socket without requests.\<close>

definition req0 :: tcp_request_sock where
  "req0 = \<lparr>dl_next = 0, req_mss = 1460, req_retrans = 0, req_cookie_ts = 0, req_window_clamp = 0,
           req_rcv_wnd = 5840, req_ts_recent = 0, req_expires = 0, req_sk = 0, req_secid = 0,
           req_peer_secid = 0, loc_port = 80, loc_addr = 7, rmt_addr = 1, rmt_port = 1024,
           ireq_snd_wscale = 0, ireq_rcv_wscale = 0, ireq_tstamp_ok = False, ireq_sack_ok = False,
           ireq_wscale_ok = False, ireq_ecn_ok = False, acked = False, no_srccheck = False,
           rcv_isn = 100, snt_isn = 500, snt_synack = 0\<rparr>"

definition lsk0 :: listener where
  "lsk0 = \<lparr>reqs = Map.empty, rskq_accept_head = 0, rskq_accept_tail = 0, rskq_defer_accept = 0,
           listen_opt = Some \<lparr>max_qlen_log = 4, synflood_warned = 0, qlen = 0, qlen_young = 0,
             clock_hand = 0, hash_rnd = 0, nr_table_entries = 16, syn_table = replicate 16 0\<rparr>,
           sk_ack_backlog = 0, sk_max_ack_backlog = 5, sk_timer = None, icsk_syn_retries = 0,
           lsk_state = TCP_LISTEN, sk_rcvtimeo = 0\<rparr>"

end
