(* ===== verification/Request_Queue_Props.thy ===== *)
theory Request_Queue_Props
  imports Accept_Queue Example_Env
begin

text \<open>
  The properties of the request queue and the accept queue, over the lemmas of
  \<open>Request_Queue_Correct\<close> and the interpretation \<open>acceptq\<close> of \<open>Accept_Queue\<close>, each with an
  application to the example listener.
\<close>

section \<open>The example listener\<close>

lemma lsk0_rel: "rq_rel K0 lsk0 [] (replicate 16 [])"
  by (auto simp: rq_rel_def table_rel_def acceptq_rel_def lsk0_def young_def concat_replicate_trivial
      )

text \<open>The listener with one or two allocated requests that are not queued yet.\<close>

definition lsk1 :: listener where
  "lsk1 = lsk0\<lparr>reqs := [1 \<mapsto> req0, 2 \<mapsto> req0\<lparr>rmt_port := 1025\<rparr>]\<rparr>"

lemma lsk1_rel: "rq_rel K0 lsk1 [] (replicate 16 [])"
  by (auto simp: rq_rel_def table_rel_def acceptq_rel_def lsk1_def lsk0_def young_def
      concat_replicate_trivial)

lemma lsk1_req: "reqs lsk1 1 = Some req0" "reqs lsk1 2 = Some (req0\<lparr>rmt_port := 1025\<rparr>)"
  by (simp_all add: lsk1_def)

lemma lsk1_listen_opt: "listen_opt lsk1 = listen_opt lsk0" "lsk_state lsk1 = TCP_LISTEN"
  by (simp_all add: lsk1_def lsk0_def)

text \<open>The listener after the first request has been hashed: slot 1 holds it.\<close>

definition lsk2 :: listener where
  "lsk2 = the (inet_csk_reqsk_queue_hash_add K0 1 300 lsk1)"

lemma lsk2:
  "inet_csk_reqsk_queue_hash_add K0 1 300 lsk1 = Some lsk2"
  "rq_rel K0 lsk2 [] ((replicate 16 [])[1 := [1]])"
  "content lsk2 1 = Some (req0\<lparr>req_expires := 1300\<rparr>)"
proof -
  obtain lopt where lopt: "listen_opt lsk1 = Some lopt" "hash_rnd lopt = 0" "nr_table_entries lopt = 16"
    by (simp add: lsk1_def lsk0_def)
  have "req_slot K0 lopt req0 = 1"
    by (simp add: req_slot_def inet_synq_hash_def lopt req0_def)
  with reqsk_queue_hash_add_spec [OF lsk1_rel _ _ lsk1_req(1) lopt(1), of 300] obtain s'
    where "inet_csk_reqsk_queue_hash_add K0 1 300 lsk1 = Some s'"
      "rq_rel K0 s' [] ((replicate 16 [])[1 := [1]])"
      "content s' 1 = Some (req0\<lparr>req_expires := 1300, req_retrans := 0, req_sk := 0, dl_next := 0\<rparr>)"
    by auto
  then show "inet_csk_reqsk_queue_hash_add K0 1 300 lsk1 = Some lsk2"
    "rq_rel K0 lsk2 [] ((replicate 16 [])[1 := [1]])"
    "content lsk2 1 = Some (req0\<lparr>req_expires := 1300\<rparr>)"
    by (simp_all add: lsk2_def) (simp add: req0_def)
qed

section \<open>Lookup, insertion and removal\<close>

lemma rq_rel_listen_opt: "rq_rel K s aq tbl \<Longrightarrow> \<exists>lopt. listen_opt s = Some lopt"
  by (auto simp: rq_rel_def)

lemma queue_len_rel: "rq_rel K s aq tbl \<Longrightarrow> reqsk_queue_len s = int (length (concat tbl))"
  by (auto simp: rq_rel_def table_rel_def reqsk_queue_len_def)

lemma in_table_slot:
  assumes "rq_rel K s aq tbl" "listen_opt s = Some lopt" "x \<in> set (concat tbl)" "reqs s x = Some r"
  shows "req_slot K lopt r < length tbl" "x \<in> set (tbl ! req_slot K lopt r)"
proof -
  from assms(3) obtain i where i: "i < length tbl" "x \<in> set (tbl ! i)"
    by (auto simp: set_concat in_set_conv_nth [of _ tbl])
  then have "in_slot K lopt (reqs s) i x" using assms(1,2) by (auto simp: rq_rel_def table_rel_def)
  then have "req_slot K lopt r = i" using assms(4) by (simp add: in_slot_def)
  with i show "req_slot K lopt r < length tbl" "x \<in> set (tbl ! req_slot K lopt r)" by simp_all
qed

lemma find_None_iff_set: "find P xs = None \<longleftrightarrow> (\<forall>x \<in> set xs. \<not> P x)"
  by (induction xs) auto

lemma find_Some_set: "find P xs = Some x \<Longrightarrow> x \<in> set xs \<and> P x"
  by (induction xs) (auto split: if_splits)

lemma content_matches:
  assumes "content s x = Some r"
  shows "\<exists>r'. reqs s x = Some r' \<and> rmt_port r' = rmt_port r \<and> rmt_addr r' = rmt_addr r \<and>
           loc_addr r' = loc_addr r \<and> req_sk r' = req_sk r"
  using assms by (auto simp: content_def)

text \<open>A lookup finds exactly a request of the table with the given addresses and port.\<close>

lemma search_complete:
  assumes rel: "rq_rel K s aq tbl"
  shows "inet_csk_search_req K rport raddr laddr s = Some None \<longleftrightarrow>
           (\<forall>x \<in> set (concat tbl). \<not> req_at s rport raddr laddr x)"
    and "inet_csk_search_req K rport raddr laddr s = Some (Some (x, L)) \<Longrightarrow>
           x \<in> set (concat tbl) \<and> req_at s rport raddr laddr x"
    and "inet_csk_search_req K rport raddr laddr s \<noteq> None"
proof -
  obtain lopt where lopt: "listen_opt s = Some lopt" using rq_rel_listen_opt [OF rel] by blast
  define i where "i = unat (inet_synq_hash K raddr rport (hash_rnd lopt) (nr_table_entries lopt))"
  note spec = search_req_spec [OF rel lopt, where rport = rport and raddr = raddr, folded i_def]
  have slot: "x \<in> set (tbl ! i)" if "x \<in> set (concat tbl)" "req_at s rport raddr laddr x" for x
  proof -
    from that(2) obtain r where r: "reqs s x = Some r" "req_slot K lopt r = i"
      by (auto simp: req_at_def req_matches_def req_slot_def i_def split: option.splits)
    with in_table_slot(2) [OF rel lopt that(1) r(1)] show ?thesis by simp
  qed
  have sub: "set (tbl ! i) \<subseteq> set (concat tbl)" using spec(2) nth_mem by fastforce
  show "inet_csk_search_req K rport raddr laddr s = Some None \<longleftrightarrow>
          (\<forall>x \<in> set (concat tbl). \<not> req_at s rport raddr laddr x)"
    using slot sub by (auto simp: spec(1) find_None_iff_set)
  show "inet_csk_search_req K rport raddr laddr s \<noteq> None" by (simp add: spec(1))
  show "x \<in> set (concat tbl) \<and> req_at s rport raddr laddr x"
    if "inet_csk_search_req K rport raddr laddr s = Some (Some (x, L))"
    using that sub find_Some_set by (fastforce simp: spec(1))
qed

text \<open>The place a lookup returns is the one the request is linked from.\<close>

lemma search_place:
  assumes rel: "rq_rel K s aq tbl"
    and found: "inet_csk_search_req K rport raddr laddr s = Some (Some (x, L))"
  obtains i as bs where "i < length tbl" "tbl ! i = as @ x # bs" "L = link_after i as"
proof -
  obtain lopt where lopt: "listen_opt s = Some lopt" using rq_rel_listen_opt [OF rel] by blast
  define i where "i = unat (inet_synq_hash K raddr rport (hash_rnd lopt) (nr_table_entries lopt))"
  note spec = search_req_spec [OF rel lopt, where rport = rport and raddr = raddr, folded i_def]
  from found have x: "find (req_at s rport raddr laddr) (tbl ! i) = Some x"
    and L: "L = link_to (Slot i) (tbl ! i) x" by (auto simp: spec(1))
  from x obtain as bs where split: "tbl ! i = as @ x # bs"
    using find_Some_set split_list by fastforce
  have "distinct (tbl ! i)"
    using rel spec(2) by (auto simp: rq_rel_def distinct_concat_iff)
  with L split have "L = link_after i as"
    by (simp add: link_to_split link_after_def)
  with spec(2) split that show ?thesis by blast
qed

text \<open>The lookup for the request of the example listener.\<close>

lemma lsk2_found: "\<exists>L. inet_csk_search_req K0 1024 1 7 lsk2 = Some (Some (1, L))"
proof -
  have at: "req_at lsk2 1024 1 7 1"
    using content_matches [OF lsk2(3)] by (auto simp: req_at_def req_matches_def req0_def)
  note search = search_complete [OF lsk2(2), where rport = 1024 and raddr = 1 and laddr = 7]
  have set: "set (concat ((replicate 16 [])[1 := [1 :: nat]])) = {1}"
    by (subst concat_split(2)) simp_all
  have "inet_csk_search_req K0 1024 1 7 lsk2 \<noteq> Some None"
    unfolding search(1) set using at by simp
  then obtain y L where y: "inet_csk_search_req K0 1024 1 7 lsk2 = Some (Some (y, L))"
    using search(3) by (metis not_None_eq prod.exhaust)
  moreover have "y = 1" using search(2) [OF y] unfolding set by simp
  ultimately show ?thesis by simp
qed

text \<open>
  C2. A request that is hashed into the table of a well-formed listener, with no request of the
  same peer and address there before, is what a lookup for its addresses returns afterwards;
  the lookups for other connections are unaffected, and the structures stay well formed.
\<close>

theorem hash_add_search:
  assumes "rq_rel K s aq tbl" "x \<notin> set (aq @ concat tbl)" "x \<noteq> NULL" "reqs s x = Some r"
    and "inet_csk_search_req K (rmt_port r) (rmt_addr r) (loc_addr r) s = Some None"
  shows "\<exists>s' tbl' L. inet_csk_reqsk_queue_hash_add K x timeout s = Some s' \<and>
           rq_rel K s' aq tbl' \<and> set (concat tbl') = insert x (set (concat tbl)) \<and>
           inet_csk_search_req K (rmt_port r) (rmt_addr r) (loc_addr r) s' = Some (Some (x, L)) \<and>
           (\<forall>rport raddr laddr. (rport, raddr, laddr) \<noteq> (rmt_port r, rmt_addr r, loc_addr r) \<longrightarrow>
              (inet_csk_search_req K rport raddr laddr s' = Some None \<longleftrightarrow>
               inet_csk_search_req K rport raddr laddr s = Some None))"
proof -
  obtain lopt where lopt: "listen_opt s = Some lopt" using rq_rel_listen_opt [OF assms(1)] by blast
  define i where "i = req_slot K lopt r"
  from reqsk_queue_hash_add_spec [OF assms(1-4) lopt, of timeout] obtain s'
    where s': "inet_csk_reqsk_queue_hash_add K x timeout s = Some s'"
      "rq_rel K s' aq (tbl[i := x # tbl ! i])"
      and cx: "content s' x = Some (r\<lparr>req_expires := jiffies K + timeout, req_retrans := 0,
                                  req_sk := NULL, dl_next := NULL\<rparr>)"
      and other: "\<forall>y. y \<noteq> x \<longrightarrow> reqs s' y = reqs s y" by (auto simp: i_def)
  have i: "i < length tbl"
    using assms(1) lopt search_req_spec(2) [OF assms(1) lopt, of "rmt_addr r" "rmt_port r"]
    by (simp add: i_def req_slot_def)
  define tbl' where "tbl' = tbl[i := x # tbl ! i]"
  have set': "set (concat tbl') = insert x (set (concat tbl))"
    using mset_slot(3) [of i tbl] mset_slot(3) [of i tbl'] i by (simp add: tbl'_def)
  have at_x: "req_at s' rport raddr laddr x \<longleftrightarrow> (rport, raddr, laddr) = (rmt_port r, rmt_addr r, loc_addr r)"
    for rport raddr laddr
    using content_matches [OF cx] by (auto simp: req_at_def req_matches_def)
  have at_y: "req_at s' rport raddr laddr y = req_at s rport raddr laddr y" if "y \<noteq> x" for rport raddr laddr y
    using other that by (simp add: req_at_def)
  note before = search_complete [OF assms(1)] and after = search_complete [OF s'(2) [folded tbl'_def]]
  have "inet_csk_search_req K (rmt_port r) (rmt_addr r) (loc_addr r) s' \<noteq> Some None"
    unfolding after(1) set' using at_x by blast
  then obtain y L where y: "inet_csk_search_req K (rmt_port r) (rmt_addr r) (loc_addr r) s' = Some (Some (y, L))"
    using after(3) by (metis not_None_eq prod.exhaust)
  with after(2) [OF y] set' at_y before(1) assms(5) have "y = x" by blast
  moreover have "inet_csk_search_req K rport raddr laddr s' = Some None \<longleftrightarrow>
      inet_csk_search_req K rport raddr laddr s = Some None"
    if "(rport, raddr, laddr) \<noteq> (rmt_port r, rmt_addr r, loc_addr r)" for rport raddr laddr
  proof -
    have "req_at s' rport raddr laddr z = req_at s rport raddr laddr z"
      if "z \<in> set (concat tbl)" for z
      using that assms(2) by (intro at_y) auto
    then show ?thesis
      unfolding before(1) after(1) set' using that at_x [of rport raddr laddr] by blast
  qed
  ultimately show ?thesis using s' set' y tbl'_def by blast
qed


theorem hash_add_search_witness:
  "\<exists>s' tbl' L. inet_csk_reqsk_queue_hash_add K0 1 300 lsk1 = Some s' \<and>
     rq_rel K0 s' [] tbl' \<and> set (concat tbl') = {1} \<and>
     inet_csk_search_req K0 1024 1 7 s' = Some (Some (1, L))"
proof -
  have "inet_csk_search_req K0 (rmt_port req0) (rmt_addr req0) (loc_addr req0) lsk1 = Some None"
    using search_complete(1) [OF lsk1_rel] by simp
  from hash_add_search [OF lsk1_rel _ _ lsk1_req(1) this, of 300] show ?thesis
    by (auto simp: req0_def)
qed

text \<open>
  C3. What a lookup returns can be dropped: with the request and the link the lookup gave,
  \<open>inet_csk_reqsk_queue_drop\<close> does not fault, frees that request, takes it out of the table,
  leaves every other request in place and unchanged, and lowers the queue length by one.
\<close>

theorem search_drop:
  assumes rel: "rq_rel K s aq tbl"
    and found: "inet_csk_search_req K rport raddr laddr s = Some (Some (x, L))"
  shows "\<exists>s' tbl'. inet_csk_reqsk_queue_drop x L s = Some s' \<and> rq_rel K s' aq tbl' \<and>
           set (concat tbl') = set (concat tbl) - {x} \<and>
           (\<forall>y. content s' y = (if y = x then None else content s y)) \<and>
           reqsk_queue_len s' = reqsk_queue_len s - 1"
proof -
  obtain i as bs where i: "i < length tbl" and split: "tbl ! i = as @ x # bs" and L: "L = link_after i as"
    using search_place [OF rel found] .
  define tbl' where "tbl' = tbl[i := as @ bs]"
  from unlink_removed_spec [OF rel i split] obtain s1 s2
    where s1: "reqsk_queue_unlink x L s = Some s1"
      and s2: "reqsk_queue_removed x s1 = Some (int (length (concat tbl)) - 1, s2)"
        "rq_rel K s2 aq tbl'" "reqs s2 x \<noteq> None" "content s2 = content s"
        "x \<notin> set (aq @ concat tbl')" by (auto simp: L tbl'_def)
  define s3 where "s3 = (if int (length (concat tbl)) - 1 = 0 then inet_csk_delete_keepalive_timer s2 else s2)"
  define s' where "s' = s3\<lparr>reqs := (reqs s3)(x := None)\<rparr>"
  have s3: "reqs s3 = reqs s2" "rq_rel K s3 aq tbl'"
    using s2(2) by (simp_all add: s3_def inet_csk_delete_keepalive_timer_def rq_rel_def acceptq_rel_def)
  have free: "reqsk_free x s3 = Some s'" "rq_rel K s' aq tbl'"
    using rq_rel_free [OF s3(2) s2(5)] s2(3) by (simp_all add: s3(1) s'_def)
  have "inet_csk_reqsk_queue_removed x s1 = Some s3"
    by (simp add: inet_csk_reqsk_queue_removed_def s2(1) s3_def)
  then have "inet_csk_reqsk_queue_drop x L s = Some s'"
    by (simp add: inet_csk_reqsk_queue_drop_def s1 free(1))
  moreover have "set (concat tbl') = set (concat tbl) - {x}"
    using mset_slot(3,4) [OF i] mset_slot(3) [of i tbl'] i split rel
    by (auto simp: tbl'_def rq_rel_def)
  moreover have "content s' y = (if y = x then None else content s y)" for y
    using fun_cong [OF s2(4), of y] by (simp add: content_def s'_def s3(1))
  moreover have len: "length (concat tbl) = Suc (length (concat tbl'))"
    using mset_slot(1) [OF i] mset_slot(1) [of i tbl'] i split by (simp add: tbl'_def)
  have "reqsk_queue_len s' = reqsk_queue_len s - 1"
    unfolding queue_len_rel [OF free(2)] queue_len_rel [OF rel] len by simp
  ultimately show ?thesis using free(2) by blast
qed


theorem search_drop_witness:
  "\<exists>L s' tbl'. inet_csk_search_req K0 1024 1 7 lsk2 = Some (Some (1, L)) \<and>
     inet_csk_reqsk_queue_drop 1 L lsk2 = Some s' \<and> rq_rel K0 s' [] tbl' \<and>
     concat tbl' = [] \<and> content s' 1 = None"
proof -
  have set: "set (concat ((replicate 16 [])[1 := [1 :: nat]])) = {1}"
    by (subst concat_split(2)) simp_all
  obtain L where found: "inet_csk_search_req K0 1024 1 7 lsk2 = Some (Some (1, L))" using lsk2_found by blast
  from search_drop [OF lsk2(2) found] obtain s' tbl'
    where "inet_csk_reqsk_queue_drop 1 L lsk2 = Some s'" "rq_rel K0 s' [] tbl'"
      "set (concat tbl') = {}" "content s' 1 = None"
    unfolding set by auto
  with found show ?thesis unfolding set_empty by blast
qed


section \<open>The accept queue\<close>

text \<open>
  C1. First in, first out. Any interleaving of queueing completed requests
  (\<open>reqsk_queue_add\<close>) with non-blocking calls of \<open>inet_csk_accept\<close> runs without fault and hands
  out the child sockets exactly in the order they were queued; what was not handed out is
  still in the queue, in order.
\<close>

theorem accept_fifo:
  assumes "acc_view K tbl s q" "\<forall>e \<in> set (enqs ops). acc_ready tbl s q e"
    and "distinct (map fst (enqs ops))"
  shows "\<exists>vs s' q'. run_queue acc_enq (inet_csk_accept [] True) ops s = Some (vs, s') \<and>
           acc_view K tbl s' q' \<and> vs @ map snd q' = map snd (q @ enqs ops)"
  by (rule acceptq.run_order [OF assms])

theorem accept_fifo_witness:
  "\<exists>vs s' q'. run_queue acc_enq (inet_csk_accept [] True)
       [Deq, Enq (2, 20), Enq (1, 10), Deq] lsk1 = Some (vs, s') \<and>
     acc_view K0 (replicate 16 []) s' q' \<and> vs @ map snd q' = [20, 10]"
proof -
  have "acc_view K0 (replicate 16 []) lsk1 []"
    using lsk1_rel lsk1_listen_opt by (simp add: acc_view_def)
  moreover have "\<forall>e \<in> set (enqs [Deq, Enq (2, 20), Enq (1, 10), Deq]).
      acc_ready (replicate 16 []) lsk1 [] e"
    by (simp add: acc_ready_def lsk1_def)
  ultimately show ?thesis
    using accept_fifo [of K0 "replicate 16 []" lsk1 "[]" "[Deq, Enq (2, 20), Enq (1, 10), Deq]"]
    by simp
qed

text \<open>What the other contexts do while \<open>accept\<close> sleeps keeps the listener well formed.\<close>

definition rq_ok :: "kenv \<Rightarrow> listener \<Rightarrow> bool" where
  "rq_ok K s \<longleftrightarrow> (\<exists>aq tbl. rq_rel K s aq tbl)"

definition sleep_ok :: "kenv \<Rightarrow> sleep \<Rightarrow> bool" where
  "sleep_ok K e \<longleftrightarrow> (\<forall>s. rq_ok K s \<longrightarrow> rq_ok K (on_release e s) \<and> rq_ok K (on_sleep e s))"

lemma wait_result:
  "inet_csk_wait_for_connect es timeo s = Some (err, s') \<Longrightarrow>
   if err = 0 then \<not> reqsk_queue_empty s'
   else reqsk_queue_empty s' \<and> err \<in> {- EINVAL, - EAGAIN, - EINTR, - ERESTARTSYS} \<and>
        (err = - EINVAL \<longleftrightarrow> lsk_state s' \<noteq> TCP_LISTEN)"
proof (induction es arbitrary: timeo s)
  case (Cons e es)
  from Cons.prems Cons.IH [of "time_left e" "on_sleep e (on_release e s)"] show ?case
    by (auto simp: Let_def sock_intr_errno_def errno_defs ERESTARTSYS_def split: if_splits)
qed simp

lemma wait_returns:
  "es \<noteq> [] \<Longrightarrow> time_left (last es) = 0 \<Longrightarrow> \<exists>r. inet_csk_wait_for_connect es timeo s = Some r"
proof (induction es arbitrary: timeo s)
  case (Cons e es)
  then show ?case by (cases "es = []") (simp_all add: Let_def)
qed simp

lemma wait_keeps:
  "inet_csk_wait_for_connect es timeo s = Some (err, s') \<Longrightarrow> rq_ok K s \<Longrightarrow>
   \<forall>e \<in> set es. sleep_ok K e \<Longrightarrow> rq_ok K s'"
proof (induction es arbitrary: timeo s)
  case (Cons e es)
  then have "rq_ok K (on_release e s)" "rq_ok K (on_sleep e (on_release e s))"
    by (auto simp: sleep_ok_def)
  with Cons.prems show ?case
    by (auto simp: Let_def dest: Cons.IH split: if_splits)
qed simp

text \<open>
  C5. \<open>accept\<close> on a listening socket: it comes back at the latest with the sleep in which its time
  runs out; an error is one of the four documented ones and then no connection was waiting,
  \<open>-EINVAL\<close> only when listening had ended meanwhile; a success is the child taken off a
  non-empty queue.
\<close>

theorem accept_result:
  assumes "lsk_state s = TCP_LISTEN" "es \<noteq> []" "time_left (last es) = 0" "rq_ok K s"
    and closed: "\<forall>e \<in> set es. sleep_ok K e"
  shows "\<exists>res s'. inet_csk_accept es nonblock s = Some (res, s') \<and>
     (case res of
        Inl err \<Rightarrow> reqsk_queue_empty s' \<and> err \<in> {- EINVAL, - EAGAIN, - EINTR, - ERESTARTSYS} \<and>
                   (err = - EINVAL \<longleftrightarrow> lsk_state s' \<noteq> TCP_LISTEN)
      | Inr child \<Rightarrow> \<exists>s1. \<not> reqsk_queue_empty s1 \<and> reqsk_queue_get_child s1 = Some (child, s'))"
proof -
  define front where "front =
    (if reqsk_queue_empty s then
       (let timeo = sock_rcvtimeo s nonblock
        in if timeo = 0 then Some (- EAGAIN, s) else inet_csk_wait_for_connect es timeo s)
     else Some (0, s))"
  obtain err s1 where f: "front = Some (err, s1)"
    using wait_returns [OF assms(2,3), of "sock_rcvtimeo s nonblock" s]
    by (cases front) (auto simp: front_def Let_def split: if_splits)
  have rel1: "rq_ok K s1"
    using f wait_keeps [OF _ assms(4) closed] assms(4) by (auto simp: front_def Let_def split: if_splits)
  have acc: "inet_csk_accept es nonblock s =
     (if err \<noteq> 0 then Some (Inl err, s1)
      else do { (newsk, s2) \<leftarrow> reqsk_queue_get_child s1; Some (Inr newsk, s2) })"
    using assms(1) f by (simp add: inet_csk_accept_def front_def)
  have res: "if err = 0 then \<not> reqsk_queue_empty s1
     else reqsk_queue_empty s1 \<and> err \<in> {- EINVAL, - EAGAIN, - EINTR, - ERESTARTSYS} \<and>
        (err = - EINVAL \<longleftrightarrow> lsk_state s1 \<noteq> TCP_LISTEN)"
    using f wait_result [of es "sock_rcvtimeo s nonblock" s err s1] assms(1)
    by (auto simp: front_def Let_def errno_defs ERESTARTSYS_def split: if_splits)
  show ?thesis
  proof (cases "err = 0")
    case True
    with res have ne: "\<not> reqsk_queue_empty s1" by simp
    from rel1 obtain aq tbl where "rq_rel K s1 aq tbl" unfolding rq_ok_def by blast
    moreover with ne obtain x aq' where "aq = x # aq'"
      using rq_rel_empty_iff by (cases aq) auto
    ultimately obtain c s2 where "reqsk_queue_get_child s1 = Some (c, s2)"
      using reqsk_queue_get_child_spec by blast
    with True ne show ?thesis by (auto simp: acc)
  next
    case False
    with res show ?thesis by (intro exI conjI) (auto simp: acc)
  qed
qed

theorem accept_result_witness:
  "\<exists>res s'. inet_csk_accept [\<lparr>on_release = id, on_sleep = id, time_left = 0, signal_pending = False\<rparr>]
     False lsk0 = Some (res, s')"
  using accept_result [of lsk0 "[\<lparr>on_release = id, on_sleep = id, time_left = 0, signal_pending = False\<rparr>]"
      K0 False] lsk0_rel
  by (auto simp: lsk0_def rq_ok_def sleep_ok_def)


section \<open>Expiry, allocation and the end of listening\<close>

text \<open>
  C4. A pass of the SYN-ACK timer over a well-formed listener ends without fault. It keeps the
  structures and all counters in step, does not touch the accept queue, changes or removes
  only requests of the table whose timer had run out, adds none, and re-arms the timer as
  long as requests are left. (The retry setting is at most the width of the counter.)
\<close>

theorem prune_ok:
  assumes "rq_rel K s aq tbl" "interval \<noteq> 0" "interval \<le> timeout" "sysctl_tcp_synack_retries K \<le> 255"
  shows "\<exists>s' tbl'. inet_csk_reqsk_queue_prune K rtx interval timeout max_rto s = Some s' \<and>
           rq_rel K s' aq tbl' \<and> set (concat tbl') \<subseteq> set (concat tbl) \<and>
           (\<forall>x. content s' x = content s x \<or>
              x \<in> set (concat tbl) \<and> (\<exists>r. reqs s x = Some r \<and> time_after_eq K (jiffies K) (req_expires r))) \<and>
           (concat tbl' \<noteq> [] \<longrightarrow> sk_timer s' = Some (jiffies K + interval))"
  by (rule queue_prune_spec [OF assms])

theorem prune_ok_witness:
  "\<exists>s' tbl'. inet_csk_reqsk_queue_prune K0 (\<lambda>x n. 0) 50 300 12000 lsk2 = Some s' \<and>
     rq_rel K0 s' [] tbl' \<and> content s' 1 = content lsk2 1"
proof -
  obtain r where r: "reqs lsk2 1 = Some r" "req_expires r = 1300"
    using lsk2(3) by (auto simp: content_def dest: arg_cong [of _ _ req_expires])
  then have late: "\<not> (\<exists>r. reqs lsk2 1 = Some r \<and> time_after_eq K0 (jiffies K0) (req_expires r))"
    by simp
  have "(50 :: u64) \<noteq> 0" "(50 :: u64) \<le> 300" "sysctl_tcp_synack_retries K0 \<le> 255" by simp_all
  from prune_ok [OF lsk2(2) this, of "\<lambda>x n. 0" 12000] late show ?thesis by blast
qed

text \<open>
  C6. A successful \<open>reqsk_queue_alloc\<close> makes an empty, well-formed table whose size is a power of
  two, at least 16, and more than the requested backlog clamped to the system limit (and to
  8); \<open>max_qlen_log\<close> is its logarithm.
\<close>

theorem alloc_ok:
  assumes "roundup_law K" "unat (sysctl_max_syn_backlog K) < 2 ^ 31"
    and "reqsk_queue_alloc K n s = (0, s')"
  shows "\<exists>lopt k. listen_opt s' = Some lopt \<and> unat (nr_table_entries lopt) = 2 ^ k \<and>
           4 \<le> k \<and> unat (max_qlen_log lopt) = k \<and> length (syn_table lopt) = 2 ^ k \<and>
           unat (max (min n (sysctl_max_syn_backlog K)) 8) < 2 ^ k \<and>
           rq_rel K (s'\<lparr>sk_ack_backlog := 0\<rparr>) [] (replicate (2 ^ k) [])"
  by (rule alloc_spec [OF assms])

theorem alloc_ok_witness:
  "\<exists>lopt k. listen_opt (snd (reqsk_queue_alloc K0 128 lsk0)) = Some lopt \<and> 4 \<le> k \<and>
     unat (nr_table_entries lopt) = 2 ^ k \<and> 128 < (2 :: nat) ^ k"
proof -
  obtain s' where "reqsk_queue_alloc K0 128 lsk0 = (0, s')"
    by (simp add: reqsk_queue_alloc_def Let_def)
  moreover have "unat (max (min 128 (sysctl_max_syn_backlog K0)) 8) = 128" by (simp add: max_def min_def)
  ultimately show ?thesis
    using alloc_ok [OF K0_laws(1), of 128 lsk0 s'] by auto
qed

text \<open>
  C7. The end of listening leaks nothing: \<open>inet_csk_listen_stop\<close> on a well-formed listener ends,
  hands every child of the accept queue to be closed (in queue order), frees every request
  of both structures and no other, and leaves the timer stopped and the backlog at zero.
\<close>

theorem listen_stop_ok:
  assumes "rq_rel K s aq tbl"
  shows "\<exists>s'. inet_csk_listen_stop s = Some (map (\<lambda>x. req_sk (the (reqs s x))) aq, s') \<and>
           reqs s' = reqs s |` (- (set aq \<union> set (concat tbl))) \<and> sk_ack_backlog s' = 0 \<and>
           listen_opt s' = None \<and> sk_timer s' = None \<and> reqsk_queue_empty s'"
  by (rule listen_stop_spec [OF assms])

theorem listen_stop_ok_witness:
  "\<exists>s'. inet_csk_listen_stop lsk2 = Some ([], s') \<and> reqs s' 1 = None \<and> listen_opt s' = None"
proof -
  have "set (concat ((replicate 16 [])[1 := [1 :: nat]])) = {1}"
    by (subst concat_split(2)) simp_all
  then show ?thesis using listen_stop_ok [OF lsk2(2)] by (auto simp: restrict_map_def)
qed

text \<open>
  C8. The overflow test of the SYN queue is exact: on a well-formed listener
  \<open>reqsk_queue_is_full\<close> is non-zero precisely when as many requests are queued as the table
  has slots.
\<close>

theorem is_full_iff:
  assumes "rq_rel K s aq tbl" "listen_opt s = Some lopt"
  shows "(\<exists>v. reqsk_queue_is_full s = Some v \<and> v \<noteq> 0) \<longleftrightarrow>
           unat (nr_table_entries lopt) \<le> length (concat tbl)"
proof -
  have r: "qlen lopt = int (length (concat tbl))"
      "unat (nr_table_entries lopt) = 2 ^ unat (max_qlen_log lopt)"
    using assms by (auto simp: rq_rel_def table_rel_def)
  define n k where "n = length (concat tbl)" and "k = unat (max_qlen_log lopt)"
  have "drop_bit k (int n) = 0 \<longleftrightarrow> n < 2 ^ k"
    by (auto simp: drop_bit_eq_div zdiv_eq_0_iff not_le)
  then show ?thesis
    using assms(2) r by (auto simp: reqsk_queue_is_full_def n_def k_def)
qed

theorem is_full_iff_witness:
  "reqsk_queue_is_full lsk0 = Some 0 \<and> \<not> (\<exists>v. reqsk_queue_is_full lsk0 = Some v \<and> v \<noteq> 0)"
  using is_full_iff [OF lsk0_rel] by (simp add: lsk0_def reqsk_queue_is_full_def)

end
