(* ===== verification/Inet_Hash.thy ===== *)
theory Inet_Hash
  imports Kernel_Prelude
begin

text \<open>
  The socket hash tables of TCP: \<^verbatim>\<open>include/net/inet_hashtables.h\<close>,
  \<^verbatim>\<open>net/ipv4/inet_hashtables.c\<close> and the port selection of
  \<^verbatim>\<open>net/ipv4/inet_connection_sock.c\<close>. Sockets, time-wait sockets and bind buckets live in
  explicit stores; a chain of \<^verbatim>\<open>linux/list.h\<close> is the list of the objects on it, first one
  first, so adding at the head is \<open>#\<close> and unlinking is \<open>remove1\<close>. Reading a null or freed object
  gives \<^term>\<open>None\<close>. The tables are used by one context at a time (their locks are left out), so
  the re-checks of the lockless lookups do not fire. No IPv6 is configured and the layout is
  the one of a little-endian 64-bit machine.
\<close>

section \<open>Data\<close>

text \<open>Where the main hash linkage of a socket is: nowhere, or a slot of one of the two tables.\<close>

datatype sk_place = Unhashed | In_ehash nat | In_listening nat

record hsock =
  sk_family :: u16
  sk_reuse :: bool
  sk_state :: tcp_state
  sk_bound_dev_if :: int
  sk_hash :: u32
  sk_net :: nat
  sk_refcnt :: int
  sk_node :: sk_place
  inet_num :: u16
  inet_sport :: be16
  inet_dport :: be16
  inet_daddr :: be32
  inet_rcv_saddr :: be32
  icsk_bind_hash :: ptr

record htwsk =
  tw_hash :: u32
  tw_net :: nat
  tw_refcnt :: int
  tw_reuse :: bool
  tw_bound_dev_if :: int
  tw_num :: u16
  tw_dport :: be16
  tw_daddr :: be32
  tw_rcv_saddr :: be32

record inet_bind_bucket =
  ib_net :: nat
  port :: u16
  fastreuse :: int
  num_owners :: int
  owners :: "ptr list"

record inet_ehash_bucket =
  ehchain :: "ptr list"
  twchain :: "ptr list"

record inet_hashinfo =
  socks :: "ptr \<rightharpoonup> hsock"
  twsks :: "ptr \<rightharpoonup> htwsk"
  tbs :: "ptr \<rightharpoonup> inet_bind_bucket"
  ehash :: "inet_ehash_bucket list"
  ehash_mask :: u32
  bhash :: "ptr list list"
  bhash_size :: u32
  listening_hash :: "ptr list list"
  bsockets :: int
  prot_inuse :: int
  connect_hint :: u32

definition INET_LHTABLE_SIZE :: u32 where "INET_LHTABLE_SIZE = 32"
definition PF_INET :: u16 where "PF_INET = 2"

text \<open>
  The parameters: hash functions and byte order, the port settings, the random source, and the
  operations on time-wait sockets of \<^verbatim>\<open>inet_timewait_sock.c\<close>.
\<close>

record henv =
  jhash_3words :: "u32 \<Rightarrow> u32 \<Rightarrow> u32 \<Rightarrow> u32 \<Rightarrow> u32"
  net_hash_mix :: "nat \<Rightarrow> u32"
  inet_ehash_secret :: u32
  htons :: "u16 \<Rightarrow> be16"
  ntohs :: "be16 \<Rightarrow> u16"
  secure_ipv4_port_ephemeral :: "be32 \<Rightarrow> be32 \<Rightarrow> be16 \<Rightarrow> u32"
  net_random :: "nat \<Rightarrow> u32"
  local_ports_range :: "int \<times> int"
  inet_is_reserved_local_port :: "int \<Rightarrow> bool"
  twsk_unique :: "hsock \<Rightarrow> htwsk \<Rightarrow> bool \<Rightarrow> bool"
  inet_twsk_unhash :: "ptr \<Rightarrow> inet_hashinfo \<Rightarrow> int \<times> inet_hashinfo"
  inet_twsk_bind_unhash :: "ptr \<Rightarrow> inet_hashinfo \<Rightarrow> int \<times> inet_hashinfo"
  inet_twsk_deschedule :: "ptr \<Rightarrow> inet_hashinfo \<Rightarrow> inet_hashinfo"
  inet_twsk_put :: "ptr \<Rightarrow> inet_hashinfo \<Rightarrow> inet_hashinfo"

section \<open>Access to the stores\<close>

definition upd_sock :: "ptr \<Rightarrow> (hsock \<Rightarrow> hsock) \<Rightarrow> inet_hashinfo \<Rightarrow> inet_hashinfo option" where
  "upd_sock p f s = do { k \<leftarrow> socks s p; Some (s\<lparr>socks := (socks s)(p \<mapsto> f k)\<rparr>) }"

definition upd_tb :: "ptr \<Rightarrow> (inet_bind_bucket \<Rightarrow> inet_bind_bucket) \<Rightarrow> inet_hashinfo \<Rightarrow> inet_hashinfo option" where
  "upd_tb p f s = do { t \<leftarrow> tbs s p; Some (s\<lparr>tbs := (tbs s)(p \<mapsto> f t)\<rparr>) }"

definition sk_unhashed :: "hsock \<Rightarrow> bool" where
  "sk_unhashed k \<longleftrightarrow> sk_node k = Unhashed"

section \<open>Hash functions and matching\<close>

definition inet_bhashfn :: "henv \<Rightarrow> nat \<Rightarrow> u16 \<Rightarrow> u32 \<Rightarrow> u32" where
  "inet_bhashfn E net lport bsize = (ucast lport + net_hash_mix E net) AND (bsize - 1)"

definition inet_lhashfn :: "henv \<Rightarrow> nat \<Rightarrow> u16 \<Rightarrow> u32" where
  "inet_lhashfn E net num = (ucast num + net_hash_mix E net) AND (INET_LHTABLE_SIZE - 1)"

definition inet_sk_listen_hashfn :: "henv \<Rightarrow> hsock \<Rightarrow> u32" where
  "inet_sk_listen_hashfn E k = inet_lhashfn E (sk_net k) (inet_num k)"

definition inet_ehashfn :: "henv \<Rightarrow> nat \<Rightarrow> be32 \<Rightarrow> u16 \<Rightarrow> be32 \<Rightarrow> be16 \<Rightarrow> u32" where
  "inet_ehashfn E net laddr lport faddr fport =
     jhash_3words E laddr faddr (push_bit 16 (ucast lport) OR ucast fport)
       (inet_ehash_secret E + net_hash_mix E net)"

definition inet_sk_ehashfn :: "henv \<Rightarrow> hsock \<Rightarrow> u32" where
  "inet_sk_ehashfn E k =
     inet_ehashfn E (sk_net k) (inet_rcv_saddr k) (inet_num k) (inet_daddr k) (inet_dport k)"

definition inet_ehash_slot :: "inet_hashinfo \<Rightarrow> u32 \<Rightarrow> nat" where
  "inet_ehash_slot s hash = unat (hash AND ehash_mask s)"

definition INET_COMBINED_PORTS :: "be16 \<Rightarrow> u16 \<Rightarrow> u32" where
  "INET_COMBINED_PORTS sport dport = push_bit 16 (ucast dport) OR ucast sport"

definition INET_ADDR_COOKIE :: "be32 \<Rightarrow> be32 \<Rightarrow> u64" where
  "INET_ADDR_COOKIE saddr daddr = push_bit 32 (ucast daddr) OR ucast saddr"

text \<open>
  The pair of addresses and the pair of ports of a socket are read as one integer each: the
  foreign address and port are the lower halves.
\<close>

definition INET_MATCH :: "hsock \<Rightarrow> nat \<Rightarrow> u32 \<Rightarrow> u64 \<Rightarrow> u32 \<Rightarrow> int \<Rightarrow> bool" where
  "INET_MATCH k net hash cookie ports dif \<longleftrightarrow>
     sk_hash k = hash \<and> sk_net k = net \<and>
     INET_ADDR_COOKIE (inet_daddr k) (inet_rcv_saddr k) = cookie \<and>
     INET_COMBINED_PORTS (inet_dport k) (inet_num k) = ports \<and>
     (sk_bound_dev_if k = 0 \<or> sk_bound_dev_if k = dif)"

definition INET_TW_MATCH :: "htwsk \<Rightarrow> nat \<Rightarrow> u32 \<Rightarrow> u64 \<Rightarrow> u32 \<Rightarrow> int \<Rightarrow> bool" where
  "INET_TW_MATCH w net hash cookie ports dif \<longleftrightarrow>
     tw_hash w = hash \<and> tw_net w = net \<and>
     INET_ADDR_COOKIE (tw_daddr w) (tw_rcv_saddr w) = cookie \<and>
     INET_COMBINED_PORTS (tw_dport w) (tw_num w) = ports \<and>
     (tw_bound_dev_if w = 0 \<or> tw_bound_dev_if w = dif)"

section \<open>Bind buckets\<close>

text \<open>\<open>new_tb\<close> is what the slab cache returned, null when there is no memory.\<close>

definition inet_bind_bucket_create ::
    "ptr \<Rightarrow> nat \<Rightarrow> nat \<Rightarrow> u16 \<Rightarrow> inet_hashinfo \<Rightarrow> (ptr \<times> inet_hashinfo) option" where
  "inet_bind_bucket_create new_tb net head snum s =
     (if new_tb = NULL then Some (NULL, s)
      else if head < length (bhash s) then
        Some (new_tb, s\<lparr>tbs := (tbs s)(new_tb \<mapsto> \<lparr>ib_net = net, port = snum, fastreuse = 0,
                                              num_owners = 0, owners = []\<rparr>),
                        bhash := (bhash s)[head := new_tb # bhash s ! head]\<rparr>)
      else None)"

definition inet_bind_bucket_destroy :: "henv \<Rightarrow> ptr \<Rightarrow> inet_hashinfo \<Rightarrow> inet_hashinfo option" where
  "inet_bind_bucket_destroy E tb s = do {
     t \<leftarrow> tbs s tb;
     Some (if owners t = []
           then s\<lparr>bhash := map (remove1 tb) (bhash s), tbs := (tbs s)(tb := None)\<rparr>
           else s) }"

definition inet_bind_hash :: "ptr \<Rightarrow> ptr \<Rightarrow> u16 \<Rightarrow> inet_hashinfo \<Rightarrow> inet_hashinfo option" where
  "inet_bind_hash sk tb snum s = do {
     s1 \<leftarrow> upd_sock sk (\<lambda>k. k\<lparr>inet_num := snum\<rparr>) (s\<lparr>bsockets := bsockets s + 1\<rparr>);
     s2 \<leftarrow> upd_tb tb (\<lambda>t. t\<lparr>owners := sk # owners t\<rparr>) s1;
     s3 \<leftarrow> upd_tb tb (\<lambda>t. t\<lparr>num_owners := num_owners t + 1\<rparr>) s2;
     upd_sock sk (\<lambda>k. k\<lparr>icsk_bind_hash := tb\<rparr>) s3 }"

definition inet_put_port :: "henv \<Rightarrow> ptr \<Rightarrow> inet_hashinfo \<Rightarrow> inet_hashinfo option" where
  "inet_put_port E sk s = do {
     let s1 = s\<lparr>bsockets := bsockets s - 1\<rparr>;
     k \<leftarrow> socks s1 sk;
     let tb = icsk_bind_hash k;
     s2 \<leftarrow> upd_tb tb (\<lambda>t. t\<lparr>owners := remove1 sk (owners t)\<rparr>) s1;
     s3 \<leftarrow> upd_tb tb (\<lambda>t. t\<lparr>num_owners := num_owners t - 1\<rparr>) s2;
     s4 \<leftarrow> upd_sock sk (\<lambda>k. k\<lparr>icsk_bind_hash := NULL\<rparr>) s3;
     s5 \<leftarrow> upd_sock sk (\<lambda>k. k\<lparr>inet_num := 0\<rparr>) s4;
     inet_bind_bucket_destroy E tb s5 }"

text \<open>The walk over a chain of buckets for a namespace and port; null when none matches.\<close>

fun find_tb :: "nat \<Rightarrow> int \<Rightarrow> ptr list \<Rightarrow> inet_hashinfo \<Rightarrow> ptr option" where
  "find_tb net p [] s = Some NULL"
| "find_tb net p (tb # chain) s = do {
     t \<leftarrow> tbs s tb;
     if ib_net t = net \<and> uint (port t) = p then Some tb else find_tb net p chain s }"

definition bhash_chain :: "inet_hashinfo \<Rightarrow> nat \<Rightarrow> ptr list option" where
  "bhash_chain s h = (if h < length (bhash s) then Some (bhash s ! h) else None)"

definition inet_inherit_port :: "henv \<Rightarrow> ptr \<Rightarrow> ptr \<Rightarrow> ptr \<Rightarrow> inet_hashinfo \<Rightarrow> (int \<times> inet_hashinfo) option" where
  "inet_inherit_port E new_tb sk child s = do {
     k \<leftarrow> socks s sk;
     c \<leftarrow> socks s child;
     let prt = inet_num c;
     let h = unat (inet_bhashfn E (sk_net k) prt (bhash_size s));
     t \<leftarrow> tbs s (icsk_bind_hash k);
     (tb, s1) \<leftarrow> (if port t \<noteq> prt then do {
                    chain \<leftarrow> bhash_chain s h;
                    tb1 \<leftarrow> find_tb (sk_net k) (uint prt) chain s;
                    if tb1 = NULL then inet_bind_bucket_create new_tb (sk_net k) h prt s
                    else Some (tb1, s) }
                  else Some (icsk_bind_hash k, s));
     if tb = NULL then Some (- ENOMEM, s1)
     else do { s2 \<leftarrow> inet_bind_hash child tb prt s1; Some (0, s2) } }"

section \<open>Lookup\<close>

definition compute_score :: "hsock \<Rightarrow> nat \<Rightarrow> u16 \<Rightarrow> be32 \<Rightarrow> int \<Rightarrow> int" where
  "compute_score k net hnum daddr dif =
     (if sk_net k = net \<and> inet_num k = hnum then
        let score = (if sk_family k = PF_INET then 1 else 0)
        in if inet_rcv_saddr k \<noteq> 0 \<and> inet_rcv_saddr k \<noteq> daddr then - 1
           else let score1 = (if inet_rcv_saddr k \<noteq> 0 then score + 2 else score)
                in if sk_bound_dev_if k \<noteq> 0 \<and> sk_bound_dev_if k \<noteq> dif then - 1
                   else if sk_bound_dev_if k \<noteq> 0 then score1 + 2 else score1
      else - 1)"

fun best_listener ::
    "nat \<Rightarrow> u16 \<Rightarrow> be32 \<Rightarrow> int \<Rightarrow> ptr list \<Rightarrow> ptr \<Rightarrow> int \<Rightarrow> inet_hashinfo \<Rightarrow> (ptr \<times> int) option" where
  "best_listener net hnum daddr dif [] result hiscore s = Some (result, hiscore)"
| "best_listener net hnum daddr dif (sk # chain) result hiscore s = do {
     k \<leftarrow> socks s sk;
     let score = compute_score k net hnum daddr dif;
     if hiscore < score then best_listener net hnum daddr dif chain sk score s
     else best_listener net hnum daddr dif chain result hiscore s }"

text \<open>A reference is taken on the socket found; one that is being freed is not returned.\<close>

definition inc_not_zero :: "ptr \<Rightarrow> inet_hashinfo \<Rightarrow> (bool \<times> inet_hashinfo) option" where
  "inc_not_zero sk s = do {
     k \<leftarrow> socks s sk;
     if sk_refcnt k = 0 then Some (False, s)
     else Some (True, s\<lparr>socks := (socks s)(sk \<mapsto> k\<lparr>sk_refcnt := sk_refcnt k + 1\<rparr>)\<rparr>) }"

definition tw_inc_not_zero :: "ptr \<Rightarrow> inet_hashinfo \<Rightarrow> (bool \<times> inet_hashinfo) option" where
  "tw_inc_not_zero tw s = do {
     w \<leftarrow> twsks s tw;
     if tw_refcnt w = 0 then Some (False, s)
     else Some (True, s\<lparr>twsks := (twsks s)(tw \<mapsto> w\<lparr>tw_refcnt := tw_refcnt w + 1\<rparr>)\<rparr>) }"

definition inet_lookup_listener ::
    "henv \<Rightarrow> nat \<Rightarrow> be32 \<Rightarrow> u16 \<Rightarrow> int \<Rightarrow> inet_hashinfo \<Rightarrow> (ptr \<times> inet_hashinfo) option" where
  "inet_lookup_listener E net daddr hnum dif s = do {
     let hash = unat (inet_lhashfn E net hnum);
     if length (listening_hash s) \<le> hash then None
     else do {
       (result, hiscore) \<leftarrow> best_listener net hnum daddr dif (listening_hash s ! hash) NULL (- 1) s;
       if result = NULL then Some (NULL, s)
       else do {
         (got, s1) \<leftarrow> inc_not_zero result s;
         Some (if got then result else NULL, s1) } } }"

fun find_ehash :: "nat \<Rightarrow> u32 \<Rightarrow> u64 \<Rightarrow> u32 \<Rightarrow> int \<Rightarrow> ptr list \<Rightarrow> inet_hashinfo \<Rightarrow> ptr option" where
  "find_ehash net hash cookie ports dif [] s = Some NULL"
| "find_ehash net hash cookie ports dif (sk # chain) s = do {
     k \<leftarrow> socks s sk;
     if INET_MATCH k net hash cookie ports dif then Some sk
     else find_ehash net hash cookie ports dif chain s }"

fun find_tw :: "nat \<Rightarrow> u32 \<Rightarrow> u64 \<Rightarrow> u32 \<Rightarrow> int \<Rightarrow> ptr list \<Rightarrow> inet_hashinfo \<Rightarrow> ptr option" where
  "find_tw net hash cookie ports dif [] s = Some NULL"
| "find_tw net hash cookie ports dif (tw # chain) s = do {
     w \<leftarrow> twsks s tw;
     if INET_TW_MATCH w net hash cookie ports dif then Some tw
     else find_tw net hash cookie ports dif chain s }"

text \<open>What a lookup by full identity finds: a socket, a time-wait socket or nothing.\<close>

datatype found = Found_sock ptr | Found_tw ptr | Not_found

definition lookup_tw ::
    "nat \<Rightarrow> u32 \<Rightarrow> u64 \<Rightarrow> u32 \<Rightarrow> int \<Rightarrow> ptr list \<Rightarrow> inet_hashinfo \<Rightarrow> (found \<times> inet_hashinfo) option" where
  "lookup_tw net hash cookie ports dif chain s = do {
     tw \<leftarrow> find_tw net hash cookie ports dif chain s;
     if tw = NULL then Some (Not_found, s)
     else do {
       (got, s1) \<leftarrow> tw_inc_not_zero tw s;
       Some (if got then Found_tw tw else Not_found, s1) } }"

definition inet_lookup_established ::
    "henv \<Rightarrow> nat \<Rightarrow> be32 \<Rightarrow> be16 \<Rightarrow> be32 \<Rightarrow> u16 \<Rightarrow> int \<Rightarrow> inet_hashinfo \<Rightarrow> (found \<times> inet_hashinfo) option" where
  "inet_lookup_established E net saddr sport daddr hnum dif s = do {
     let acookie = INET_ADDR_COOKIE saddr daddr;
     let ports = INET_COMBINED_PORTS sport hnum;
     let hash = inet_ehashfn E net daddr hnum saddr sport;
     let slot = inet_ehash_slot s hash;
     if length (ehash s) \<le> slot then None
     else do {
       let head = ehash s ! slot;
       sk \<leftarrow> find_ehash net hash acookie ports dif (ehchain head) s;
       if sk = NULL then lookup_tw net hash acookie ports dif (twchain head) s
       else do {
         (got, s1) \<leftarrow> inc_not_zero sk s;
         if got then Some (Found_sock sk, s1)
         else lookup_tw net hash acookie ports dif (twchain head) s1 } } }"

definition inet_lookup ::
    "henv \<Rightarrow> nat \<Rightarrow> be32 \<Rightarrow> be16 \<Rightarrow> be32 \<Rightarrow> be16 \<Rightarrow> int \<Rightarrow> inet_hashinfo \<Rightarrow> (found \<times> inet_hashinfo) option" where
  "inet_lookup E net saddr sport daddr dport dif s = do {
     let hnum = ntohs E dport;
     (r, s1) \<leftarrow> inet_lookup_established E net saddr sport daddr hnum dif s;
     if r \<noteq> Not_found then Some (r, s1)
     else do {
       (sk, s2) \<leftarrow> inet_lookup_listener E net daddr hnum dif s1;
       Some (if sk = NULL then Not_found else Found_sock sk, s2) } }"

section \<open>Entering and leaving the tables\<close>

definition sk_nulls_add_ehash :: "ptr \<Rightarrow> nat \<Rightarrow> inet_hashinfo \<Rightarrow> inet_hashinfo option" where
  "sk_nulls_add_ehash sk slot s =
     (if slot < length (ehash s) then do {
        let b = ehash s ! slot;
        upd_sock sk (\<lambda>k. k\<lparr>sk_node := In_ehash slot\<rparr>)
          (s\<lparr>ehash := (ehash s)[slot := b\<lparr>ehchain := sk # ehchain b\<rparr>]\<rparr>) }
      else None)"

definition sk_nulls_add_listening :: "ptr \<Rightarrow> nat \<Rightarrow> inet_hashinfo \<Rightarrow> inet_hashinfo option" where
  "sk_nulls_add_listening sk h s =
     (if h < length (listening_hash s) then
        upd_sock sk (\<lambda>k. k\<lparr>sk_node := In_listening h\<rparr>)
          (s\<lparr>listening_hash := (listening_hash s)[h := sk # listening_hash s ! h]\<rparr>)
      else None)"

definition sk_nulls_del_node_init_rcu :: "ptr \<Rightarrow> inet_hashinfo \<Rightarrow> (bool \<times> inet_hashinfo) option" where
  "sk_nulls_del_node_init_rcu sk s = do {
     k \<leftarrow> socks s sk;
     case sk_node k of
       Unhashed \<Rightarrow> Some (False, s)
     | In_ehash slot \<Rightarrow>
         if slot < length (ehash s) then do {
           let b = ehash s ! slot;
           s1 \<leftarrow> upd_sock sk (\<lambda>k. k\<lparr>sk_node := Unhashed\<rparr>)
                  (s\<lparr>ehash := (ehash s)[slot := b\<lparr>ehchain := remove1 sk (ehchain b)\<rparr>]\<rparr>);
           Some (True, s1) }
         else None
     | In_listening h \<Rightarrow>
         if h < length (listening_hash s) then do {
           s1 \<leftarrow> upd_sock sk (\<lambda>k. k\<lparr>sk_node := Unhashed\<rparr>)
                  (s\<lparr>listening_hash := (listening_hash s)[h := remove1 sk (listening_hash s ! h)]\<rparr>);
           Some (True, s1) }
         else None }"

definition inet_check_established ::
    "henv \<Rightarrow> ptr \<Rightarrow> u16 \<Rightarrow> bool \<Rightarrow> inet_hashinfo \<Rightarrow> (int \<times> ptr \<times> inet_hashinfo) option" where
  "inet_check_established E sk lport twp s = do {
     k \<leftarrow> socks s sk;
     let daddr = inet_rcv_saddr k;
     let saddr = inet_daddr k;
     let dif = sk_bound_dev_if k;
     let acookie = INET_ADDR_COOKIE saddr daddr;
     let ports = INET_COMBINED_PORTS (inet_dport k) lport;
     let net = sk_net k;
     let hash = inet_ehashfn E net daddr lport saddr (inet_dport k);
     let slot = inet_ehash_slot s hash;
     if length (ehash s) \<le> slot then None
     else do {
       let head = ehash s ! slot;
       tw \<leftarrow> find_tw net hash acookie ports dif (twchain head) s;
       ok \<leftarrow> (if tw \<noteq> NULL then do { w \<leftarrow> twsks s tw; Some (twsk_unique E k w twp) }
             else do { sk2 \<leftarrow> find_ehash net hash acookie ports dif (ehchain head) s; Some (sk2 = NULL) });
       if \<not> ok then Some (- EADDRNOTAVAIL, NULL, s)
       else do {
         s1 \<leftarrow> upd_sock sk (\<lambda>k. k\<lparr>inet_num := lport, inet_sport := htons E lport, sk_hash := hash\<rparr>) s;
         s2 \<leftarrow> sk_nulls_add_ehash sk slot s1;
         let (twrefcnt, s3) = (if tw \<noteq> NULL then inet_twsk_unhash E tw s2 else (0, s2));
         let s4 = (if twrefcnt \<noteq> 0 then inet_twsk_put E tw s3 else s3);
         let s5 = s4\<lparr>prot_inuse := prot_inuse s4 + 1\<rparr>;
         if twp then Some (0, tw, s5)
         else if tw \<noteq> NULL then Some (0, NULL, inet_twsk_put E tw (inet_twsk_deschedule E tw s5))
         else Some (0, NULL, s5) } } }"

definition inet_hash_nolisten :: "henv \<Rightarrow> ptr \<Rightarrow> ptr \<Rightarrow> inet_hashinfo \<Rightarrow> (int \<times> inet_hashinfo) option" where
  "inet_hash_nolisten E sk tw s = do {
     k \<leftarrow> socks s sk;
     let hash = inet_sk_ehashfn E k;
     s1 \<leftarrow> upd_sock sk (\<lambda>k. k\<lparr>sk_hash := hash\<rparr>) s;
     s2 \<leftarrow> sk_nulls_add_ehash sk (inet_ehash_slot s1 hash) s1;
     let (twrefcnt, s3) = (if tw \<noteq> NULL then inet_twsk_unhash E tw s2 else (0, s2));
     Some (twrefcnt, s3\<lparr>prot_inuse := prot_inuse s3 + 1\<rparr>) }"

definition inet_hash :: "henv \<Rightarrow> ptr \<Rightarrow> inet_hashinfo \<Rightarrow> inet_hashinfo option" where
  "inet_hash E sk s = do {
     k \<leftarrow> socks s sk;
     if sk_state k = TCP_CLOSE then Some s
     else if sk_state k \<noteq> TCP_LISTEN then do { (_, s1) \<leftarrow> inet_hash_nolisten E sk NULL s; Some s1 }
     else do {
       s1 \<leftarrow> sk_nulls_add_listening sk (unat (inet_sk_listen_hashfn E k)) s;
       Some (s1\<lparr>prot_inuse := prot_inuse s1 + 1\<rparr>) } }"

definition inet_unhash :: "ptr \<Rightarrow> inet_hashinfo \<Rightarrow> inet_hashinfo option" where
  "inet_unhash sk s = do {
     k \<leftarrow> socks s sk;
     if sk_unhashed k then Some s
     else do {
       (d, s1) \<leftarrow> sk_nulls_del_node_init_rcu sk s;
       Some (if d then s1\<lparr>prot_inuse := prot_inuse s1 - 1\<rparr> else s1) } }"

definition inet_hashinfo_init :: "inet_hashinfo \<Rightarrow> inet_hashinfo" where
  "inet_hashinfo_init s =
     s\<lparr>bsockets := 0, listening_hash := replicate (unat INET_LHTABLE_SIZE) []\<rparr>"

section \<open>Binding to a port\<close>

text \<open>
  The owners of a bucket are sockets and time-wait sockets; the test for a conflict reads the
  part that both have in common (\<open>struct sock_common\<close>).
\<close>

record sock_common =
  skc_reuse :: bool
  skc_state :: tcp_state
  skc_bound_dev_if :: int
  skc_rcv_saddr :: be32

definition owner_common :: "inet_hashinfo \<Rightarrow> ptr \<Rightarrow> sock_common option" where
  "owner_common s p =
     (case socks s p of
        Some k \<Rightarrow> Some \<lparr>skc_reuse = sk_reuse k, skc_state = sk_state k,
                        skc_bound_dev_if = sk_bound_dev_if k, skc_rcv_saddr = inet_rcv_saddr k\<rparr>
      | None \<Rightarrow> map_option (\<lambda>w. \<lparr>skc_reuse = tw_reuse w, skc_state = TCP_TIME_WAIT,
                        skc_bound_dev_if = tw_bound_dev_if w, skc_rcv_saddr = tw_rcv_saddr w\<rparr>)
                  (twsks s p))"

definition socks_conflict :: "hsock \<Rightarrow> sock_common \<Rightarrow> bool" where
  "socks_conflict k c \<longleftrightarrow>
     (sk_bound_dev_if k = 0 \<or> skc_bound_dev_if c = 0 \<or> sk_bound_dev_if k = skc_bound_dev_if c) \<and>
     (\<not> sk_reuse k \<or> \<not> skc_reuse c \<or> skc_state c = TCP_LISTEN) \<and>
     (skc_rcv_saddr c = 0 \<or> inet_rcv_saddr k = 0 \<or> skc_rcv_saddr c = inet_rcv_saddr k)"

fun conflict_walk :: "ptr \<Rightarrow> hsock \<Rightarrow> ptr list \<Rightarrow> inet_hashinfo \<Rightarrow> bool option" where
  "conflict_walk sk k [] s = Some False"
| "conflict_walk sk k (sk2 # rest) s = do {
     c \<leftarrow> owner_common s sk2;
     if sk \<noteq> sk2 \<and> socks_conflict k c then Some True else conflict_walk sk k rest s }"

definition inet_csk_bind_conflict :: "ptr \<Rightarrow> ptr \<Rightarrow> inet_hashinfo \<Rightarrow> bool option" where
  "inet_csk_bind_conflict sk tb s = do {
     k \<leftarrow> socks s sk;
     t \<leftarrow> tbs s tb;
     conflict_walk sk k (owners t) s }"

text \<open>
  The search for a free port: it ends at a port without bucket (\<open>Free\<close>), at a shareable one when
  more sockets are bound than there are ports (\<open>Share\<close>), or after all ports (\<open>Exhausted\<close>, with
  the least used shareable port or -1).
\<close>

datatype port_search = Free int | Share int int | Exhausted int int

fun search_ports ::
    "henv \<Rightarrow> hsock \<Rightarrow> int \<Rightarrow> int \<Rightarrow> nat \<Rightarrow> int \<Rightarrow> int \<Rightarrow> int \<Rightarrow> inet_hashinfo \<Rightarrow> port_search option" where
  "search_ports E k low high 0 rover smallest_size smallest_rover s =
     Some (Exhausted smallest_size smallest_rover)"
| "search_ports E k low high (Suc remaining) rover smallest_size smallest_rover s =
     (let rover1 = (if high < rover + 1 then low else rover + 1)
      in if inet_is_reserved_local_port E rover
         then search_ports E k low high remaining rover1 smallest_size smallest_rover s
         else do {
           chain \<leftarrow> bhash_chain s (unat (inet_bhashfn E (sk_net k) (of_int rover) (bhash_size s)));
           tb \<leftarrow> find_tb (sk_net k) rover chain s;
           if tb = NULL then Some (Free rover)
           else do {
             t \<leftarrow> tbs s tb;
             if 0 < fastreuse t \<and> sk_reuse k \<and> sk_state k \<noteq> TCP_LISTEN \<and>
                (num_owners t < smallest_size \<or> smallest_size = - 1)
             then if high - low + 1 < bsockets s then Some (Share (num_owners t) rover)
                  else search_ports E k low high remaining rover1 (num_owners t) rover s
             else search_ports E k low high remaining rover1 smallest_size smallest_rover s } })"

definition inet_get_local_port_range :: "henv \<Rightarrow> int \<times> int" where
  "inet_get_local_port_range E = local_ports_range E"

text \<open>From \<open>success\<close> on: the socket is added to the bucket unless it already has one.\<close>

definition get_port_success :: "ptr \<Rightarrow> ptr \<Rightarrow> u16 \<Rightarrow> inet_hashinfo \<Rightarrow> (int \<times> inet_hashinfo) option" where
  "get_port_success sk tb snum s = do {
     k \<leftarrow> socks s sk;
     s1 \<leftarrow> (if icsk_bind_hash k = NULL then inet_bind_hash sk tb snum s else Some s);
     Some (0, s1) }"

text \<open>From \<open>tb_not_found\<close> on: the bucket is created where there is none, its sharing flag updated.\<close>

definition get_port_bind ::
    "henv \<Rightarrow> ptr \<Rightarrow> ptr \<Rightarrow> ptr \<Rightarrow> u16 \<Rightarrow> inet_hashinfo \<Rightarrow> (int \<times> inet_hashinfo) option" where
  "get_port_bind E new_tb sk tb0 snum s = do {
     k \<leftarrow> socks s sk;
     (tb, s1) \<leftarrow> (if tb0 = NULL
                 then inet_bind_bucket_create new_tb (sk_net k)
                        (unat (inet_bhashfn E (sk_net k) snum (bhash_size s))) snum s
                 else Some (tb0, s));
     if tb = NULL then Some (1, s1)
     else do {
       t \<leftarrow> tbs s1 tb;
       s2 \<leftarrow> upd_tb tb (\<lambda>t. if owners t = []
                             then t\<lparr>fastreuse := (if sk_reuse k \<and> sk_state k \<noteq> TCP_LISTEN then 1 else 0)\<rparr>
                             else if fastreuse t \<noteq> 0 \<and> (\<not> sk_reuse k \<or> sk_state k = TCP_LISTEN)
                             then t\<lparr>fastreuse := 0\<rparr> else t) s1;
       get_port_success sk tb snum s2 } }"

text \<open>
  From \<open>have_snum\<close> on, for a port that was asked for (\<open>smallest_size\<close> is -1) or picked for
  sharing; \<^term>\<open>None\<close> in the sum asks for another search.
\<close>

definition get_port_have ::
    "henv \<Rightarrow> ptr \<Rightarrow> ptr \<Rightarrow> u16 \<Rightarrow> int \<Rightarrow> bool \<Rightarrow> inet_hashinfo \<Rightarrow> (int \<times> inet_hashinfo) option option" where
  "get_port_have E new_tb sk snum smallest_size may_retry s = do {
     k \<leftarrow> socks s sk;
     chain \<leftarrow> bhash_chain s (unat (inet_bhashfn E (sk_net k) snum (bhash_size s)));
     tb \<leftarrow> find_tb (sk_net k) (uint snum) chain s;
     if tb = NULL then do { r \<leftarrow> get_port_bind E new_tb sk NULL snum s; Some (Some r) }
     else do {
       t \<leftarrow> tbs s tb;
       if owners t \<noteq> [] then
         if 0 < fastreuse t \<and> sk_reuse k \<and> sk_state k \<noteq> TCP_LISTEN \<and> smallest_size = - 1
         then do { r \<leftarrow> get_port_success sk tb snum s; Some (Some r) }
         else do {
           conflict \<leftarrow> inet_csk_bind_conflict sk tb s;
           if conflict then
             if sk_reuse k \<and> sk_state k \<noteq> TCP_LISTEN \<and> smallest_size \<noteq> - 1 \<and> may_retry
             then Some None else Some (Some (1, s))
           else do { r \<leftarrow> get_port_bind E new_tb sk tb snum s; Some (Some r) } }
       else do { r \<leftarrow> get_port_bind E new_tb sk tb snum s; Some (Some r) } } }"

text \<open>
  From \<open>again\<close> on, with the number of attempts left. The setting of the range keeps its ends in
  order; on an empty range the code divides by zero.
\<close>

fun get_port_again ::
    "henv \<Rightarrow> ptr \<Rightarrow> ptr \<Rightarrow> nat \<Rightarrow> inet_hashinfo \<Rightarrow> (int \<times> inet_hashinfo) option" where
  "get_port_again E new_tb sk attempts s = do {
     k \<leftarrow> socks s sk;
     let (low, high) = inet_get_local_port_range E;
     let remaining = high - low + 1;
     if remaining \<le> 0 then None
     else do {
       let rover = uint (net_random E attempts) mod remaining + low;
       r \<leftarrow> search_ports E k low high (nat remaining) rover (- 1) rover s;
       let have = (\<lambda>smallest_size snum. do {
         res \<leftarrow> get_port_have E new_tb sk snum smallest_size (0 < attempts) s;
         case res of
           Some x \<Rightarrow> Some x
         | None \<Rightarrow> (case attempts of 0 \<Rightarrow> None | Suc n \<Rightarrow> get_port_again E new_tb sk n s) });
       case r of
         Free p \<Rightarrow> get_port_bind E new_tb sk NULL (of_int p) s
       | Share sz p \<Rightarrow> have sz (of_int p)
       | Exhausted sz p \<Rightarrow> if sz \<noteq> - 1 then have sz (of_int p) else Some (1, s) } }"

definition inet_csk_get_port ::
    "henv \<Rightarrow> ptr \<Rightarrow> ptr \<Rightarrow> u16 \<Rightarrow> inet_hashinfo \<Rightarrow> (int \<times> inet_hashinfo) option" where
  "inet_csk_get_port E new_tb sk snum s =
     (if snum = 0 then get_port_again E new_tb sk 5 s
      else do {
        res \<leftarrow> get_port_have E new_tb sk snum (- 1) True s;
        res })"

section \<open>Connecting\<close>

text \<open>
  \<open>sk_head\<close> takes the address of the first node on a list back to the socket that contains it as
  its main hash node. The owners of a bucket are linked by their bind nodes instead, which
  lie in front of the main node: by 32 bytes, the sizes of the bind node, the protocol and
  the namespace pointer.
\<close>

definition node_offset :: nat where "node_offset = 16 + 8 + 8"

definition owners_sk_head :: "ptr list \<Rightarrow> ptr" where
  "owners_sk_head os = (case os of [] \<Rightarrow> NULL | x # _ \<Rightarrow> x - node_offset)"

text \<open>The loop over the ephemeral ports: the bucket found or created, the port and the count.\<close>

fun connect_ports ::
    "henv \<Rightarrow> ptr \<Rightarrow> ptr \<Rightarrow> nat \<Rightarrow> u32 \<Rightarrow> int \<Rightarrow> int \<Rightarrow> nat \<Rightarrow> nat \<Rightarrow> inet_hashinfo \<Rightarrow>
     ((ptr \<times> u16 \<times> ptr \<times> nat) option \<times> inet_hashinfo) option" where
  "connect_ports E new_tb sk net offset low remaining 0 i s = Some (None, s)"
| "connect_ports E new_tb sk net offset low remaining (Suc n) i s =
     (let prt = low + uint ((of_nat i + offset) mod of_int remaining :: u32)
      in if inet_is_reserved_local_port E prt
         then connect_ports E new_tb sk net offset low remaining n (Suc i) s
         else do {
           let h = unat (inet_bhashfn E net (of_int prt) (bhash_size s));
           chain \<leftarrow> bhash_chain s h;
           tb \<leftarrow> find_tb net prt chain s;
           if tb \<noteq> NULL then do {
             t \<leftarrow> tbs s tb;
             if 0 \<le> fastreuse t then connect_ports E new_tb sk net offset low remaining n (Suc i) s
             else do {
               (err, tw, s1) \<leftarrow> inet_check_established E sk (of_int prt) True s;
               if err = 0 then Some (Some (tb, of_int prt, tw, i), s1)
               else connect_ports E new_tb sk net offset low remaining n (Suc i) s1 } }
           else do {
             (tb1, s1) \<leftarrow> inet_bind_bucket_create new_tb net h (of_int prt) s;
             if tb1 = NULL then Some (None, s1)
             else do {
               s2 \<leftarrow> upd_tb tb1 (\<lambda>t. t\<lparr>fastreuse := - 1\<rparr>) s1;
               Some (Some (tb1, of_int prt, NULL, i), s2) } } })"

fun twsk_puts :: "henv \<Rightarrow> ptr \<Rightarrow> nat \<Rightarrow> inet_hashinfo \<Rightarrow> inet_hashinfo" where
  "twsk_puts E tw 0 s = s"
| "twsk_puts E tw (Suc n) s = twsk_puts E tw n (inet_twsk_put E tw s)"

definition hash_connect_ok ::
    "henv \<Rightarrow> ptr \<Rightarrow> ptr \<Rightarrow> u16 \<Rightarrow> ptr \<Rightarrow> nat \<Rightarrow> inet_hashinfo \<Rightarrow> (int \<times> inet_hashinfo) option" where
  "hash_connect_ok E sk tb prt tw i s = do {
     s1 \<leftarrow> inet_bind_hash sk tb prt (s\<lparr>connect_hint := connect_hint s + of_nat i\<rparr>);
     k \<leftarrow> socks s1 sk;
     (n1, s2) \<leftarrow> (if sk_unhashed k then do {
                    s2 \<leftarrow> upd_sock sk (\<lambda>k. k\<lparr>inet_sport := htons E prt\<rparr>) s1;
                    (r, s3) \<leftarrow> inet_hash_nolisten E sk tw s2;
                    Some (1 + r, s3) }
                  else Some (1, s1));
     if tw \<noteq> NULL then
       (let (r, s3) = inet_twsk_bind_unhash E tw s2
        in Some (0, twsk_puts E tw (nat (n1 + r)) (inet_twsk_deschedule E tw s3)))
     else Some (0, s2) }"

definition inet_hash_connect :: "henv \<Rightarrow> ptr \<Rightarrow> ptr \<Rightarrow> inet_hashinfo \<Rightarrow> (int \<times> inet_hashinfo) option" where
  "inet_hash_connect E new_tb sk s = do {
     k \<leftarrow> socks s sk;
     let port_offset = secure_ipv4_port_ephemeral E (inet_rcv_saddr k) (inet_daddr k) (inet_dport k);
     let snum = inet_num k;
     if snum = 0 then do {
       let offset = connect_hint s + port_offset;
       let (low, high) = inet_get_local_port_range E;
       let remaining = high - low + 1;
       (r, s1) \<leftarrow> connect_ports E new_tb sk (sk_net k) offset low remaining (nat remaining) 1 s;
       case r of
         None \<Rightarrow> Some (- EADDRNOTAVAIL, s1)
       | Some (tb, prt, tw, i) \<Rightarrow> hash_connect_ok E sk tb prt tw i s1 }
     else do {
       t \<leftarrow> tbs s (icsk_bind_hash k);
       if owners_sk_head (owners t) = sk \<and> last (owners t) = sk
       then do { (_, s1) \<leftarrow> inet_hash_nolisten E sk NULL s; Some (0, s1) }
       else do { (err, _, s1) \<leftarrow> inet_check_established E sk snum False s; Some (err, s1) } } }"

end
