(* ===== verification/Inet_Hash_Correct.thy ===== *)
theory Inet_Hash_Correct
  imports Inet_Hash
begin

text \<open>
  Correctness of the hash tables. The packed comparisons are shown equal to comparisons by
  component; \<open>bhash_ok\<close> and \<open>owners_ok\<close> are the invariants of the bind table, \<open>ehash_ok\<close> that of the
  established and listening tables. The locale \<open>port_map\<close> is the contract of the bind table
  as a map from namespace and port to buckets.
\<close>

section \<open>Packed comparisons\<close>

lemma bit_COOKIE:
  "bit (INET_ADDR_COOKIE a b) n \<longleftrightarrow> (if n < 32 then bit a n else n < 64 \<and> bit b (n - 32))"
  by (auto simp: INET_ADDR_COOKIE_def bit_or_iff bit_push_bit_iff bit_ucast_iff dest: bit_imp_le_length)

lemma bit_PORTS:
  "bit (INET_COMBINED_PORTS a b) n \<longleftrightarrow> (if n < 16 then bit a n else n < 32 \<and> bit b (n - 16))"
  by (auto simp: INET_COMBINED_PORTS_def bit_or_iff bit_push_bit_iff bit_ucast_iff dest: bit_imp_le_length)

lemma COOKIE_eq_iff: "INET_ADDR_COOKIE a b = INET_ADDR_COOKIE c d \<longleftrightarrow> a = c \<and> b = d"
proof
  assume eq: "INET_ADDR_COOKIE a b = INET_ADDR_COOKIE c d"
  have "bit a n = bit c n" if "n < 32" for n
    using arg_cong [OF eq, of "\<lambda>w. bit w n"] that by (simp add: bit_COOKIE)
  moreover have "bit b n = bit d n" if "n < 32" for n
    using arg_cong [OF eq, of "\<lambda>w. bit w (n + 32)"] that by (simp add: bit_COOKIE)
  ultimately show "a = c \<and> b = d" by (intro conjI bit_word_eqI) simp_all
qed simp

lemma PORTS_eq_iff: "INET_COMBINED_PORTS a b = INET_COMBINED_PORTS c d \<longleftrightarrow> a = c \<and> b = d"
proof
  assume eq: "INET_COMBINED_PORTS a b = INET_COMBINED_PORTS c d"
  have "bit a n = bit c n" if "n < 16" for n
    using arg_cong [OF eq, of "\<lambda>w. bit w n"] that by (simp add: bit_PORTS)
  moreover have "bit b n = bit d n" if "n < 16" for n
    using arg_cong [OF eq, of "\<lambda>w. bit w (n + 16)"] that by (simp add: bit_PORTS)
  ultimately show "a = c \<and> b = d" by (intro conjI bit_word_eqI) simp_all
qed simp

lemma INET_MATCH_iff:
  "INET_MATCH k net hash (INET_ADDR_COOKIE saddr daddr) (INET_COMBINED_PORTS sport hnum) dif \<longleftrightarrow>
     sk_hash k = hash \<and> sk_net k = net \<and> inet_daddr k = saddr \<and> inet_rcv_saddr k = daddr \<and>
     inet_dport k = sport \<and> inet_num k = hnum \<and> (sk_bound_dev_if k = 0 \<or> sk_bound_dev_if k = dif)"
  by (auto simp: INET_MATCH_def COOKIE_eq_iff PORTS_eq_iff)

lemma INET_TW_MATCH_iff:
  "INET_TW_MATCH w net hash (INET_ADDR_COOKIE saddr daddr) (INET_COMBINED_PORTS sport hnum) dif \<longleftrightarrow>
     tw_hash w = hash \<and> tw_net w = net \<and> tw_daddr w = saddr \<and> tw_rcv_saddr w = daddr \<and>
     tw_dport w = sport \<and> tw_num w = hnum \<and> (tw_bound_dev_if w = 0 \<or> tw_bound_dev_if w = dif)"
  by (auto simp: INET_TW_MATCH_def COOKIE_eq_iff PORTS_eq_iff)

section \<open>The bind table as a map\<close>

type_synonym port_key = "nat \<times> u16"

definition tb_key :: "inet_bind_bucket \<Rightarrow> port_key" where
  "tb_key t = (ib_net t, port t)"

definition key_slot :: "henv \<Rightarrow> inet_hashinfo \<Rightarrow> port_key \<Rightarrow> nat" where
  "key_slot E s key = unat (inet_bhashfn E (fst key) (snd key) (bhash_size s))"

definition lookup_port :: "henv \<Rightarrow> port_key \<Rightarrow> inet_hashinfo \<Rightarrow> ptr option" where
  "lookup_port E key s = do {
     chain \<leftarrow> bhash_chain s (key_slot E s key);
     find_tb (fst key) (uint (snd key)) chain s }"

definition bhash_ok :: "henv \<Rightarrow> inet_hashinfo \<Rightarrow> bool" where
  "bhash_ok E s \<longleftrightarrow>
     0 < unat (bhash_size s) \<and> length (bhash s) = unat (bhash_size s) \<and>
     distinct (concat (bhash s)) \<and> set (concat (bhash s)) = dom (tbs s) \<and> NULL \<notin> dom (tbs s) \<and>
     (\<forall>tb t. tbs s tb = Some t \<longrightarrow> tb \<in> set (bhash s ! key_slot E s (tb_key t))) \<and>
     (\<forall>tb t tb' t'. tbs s tb = Some t \<longrightarrow> tbs s tb' = Some t' \<longrightarrow> tb_key t = tb_key t' \<longrightarrow> tb = tb')"

lemma bhash_okI:
  assumes "0 < unat (bhash_size s)" "length (bhash s) = unat (bhash_size s)"
    "distinct (concat (bhash s))" "set (concat (bhash s)) = dom (tbs s)" "NULL \<notin> dom (tbs s)"
    "\<And>tb t. tbs s tb = Some t \<Longrightarrow> tb \<in> set (bhash s ! key_slot E s (tb_key t))"
    "\<And>tb t tb' t'. tbs s tb = Some t \<Longrightarrow> tbs s tb' = Some t' \<Longrightarrow> tb_key t = tb_key t' \<Longrightarrow> tb = tb'"
  shows "bhash_ok E s"
  unfolding bhash_ok_def by (intro conjI allI impI assms)

lemma bhash_okD:
  assumes "bhash_ok E s"
  shows "0 < unat (bhash_size s)" "length (bhash s) = unat (bhash_size s)"
    "distinct (concat (bhash s))" "set (concat (bhash s)) = dom (tbs s)" "NULL \<notin> dom (tbs s)"
    "tbs s tb = Some t \<Longrightarrow> tb \<in> set (bhash s ! key_slot E s (tb_key t))"
    "tbs s tb = Some t \<Longrightarrow> tbs s tb' = Some t' \<Longrightarrow> tb_key t = tb_key t' \<Longrightarrow> tb = tb'"
  using assms unfolding bhash_ok_def by (simp_all del: set_concat)

lemma key_slot_less: "bhash_ok E s \<Longrightarrow> key_slot E s key < length (bhash s)"
  unfolding bhash_ok_def key_slot_def inet_bhashfn_def using unat_and_mask_less by metis

lemma find_tb_spec:
  assumes "\<forall>tb \<in> set chain. tb \<noteq> NULL \<and> tbs s tb \<noteq> None"
  shows "\<exists>tb. find_tb net (uint p) chain s = Some tb \<and>
    (if tb = NULL then \<forall>tb \<in> set chain. \<forall>t. tbs s tb = Some t \<longrightarrow> tb_key t \<noteq> (net, p)
     else tb \<in> set chain \<and> (\<exists>t. tbs s tb = Some t \<and> tb_key t = (net, p)))"
  using assms
proof (induction chain)
  case (Cons x chain)
  then obtain t where t: "tbs s x = Some t" by auto
  show ?case
  proof (cases "tb_key t = (net, p)")
    case True
    with t Cons.prems show ?thesis by (auto simp: tb_key_def)
  next
    case False
    with t have "find_tb net (uint p) (x # chain) s = find_tb net (uint p) chain s"
      by (auto simp: tb_key_def word_uint_eq_iff)
    with Cons t False show ?thesis by fastforce
  qed
qed simp

lemma slot_members:
  assumes "bhash_ok E s" "i < length (bhash s)" "tb \<in> set (bhash s ! i)"
  shows "tb \<noteq> NULL \<and> tbs s tb \<noteq> None"
proof -
  have "tb \<in> set (concat (bhash s))" using assms(2,3) by auto
  then show ?thesis using assms(1) unfolding bhash_ok_def by auto
qed

lemma lookup_port_spec:
  assumes ok: "bhash_ok E s"
  shows "\<exists>tb. lookup_port E key s = Some tb \<and>
    (if tb = NULL then \<forall>tb t. tbs s tb = Some t \<longrightarrow> tb_key t \<noteq> key
     else \<exists>t. tbs s tb = Some t \<and> tb_key t = key)"
proof -
  obtain net p where key: "key = (net, p)" by force
  let ?h = "key_slot E s key"
  note h = key_slot_less [OF ok, of key]
  from find_tb_spec [of "bhash s ! ?h" s net p] slot_members [OF ok h] obtain tb
    where tb: "find_tb net (uint p) (bhash s ! ?h) s = Some tb"
      and c: "if tb = NULL then \<forall>tb \<in> set (bhash s ! ?h). \<forall>t. tbs s tb = Some t \<longrightarrow> tb_key t \<noteq> (net, p)
        else tb \<in> set (bhash s ! ?h) \<and> (\<exists>t. tbs s tb = Some t \<and> tb_key t = (net, p))" by blast
  have "lookup_port E key s = Some tb"
    using tb h by (simp add: lookup_port_def bhash_chain_def key)
  moreover have "tb_key t \<noteq> key" if "tb = NULL" "tbs s tb' = Some t" for tb' t
    using c that ok key unfolding bhash_ok_def by metis
  ultimately show ?thesis using c key by metis
qed

lemma lookup_port_iff:
  assumes "bhash_ok E s" "tb \<noteq> NULL"
  shows "lookup_port E key s = Some tb \<longleftrightarrow> (\<exists>t. tbs s tb = Some t \<and> tb_key t = key)"
  using lookup_port_spec [OF assms(1), of key] assms unfolding bhash_ok_def
  by (metis option.inject)

lemma lookup_port_NULL_iff:
  assumes "bhash_ok E s"
  shows "lookup_port E key s = Some NULL \<longleftrightarrow> (\<forall>tb t. tbs s tb = Some t \<longrightarrow> tb_key t \<noteq> key)"
  using lookup_port_spec [OF assms, of key] by (metis option.inject)


text \<open>Changing a bucket without touching its key keeps the table.\<close>

lemma bhash_ok_cong:
  assumes ok: "bhash_ok E s" and eq: "bhash s' = bhash s" "bhash_size s' = bhash_size s"
    and keys: "\<And>tb. map_option tb_key (tbs s' tb) = map_option tb_key (tbs s tb)"
  shows "bhash_ok E s'"
proof -
  have d: "dom (tbs s') = dom (tbs s)"
  proof (rule set_eqI)
    show "tb \<in> dom (tbs s') \<longleftrightarrow> tb \<in> dom (tbs s)" for tb
      using keys [of tb] by (cases "tbs s tb"; cases "tbs s' tb") auto
  qed
  have k: "\<exists>t0. tbs s tb = Some t0 \<and> tb_key t0 = tb_key t" if "tbs s' tb = Some t" for tb t
    using keys [of tb] that by (cases "tbs s tb") auto
  have slot: "key_slot E s' key = key_slot E s key" for key by (simp add: key_slot_def eq)
  show ?thesis
  proof (rule bhash_okI, unfold eq d slot)
    show "tb \<in> set (bhash s ! key_slot E s (tb_key t))" if "tbs s' tb = Some t" for tb t
      using k [OF that] bhash_okD(6) [OF ok] by metis
    show "tb = tb'" if "tbs s' tb = Some t" "tbs s' tb' = Some t'" "tb_key t = tb_key t'" for tb t tb' t'
      using k [OF that(1)] k [OF that(2)] that(3) bhash_okD(7) [OF ok] by metis
  qed (fact bhash_okD(1-5) [OF ok])+
qed

lemma bucket_create_spec:
  assumes ok: "bhash_ok E s" and new: "n \<noteq> NULL" "tbs s n = None"
    and free: "lookup_port E (net, p) s = Some NULL"
  defines "h \<equiv> unat (inet_bhashfn E net p (bhash_size s))"
  defines "s' \<equiv> s\<lparr>tbs := (tbs s)(n \<mapsto> \<lparr>ib_net = net, port = p, fastreuse = 0, num_owners = 0, owners = []\<rparr>),
                  bhash := (bhash s)[h := n # bhash s ! h]\<rparr>"
  shows "inet_bind_bucket_create n net h p s = Some (n, s')" "bhash_ok E s'"
proof -
  have h: "h < length (bhash s)" using key_slot_less [OF ok, of "(net, p)"] by (simp add: h_def key_slot_def)
  then show "inet_bind_bucket_create n net h p s = Some (n, s')"
    using new by (simp add: inet_bind_bucket_create_def s'_def)
  have slot: "key_slot E s' key = key_slot E s key" for key by (simp add: key_slot_def s'_def)
  define t0 where "t0 = \<lparr>ib_net = net, port = p, fastreuse = 0, num_owners = 0, owners = []\<rparr>"
  have s': "tbs s' = (tbs s)(n \<mapsto> t0)" "bhash s' = (bhash s)[h := n # bhash s ! h]"
    "bhash_size s' = bhash_size s" by (simp_all add: s'_def t0_def)
  have key_n: "tb_key t0 = (net, p)" "key_slot E s (net, p) = h"
    by (simp_all add: tb_key_def t0_def key_slot_def h_def)
  have nin: "n \<notin> set (concat (bhash s))"
    unfolding bhash_okD(4) [OF ok] using new(2) by (simp add: domIff)
  have fresh: "tb_key t \<noteq> (net, p)" if "tbs s tb = Some t" for tb t
    using free that unfolding lookup_port_NULL_iff [OF ok] by blast
  show "bhash_ok E s'"
  proof (rule bhash_okI, unfold slot)
    show "tb \<in> set (bhash s' ! key_slot E s (tb_key t))" if "tbs s' tb = Some t" for tb t
    proof (cases "tb = n")
      case True
      with that have "t = t0" by (simp add: s')
      with True h key_n show ?thesis by (simp add: s')
    next
      case False
      with that have "tb \<in> set (bhash s ! key_slot E s (tb_key t))"
        using bhash_okD(6) [OF ok] by (simp add: s')
      then show ?thesis using h by (cases "key_slot E s (tb_key t) = h") (simp_all add: s')
    qed
    show "tb = tb'" if "tbs s' tb = Some t" "tbs s' tb' = Some t'" "tb_key t = tb_key t'" for tb t tb' t'
      using that fresh [of tb t] fresh [of tb' t'] key_n(1) bhash_okD(7) [OF ok, of tb t tb' t']
      by (auto simp: s' split: if_splits)
    show "distinct (concat (bhash s'))" "set (concat (bhash s')) = dom (tbs s')"
      using concat_cons [OF h, of n] nin bhash_okD(3,4) [OF ok] by (simp_all add: s' del: set_concat)
    show "NULL \<notin> dom (tbs s')" using bhash_okD(5) [OF ok] new by (simp add: s')
  qed (use bhash_okD(1,2) [OF ok] in \<open>simp_all add: s'\<close>)
qed

text \<open>Removing an unused bucket.\<close>

lemma bucket_destroy_spec:
  assumes ok: "bhash_ok E s" and t: "tbs s tb = Some t" "owners t = []"
  defines "s' \<equiv> s\<lparr>bhash := map (remove1 tb) (bhash s), tbs := (tbs s)(tb := None)\<rparr>"
  shows "inet_bind_bucket_destroy E tb s = Some s'" "bhash_ok E s'"
proof -
  show "inet_bind_bucket_destroy E tb s = Some s'"
    using t by (simp add: inet_bind_bucket_destroy_def s'_def)
  have s': "tbs s' = (tbs s)(tb := None)" "bhash s' = map (remove1 tb) (bhash s)"
    "bhash_size s' = bhash_size s" by (simp_all add: s'_def)
  have slot: "key_slot E s' key = key_slot E s key" for key by (simp add: key_slot_def s'_def)
  show "bhash_ok E s'"
  proof (rule bhash_okI, unfold slot)
    show "x \<in> set (bhash s' ! key_slot E s (tb_key u))" if "tbs s' x = Some u" for x u
    proof -
      from that have "x \<noteq> tb" "tbs s x = Some u" by (auto simp: s' split: if_splits)
      then show ?thesis
        using bhash_okD(6) [OF ok, of x u] key_slot_less [OF ok, of "tb_key u"] by (simp add: s')
    qed
    show "x = x'" if "tbs s' x = Some u" "tbs s' x' = Some u'" "tb_key u = tb_key u'" for x u x' u'
      using that bhash_okD(7) [OF ok, of x u x' u'] by (simp add: s' split: if_splits)
    show "distinct (concat (bhash s'))" "set (concat (bhash s')) = dom (tbs s')"
      using concat_remove1 [OF bhash_okD(3) [OF ok], of tb] bhash_okD(4) [OF ok]
      by (simp_all add: s' del: set_concat)
    show "NULL \<notin> dom (tbs s')" using bhash_okD(5) [OF ok] by (simp add: s')
  qed (use bhash_okD(1,2) [OF ok] in \<open>simp_all add: s'\<close>)
qed


section \<open>The contract of the bind table\<close>

locale port_map =
  fixes inv :: "'s \<Rightarrow> bool"
    and lookup :: "'k \<Rightarrow> 's \<Rightarrow> ptr option"
    and fresh :: "ptr \<Rightarrow> 's \<Rightarrow> bool"
    and idle :: "ptr \<Rightarrow> 's \<Rightarrow> bool"
    and create :: "ptr \<Rightarrow> 'k \<Rightarrow> 's \<Rightarrow> 's option"
    and destroy :: "ptr \<Rightarrow> 's \<Rightarrow> 's option"
  assumes lookup_total: "inv s \<Longrightarrow> lookup k s \<noteq> None"
    and fresh_law: "fresh n s \<Longrightarrow> n \<noteq> NULL"
    and create_law: "inv s \<Longrightarrow> lookup k s = Some NULL \<Longrightarrow> fresh n s \<Longrightarrow>
      \<exists>s'. create n k s = Some s' \<and> inv s' \<and> idle n s' \<and>
           (\<forall>m. fresh m s \<longrightarrow> m \<noteq> n \<longrightarrow> fresh m s') \<and>
           (\<forall>k'. lookup k' s' = (if k' = k then Some n else lookup k' s))"
    and destroy_law: "inv s \<Longrightarrow> lookup k s = Some tb \<Longrightarrow> tb \<noteq> NULL \<Longrightarrow> idle tb s \<Longrightarrow>
      \<exists>s'. destroy tb s = Some s' \<and> inv s' \<and>
           (\<forall>k'. lookup k' s' = (if k' = k then Some NULL else lookup k' s))"
begin

lemma create_destroy:
  assumes "inv s" "lookup k s = Some NULL" "fresh n s"
  shows "\<exists>s1 s2. create n k s = Some s1 \<and> destroy n s1 = Some s2 \<and> inv s2 \<and>
           (\<forall>k'. lookup k' s2 = lookup k' s)"
proof -
  from create_law [OF assms] obtain s1 where s1: "create n k s = Some s1" "inv s1" "idle n s1"
    "\<forall>k'. lookup k' s1 = (if k' = k then Some n else lookup k' s)" by blast
  then have "lookup k s1 = Some n" by simp
  from destroy_law [OF s1(2) this fresh_law [OF assms(3)] s1(3)] s1 assms(2) show ?thesis by auto
qed

text \<open>Ports are kept apart: what is created for different keys is found under its own key.\<close>

lemma create_two:
  assumes "inv s" "lookup k1 s = Some NULL" "lookup k2 s = Some NULL" "k1 \<noteq> k2"
    and "fresh n1 s" "fresh n2 s" "n1 \<noteq> n2"
  shows "\<exists>s1 s2. create n1 k1 s = Some s1 \<and> create n2 k2 s1 = Some s2 \<and> inv s2 \<and>
           lookup k1 s2 = Some n1 \<and> lookup k2 s2 = Some n2"
proof -
  from create_law [OF assms(1,2,5)] obtain s1 where s1: "create n1 k1 s = Some s1" "inv s1"
    "\<forall>m. fresh m s \<longrightarrow> m \<noteq> n1 \<longrightarrow> fresh m s1"
    "\<forall>k'. lookup k' s1 = (if k' = k1 then Some n1 else lookup k' s)" by blast
  moreover have "lookup k2 s1 = Some NULL" "fresh n2 s1" using s1(3,4) assms by auto
  ultimately show ?thesis using create_law [of s1 k2 n2] assms(4) by auto
qed

end

definition create_port :: "henv \<Rightarrow> ptr \<Rightarrow> port_key \<Rightarrow> inet_hashinfo \<Rightarrow> inet_hashinfo option" where
  "create_port E n key s =
     map_option snd (inet_bind_bucket_create n (fst key) (key_slot E s key) (snd key) s)"

definition fresh_tb :: "ptr \<Rightarrow> inet_hashinfo \<Rightarrow> bool" where
  "fresh_tb n s \<longleftrightarrow> n \<noteq> NULL \<and> tbs s n = None"

definition idle_tb :: "ptr \<Rightarrow> inet_hashinfo \<Rightarrow> bool" where
  "idle_tb tb s \<longleftrightarrow> (\<exists>t. tbs s tb = Some t \<and> owners t = [])"

lemma lookup_port_eqI:
  assumes "bhash_ok E s'" "n \<noteq> NULL \<Longrightarrow> \<exists>t. tbs s' n = Some t \<and> tb_key t = key"
    "n = NULL \<Longrightarrow> \<forall>tb t. tbs s' tb = Some t \<longrightarrow> tb_key t \<noteq> key"
  shows "lookup_port E key s' = Some n"
  using assms lookup_port_iff lookup_port_NULL_iff by (cases "n = NULL") metis+

lemma create_port_law:
  assumes ok: "bhash_ok E s" and free: "lookup_port E key s = Some NULL" and n: "fresh_tb n s"
  shows "\<exists>s'. create_port E n key s = Some s' \<and> bhash_ok E s' \<and> idle_tb n s' \<and>
           (\<forall>m. fresh_tb m s \<longrightarrow> m \<noteq> n \<longrightarrow> fresh_tb m s') \<and>
           (\<forall>k'. lookup_port E k' s' = (if k' = key then Some n else lookup_port E k' s))"
proof -
  obtain net p where key: "key = (net, p)" by force
  from n have n': "n \<noteq> NULL" "tbs s n = None" by (simp_all add: fresh_tb_def)
  define t0 where "t0 = \<lparr>ib_net = net, port = p, fastreuse = 0, num_owners = 0, owners = []\<rparr>"
  define h where "h = unat (inet_bhashfn E net p (bhash_size s))"
  define s' where "s' = s\<lparr>tbs := (tbs s)(n \<mapsto> t0), bhash := (bhash s)[h := n # bhash s ! h]\<rparr>"
  note c = bucket_create_spec [OF ok n' free [unfolded key], folded t0_def h_def, folded s'_def]
  have "create_port E n key s = Some s'"
    using c(1) by (simp add: create_port_def key key_slot_def h_def)
  moreover have "lookup_port E k' s' = (if k' = key then Some n else lookup_port E k' s)" for k'
  proof -
    obtain m where m: "lookup_port E k' s = Some m" using lookup_port_spec [OF ok] by blast
    have "lookup_port E k' s' = Some (if k' = key then n else m)"
    proof (rule lookup_port_eqI [OF c(2)])
      show "\<exists>t. tbs s' (if k' = key then n else m) = Some t \<and> tb_key t = k'"
        if "(if k' = key then n else m) \<noteq> NULL"
        using that m n' lookup_port_iff [OF ok, of m k']
        by (auto simp: s'_def t0_def tb_key_def key split: if_splits)
      show "\<forall>tb t. tbs s' tb = Some t \<longrightarrow> tb_key t \<noteq> k'" if "(if k' = key then n else m) = NULL"
        using that m n' lookup_port_NULL_iff [OF ok, of k']
        by (auto simp: s'_def t0_def tb_key_def key split: if_splits)
    qed
    with m show ?thesis by simp
  qed
  ultimately show ?thesis using c(2) by (auto simp: idle_tb_def fresh_tb_def s'_def t0_def)
qed

lemma destroy_port_law:
  assumes ok: "bhash_ok E s" and tb: "lookup_port E key s = Some tb" "tb \<noteq> NULL" and idle: "idle_tb tb s"
  shows "\<exists>s'. inet_bind_bucket_destroy E tb s = Some s' \<and> bhash_ok E s' \<and>
           (\<forall>k'. lookup_port E k' s' = (if k' = key then Some NULL else lookup_port E k' s))"
proof -
  from idle obtain t where t: "tbs s tb = Some t" "owners t = []" by (auto simp: idle_tb_def)
  define s' where "s' = s\<lparr>bhash := map (remove1 tb) (bhash s), tbs := (tbs s)(tb := None)\<rparr>"
  note d = bucket_destroy_spec [OF ok t, folded s'_def]
  have key: "tb_key t = key" using tb lookup_port_iff [OF ok] t(1) by auto
  have "lookup_port E k' s' = (if k' = key then Some NULL else lookup_port E k' s)" for k'
  proof -
    obtain m where m: "lookup_port E k' s = Some m" using lookup_port_spec [OF ok] by blast
    have "lookup_port E k' s' = Some (if k' = key then NULL else m)"
    proof (rule lookup_port_eqI [OF d(2)])
      show "\<exists>t. tbs s' (if k' = key then NULL else m) = Some t \<and> tb_key t = k'"
        if "(if k' = key then NULL else m) \<noteq> NULL"
        using that m lookup_port_iff [OF ok, of m k'] key t(1) by (auto simp: s'_def split: if_splits)
      show "\<forall>tb t. tbs s' tb = Some t \<longrightarrow> tb_key t \<noteq> k'" if "(if k' = key then NULL else m) = NULL"
      proof (intro allI impI)
        fix x u assume "tbs s' x = Some u"
        then have x: "x \<noteq> tb" "tbs s x = Some u" by (auto simp: s'_def split: if_splits)
        then have "tb_key u \<noteq> key" using bhash_okD(7) [OF ok t(1) x(2)] key by auto
        moreover have "tb_key u \<noteq> k'" if "k' \<noteq> key"
          using that \<open>(if k' = key then NULL else m) = NULL\<close> m x(2) lookup_port_NULL_iff [OF ok, of k']
          by simp
        ultimately show "tb_key u \<noteq> k'" by (cases "k' = key") simp_all
      qed
    qed
    with m show ?thesis by simp
  qed
  with d show ?thesis by blast
qed

interpretation bindtab: port_map "bhash_ok E" "lookup_port E" fresh_tb idle_tb "create_port E"
    "inet_bind_bucket_destroy E"
  for E :: henv
proof
  show "lookup_port E k s \<noteq> None" if "bhash_ok E s" for k s
    using lookup_port_spec [OF that, of k] by auto
  show "n \<noteq> NULL" if "fresh_tb n s" for n s
    using that by (simp add: fresh_tb_def)
qed (rule create_port_law destroy_port_law; assumption)+

end
