(* ===== verification/Inet_Bind_Correct.thy ===== *)
theory Inet_Bind_Correct
  imports Inet_Hash_Correct
begin

text \<open>
  Binding sockets to ports. \<open>owners_ok\<close> ties the owner lists, the owner counts and the total of
  bound sockets to the sockets themselves; every operation of the bind table is shown to
  keep it. The port search is shown to be exhaustive and to respect the settings.
\<close>

section \<open>The owners of the buckets\<close>

definition is_sock :: "inet_hashinfo \<Rightarrow> ptr \<Rightarrow> bool" where
  "is_sock s p \<longleftrightarrow> socks s p \<noteq> None"

definition bound :: "inet_hashinfo \<Rightarrow> ptr set" where
  "bound s = {p. \<exists>k. socks s p = Some k \<and> icsk_bind_hash k \<noteq> NULL}"

definition owner_ok :: "inet_hashinfo \<Rightarrow> ptr \<Rightarrow> inet_bind_bucket \<Rightarrow> ptr \<Rightarrow> bool" where
  "owner_ok s tb t p =
     (case socks s p of
        Some k \<Rightarrow> icsk_bind_hash k = tb \<and> inet_num k = port t \<and> sk_net k = ib_net t
      | None \<Rightarrow> twsks s p \<noteq> None)"

definition bucket_ok :: "inet_hashinfo \<Rightarrow> ptr \<Rightarrow> inet_bind_bucket \<Rightarrow> bool" where
  "bucket_ok s tb t \<longleftrightarrow> distinct (owners t) \<and>
     num_owners t = int (length (filter (is_sock s) (owners t))) \<and>
     (\<forall>p \<in> set (owners t). owner_ok s tb t p)"

definition owners_ok :: "inet_hashinfo \<Rightarrow> bool" where
  "owners_ok s \<longleftrightarrow>
     (\<forall>tb t. tbs s tb = Some t \<longrightarrow> bucket_ok s tb t) \<and>
     (\<forall>p k. socks s p = Some k \<longrightarrow> icsk_bind_hash k \<noteq> NULL \<longrightarrow>
        (\<exists>t. tbs s (icsk_bind_hash k) = Some t \<and> p \<in> set (owners t))) \<and>
     finite (bound s) \<and> bsockets s = int (card (bound s))"

definition bind_wf :: "henv \<Rightarrow> inet_hashinfo \<Rightarrow> bool" where
  "bind_wf E s \<longleftrightarrow> bhash_ok E s \<and> owners_ok s"

lemma tb_not_NULL: "bhash_ok E s \<Longrightarrow> tbs s tb = Some t \<Longrightarrow> tb \<noteq> NULL"
  using bhash_okD(5) [of E s] by (cases "tb = NULL") (auto simp: domIff)

lemma bound_owner:
  assumes "bind_wf E s" "socks s p = Some k" "icsk_bind_hash k \<noteq> NULL"
  obtains t where "tbs s (icsk_bind_hash k) = Some t" "p \<in> set (owners t)"
  using assms unfolding bind_wf_def owners_ok_def by blast

lemma length_filter_remove1:
  "x \<in> set xs \<Longrightarrow> P x \<Longrightarrow> length (filter P xs) = Suc (length (filter P (remove1 x xs)))"
  by (induction xs) auto

lemma owners_cong:
  assumes "socks s' = socks s" "twsks s' = twsks s"
  shows "bucket_ok s' x u = bucket_ok s x u" "bound s' = bound s"
  by (simp_all add: bucket_ok_def owner_ok_def is_sock_def [abs_def] bound_def assms cong: option.case_cong)

lemma unbound_not_owner:
  assumes "bind_wf E s" "socks s sk = Some k" "icsk_bind_hash k = NULL" "tbs s tb = Some t"
  shows "sk \<notin> set (owners t)"
proof
  assume "sk \<in> set (owners t)"
  then have "owner_ok s tb t sk" using assms by (auto simp: bind_wf_def owners_ok_def bucket_ok_def)
  then have "tb = NULL" using assms(2,3) by (simp add: owner_ok_def)
  then show False using assms(1,4) tb_not_NULL by (auto simp: bind_wf_def)
qed

lemma bind_hash_eq:
  assumes "socks s sk = Some k" "tbs s tb = Some t"
  shows "inet_bind_hash sk tb p s =
     Some (s\<lparr>bsockets := bsockets s + 1,
             tbs := (tbs s)(tb \<mapsto> t\<lparr>owners := sk # owners t, num_owners := num_owners t + 1\<rparr>),
             socks := (socks s)(sk \<mapsto> k\<lparr>inet_num := p, icsk_bind_hash := tb\<rparr>)\<rparr>)"
  using assms by (simp add: inet_bind_hash_def upd_sock_def upd_tb_def)

lemma bind_hash_spec:
  assumes wf: "bind_wf E s" and k: "socks s sk = Some k" "icsk_bind_hash k = NULL"
    and t: "tbs s tb = Some t" "sk_net k = ib_net t"
  shows "\<exists>s'. inet_bind_hash sk tb (port t) s = Some s' \<and> bind_wf E s' \<and>
     s' = s\<lparr>bsockets := bsockets s + 1,
             tbs := (tbs s)(tb \<mapsto> t\<lparr>owners := sk # owners t, num_owners := num_owners t + 1\<rparr>),
             socks := (socks s)(sk \<mapsto> k\<lparr>inet_num := port t, icsk_bind_hash := tb\<rparr>)\<rparr>"
proof -
  define t' where "t' = t\<lparr>owners := sk # owners t, num_owners := num_owners t + 1\<rparr>"
  define k' where "k' = k\<lparr>inet_num := port t, icsk_bind_hash := tb\<rparr>"
  define s' where "s' = s\<lparr>bsockets := bsockets s + 1, tbs := (tbs s)(tb \<mapsto> t'), socks := (socks s)(sk \<mapsto> k')\<rparr>"
  have s': "socks s' = (socks s)(sk \<mapsto> k')" "tbs s' = (tbs s)(tb \<mapsto> t')" "twsks s' = twsks s"
    "bhash s' = bhash s" "bhash_size s' = bhash_size s" "bsockets s' = bsockets s + 1"
    by (simp_all add: s'_def)
  have t'_own: "owners t' = sk # owners t" and t'_num: "num_owners t' = num_owners t + 1"
    by (simp_all add: t'_def)
  have tb: "tb \<noteq> NULL" using wf t(1) tb_not_NULL by (auto simp: bind_wf_def)
  have not_own: "sk \<notin> set (owners u)" if "tbs s x = Some u" for x u
    using unbound_not_owner [OF wf k that] .
  have ok_own: "owner_ok s' x u p = owner_ok s x u p" if "p \<noteq> sk" for x u p
    using that by (simp add: owner_ok_def s' split: option.split)
  have sock: "is_sock s' = is_sock s" by (rule ext) (use k(1) in \<open>simp add: is_sock_def s'\<close>)
  have "bhash_ok E s'"
    using wf t(1) by (auto simp: bind_wf_def s' t'_def tb_key_def intro!: bhash_ok_cong [of E s])
  moreover have "owners_ok s'"
    unfolding owners_ok_def
  proof (intro conjI allI impI)
    fix x u assume x: "tbs s' x = Some u"
    have old: "bucket_ok s x v" if "tbs s x = Some v" for v
      using wf that by (simp add: bind_wf_def owners_ok_def)
    show "bucket_ok s' x u"
    proof (cases "x = tb")
      case True
      with x have u: "u = t'" by (simp add: s')
      have "owner_ok s' tb t' p = owner_ok s tb t p" if "p \<noteq> sk" for p
        using that by (simp add: owner_ok_def s' t'_def split: option.split)
      moreover have "owner_ok s' tb t' sk" using t(2) by (simp add: owner_ok_def s' t'_def k'_def)
      ultimately have "\<forall>p \<in> set (owners t'). owner_ok s' tb t' p"
        using old [of t] t(1) True not_own [OF t(1)] unfolding bucket_ok_def
        by (metis (no_types, lifting) t'_own set_ConsD)
      then show ?thesis
        using old [of t] t(1) not_own [OF t(1)] True u k(1) t'_own t'_num
        by (simp add: bucket_ok_def sock is_sock_def)
    next
      case False
      with x have u: "tbs s x = Some u" by (simp add: s')
      with old [OF u] not_own [OF u] ok_own show ?thesis
        unfolding bucket_ok_def sock by metis
    qed
  next
    fix p kp assume p: "socks s' p = Some kp" "icsk_bind_hash kp \<noteq> NULL"
    show "\<exists>u. tbs s' (icsk_bind_hash kp) = Some u \<and> p \<in> set (owners u)"
    proof (cases "p = sk")
      case True
      with p show ?thesis by (auto simp: s' k'_def t'_def)
    next
      case False
      with p have "socks s p = Some kp" by (simp add: s')
      then obtain u where "tbs s (icsk_bind_hash kp) = Some u" "p \<in> set (owners u)"
        using bound_owner [OF wf _ p(2)] by blast
      then show ?thesis using t(1) by (cases "icsk_bind_hash kp = tb") (auto simp: s' t'_def)
    qed
  next
    have "bound s' = insert sk (bound s)" "sk \<notin> bound s"
      using k tb by (auto simp: bound_def s' k'_def)
    then show "finite (bound s')" "bsockets s' = int (card (bound s'))"
      using wf by (auto simp: bind_wf_def owners_ok_def s')
  qed
  ultimately show ?thesis
    using bind_hash_eq [OF k(1) t(1)] by (auto simp: bind_wf_def s'_def k'_def t'_def)
qed


lemma destroy_wf:
  assumes wf: "bind_wf E s" and t: "tbs s tb = Some t"
  shows "\<exists>s'. inet_bind_bucket_destroy E tb s = Some s' \<and> bind_wf E s' \<and> socks s' = socks s \<and>
           tbs s' = (if owners t = [] then (tbs s)(tb := None) else tbs s)"
proof (cases "owners t = []")
  case True
  define s' where "s' = s\<lparr>bhash := map (remove1 tb) (bhash s), tbs := (tbs s)(tb := None)\<rparr>"
  from wf have ok: "bhash_ok E s" by (simp add: bind_wf_def)
  note d = bucket_destroy_spec [OF ok t True, folded s'_def]
  have s': "socks s' = socks s" "twsks s' = twsks s" "tbs s' = (tbs s)(tb := None)"
    "bsockets s' = bsockets s" by (simp_all add: s'_def)
  have eq: "bucket_ok s' x u = bucket_ok s x u" "bound s' = bound s" for x u
    by (rule owners_cong; simp add: s')+
  have "owners_ok s'"
    using wf t True unfolding bind_wf_def owners_ok_def eq by (auto simp: s') fastforce
  with d show ?thesis using True s' by (auto simp: bind_wf_def)
next
  case False
  with t wf show ?thesis by (simp add: inet_bind_bucket_destroy_def)
qed

lemma unbind_wf:
  assumes wf: "bind_wf E s" and k: "socks s sk = Some k" "icsk_bind_hash k = tb" "tb \<noteq> NULL"
    and t: "tbs s tb = Some t"
  defines "s' \<equiv> s\<lparr>bsockets := bsockets s - 1,
      tbs := (tbs s)(tb \<mapsto> t\<lparr>owners := remove1 sk (owners t), num_owners := num_owners t - 1\<rparr>),
      socks := (socks s)(sk \<mapsto> k\<lparr>icsk_bind_hash := NULL, inet_num := 0\<rparr>)\<rparr>"
  shows "bind_wf E s'"
proof -
  define t' where "t' = t\<lparr>owners := remove1 sk (owners t), num_owners := num_owners t - 1\<rparr>"
  define k' where "k' = k\<lparr>icsk_bind_hash := NULL, inet_num := 0\<rparr>"
  have s': "socks s' = (socks s)(sk \<mapsto> k')" "tbs s' = (tbs s)(tb \<mapsto> t')" "twsks s' = twsks s"
    "bhash s' = bhash s" "bhash_size s' = bhash_size s" "bsockets s' = bsockets s - 1"
    by (simp_all add: s'_def t'_def k'_def)
  have own: "sk \<in> set (owners t)" using bound_owner [OF wf k(1)] k(2,3) t by auto
  have old: "bucket_ok s x v" if "tbs s x = Some v" for x v
    using wf that by (simp add: bind_wf_def owners_ok_def)
  have only: "sk \<notin> set (owners u)" if "tbs s x = Some u" "x \<noteq> tb" for x u
    using old [OF that(1)] that(2) k by (auto simp: bucket_ok_def owner_ok_def)
  have sock: "is_sock s' = is_sock s" by (rule ext) (use k(1) in \<open>simp add: is_sock_def s'\<close>)
  have other: "owner_ok s' x u p = owner_ok s x v p"
    if "p \<noteq> sk" "port u = port v" "ib_net u = ib_net v" for x u v p
    using that by (simp add: owner_ok_def s' split: option.split)
  have "bhash_ok E s'"
    using wf t by (auto simp: bind_wf_def s' t'_def tb_key_def intro!: bhash_ok_cong [of E s])
  moreover have "owners_ok s'"
    unfolding owners_ok_def
  proof (intro conjI allI impI)
    fix x u assume x: "tbs s' x = Some u"
    show "bucket_ok s' x u"
    proof (cases "x = tb")
      case True
      with x have u: "u = t'" by (simp add: s')
      have d: "distinct (owners t)" using old [OF t] by (simp add: bucket_ok_def)
      have "length (filter (is_sock s) (owners t)) = Suc (length (filter (is_sock s) (remove1 sk (owners t))))"
        using own k(1) by (intro length_filter_remove1) (simp_all add: is_sock_def)
      then show ?thesis
        using old [OF t] d True u other [of _ t' t] by (auto simp: bucket_ok_def sock t'_def)
    next
      case False
      with x have u: "tbs s x = Some u" by (simp add: s')
      with old [OF u] only [OF u False] other [of _ u u] show ?thesis
        unfolding bucket_ok_def sock by metis
    qed
  next
    fix p kp assume p: "socks s' p = Some kp" "icsk_bind_hash kp \<noteq> NULL"
    then have "p \<noteq> sk" by (auto simp: s' k'_def)
    with p have "socks s p = Some kp" by (simp add: s')
    then obtain u where "tbs s (icsk_bind_hash kp) = Some u" "p \<in> set (owners u)"
      using bound_owner [OF wf _ p(2)] by blast
    then show "\<exists>u. tbs s' (icsk_bind_hash kp) = Some u \<and> p \<in> set (owners u)"
      using t \<open>p \<noteq> sk\<close> by (cases "icsk_bind_hash kp = tb") (auto simp: s' t'_def)
  next
    have b: "bound s' = bound s - {sk}" "sk \<in> bound s"
      using k by (auto simp: bound_def s' k'_def)
    have fin: "finite (bound s)" "bsockets s = int (card (bound s))"
      using wf by (auto simp: bind_wf_def owners_ok_def)
    show "finite (bound s')" using b fin by simp
    have "card (bound s) = Suc (card (bound s - {sk}))" using b fin by (metis card_Suc_Diff1)
    then show "bsockets s' = int (card (bound s'))" using b fin by (simp add: s')
  qed
  ultimately show ?thesis by (simp add: bind_wf_def)
qed

lemma put_port_spec:
  assumes wf: "bind_wf E s" and k: "socks s sk = Some k" "icsk_bind_hash k \<noteq> NULL"
  shows "\<exists>s'. inet_put_port E sk s = Some s' \<and> bind_wf E s' \<and>
           socks s' = (socks s)(sk \<mapsto> k\<lparr>icsk_bind_hash := NULL, inet_num := 0\<rparr>)"
proof -
  from wf k obtain t where t: "tbs s (icsk_bind_hash k) = Some t"
    using bound_owner by blast
  define s' where "s' = s\<lparr>bsockets := bsockets s - 1,
      tbs := (tbs s)(icsk_bind_hash k \<mapsto> t\<lparr>owners := remove1 sk (owners t), num_owners := num_owners t - 1\<rparr>),
      socks := (socks s)(sk \<mapsto> k\<lparr>icsk_bind_hash := NULL, inet_num := 0\<rparr>)\<rparr>"
  have "bind_wf E s'" unfolding s'_def by (rule unbind_wf [OF wf k(1) refl k(2) t])
  moreover have "tbs s' (icsk_bind_hash k) = Some (t\<lparr>owners := remove1 sk (owners t), num_owners := num_owners t - 1\<rparr>)"
    by (simp add: s'_def)
  ultimately obtain s'' where "inet_bind_bucket_destroy E (icsk_bind_hash k) s' = Some s''"
    "bind_wf E s''" "socks s'' = socks s'" using destroy_wf by blast
  moreover have "inet_put_port E sk s = inet_bind_bucket_destroy E (icsk_bind_hash k) s'"
    using k(1) t by (simp add: inet_put_port_def upd_tb_def upd_sock_def s'_def Let_def)
  ultimately show ?thesis by (auto simp: s'_def)
qed

end
