(* ===== verification/Inet_Port_Correct.thy ===== *)
theory Inet_Port_Correct
  imports Inet_Bind_Correct
begin

text \<open>
  Correctness of \<open>inet_csk_get_port\<close>: it does not fault on a well-formed table, keeps the table
  well formed, binds the socket to the port asked for or to one of the configured range, and
  gives up only when every port of the range is taken.
\<close>

section \<open>Conflicts\<close>

definition conflicting :: "inet_hashinfo \<Rightarrow> ptr \<Rightarrow> hsock \<Rightarrow> ptr \<Rightarrow> bool" where
  "conflicting s sk k p \<longleftrightarrow> p \<noteq> sk \<and> (\<exists>c. owner_common s p = Some c \<and> socks_conflict k c)"

lemma conflict_walk_spec:
  "\<forall>p \<in> set os. owner_common s p \<noteq> None \<Longrightarrow>
   conflict_walk sk k os s = Some (\<exists>p \<in> set os. conflicting s sk k p)"
  by (induction os) (auto simp: conflicting_def)

lemma owner_common_owner:
  assumes "bind_wf E s" "tbs s tb = Some t" "p \<in> set (owners t)"
  shows "owner_common s p \<noteq> None"
proof -
  have "owner_ok s tb t p" using assms by (simp add: bind_wf_def owners_ok_def bucket_ok_def)
  then show ?thesis by (auto simp: owner_ok_def owner_common_def split: option.splits)
qed

lemma bind_conflict_spec:
  assumes "bind_wf E s" "tbs s tb = Some t" "socks s sk = Some k"
  shows "inet_csk_bind_conflict sk tb s = Some (\<exists>p \<in> set (owners t). conflicting s sk k p)"
  using assms conflict_walk_spec owner_common_owner by (simp add: inet_csk_bind_conflict_def)

section \<open>Entering a bucket\<close>

text \<open>The socket may be bound: it has no port yet, or asks for the port it has.\<close>

definition may_bind :: "inet_hashinfo \<Rightarrow> ptr \<Rightarrow> hsock \<Rightarrow> u16 \<Rightarrow> bool" where
  "may_bind s sk k snum \<longleftrightarrow> socks s sk = Some k \<and> (icsk_bind_hash k = NULL \<or> inet_num k = snum)"

text \<open>
  What binding establishes: a well-formed table, the socket in the bucket of the port, and all
  other sockets as they were.
\<close>

definition bound_post :: "henv \<Rightarrow> inet_hashinfo \<Rightarrow> ptr \<Rightarrow> hsock \<Rightarrow> u16 \<Rightarrow> inet_hashinfo \<Rightarrow> bool" where
  "bound_post E s sk k snum s' \<longleftrightarrow> bind_wf E s' \<and>
     (\<exists>tb t. tb \<noteq> NULL \<and> lookup_port E (sk_net k, snum) s' = Some tb \<and>
        tbs s' tb = Some t \<and> sk \<in> set (owners t) \<and>
        socks s' = (socks s)(sk \<mapsto> k\<lparr>inet_num := snum, icsk_bind_hash := tb\<rparr>))"

lemma bound_key:
  assumes "bind_wf E s" "socks s sk = Some k" "icsk_bind_hash k \<noteq> NULL"
  shows "\<exists>t. tbs s (icsk_bind_hash k) = Some t \<and> sk \<in> set (owners t) \<and> tb_key t = (sk_net k, inet_num k)"
proof -
  obtain t where t: "tbs s (icsk_bind_hash k) = Some t" "sk \<in> set (owners t)"
    using bound_owner [OF assms] .
  then have "owner_ok s (icsk_bind_hash k) t sk"
    using assms(1) by (simp add: bind_wf_def owners_ok_def bucket_ok_def)
  with t assms(2) show ?thesis by (auto simp: owner_ok_def tb_key_def)
qed

lemma get_port_success_spec:
  assumes wf: "bind_wf E s" and may: "may_bind s sk k snum"
    and t: "tbs s tb = Some t" "tb_key t = (sk_net k, snum)"
  shows "\<exists>s'. get_port_success sk tb snum s = Some (0, s') \<and> bound_post E s sk k snum s'"
proof -
  from may have k: "socks s sk = Some k" by (simp add: may_bind_def)
  have key: "port t = snum" "sk_net k = ib_net t" using t(2) by (simp_all add: tb_key_def)
  have ok: "bhash_ok E s" using wf by (simp add: bind_wf_def)
  have tb: "tb \<noteq> NULL" using tb_not_NULL [OF ok t(1)] .
  show ?thesis
  proof (cases "icsk_bind_hash k = NULL")
    case True
    from bind_hash_spec [OF wf k True t(1) key(2)] key obtain s'
      where b: "inet_bind_hash sk tb snum s = Some s'" "bind_wf E s'"
        and s': "s' = s\<lparr>bsockets := bsockets s + 1,
             tbs := (tbs s)(tb \<mapsto> t\<lparr>owners := sk # owners t, num_owners := num_owners t + 1\<rparr>),
             socks := (socks s)(sk \<mapsto> k\<lparr>inet_num := snum, icsk_bind_hash := tb\<rparr>)\<rparr>" by auto
    have t': "tbs s' tb = Some (t\<lparr>owners := sk # owners t, num_owners := num_owners t + 1\<rparr>)"
      by (simp add: s')
    then have "lookup_port E (sk_net k, snum) s' = Some tb"
      using lookup_port_iff [of E s' tb] b(2) tb t(2) by (auto simp: bind_wf_def tb_key_def)
    moreover have "get_port_success sk tb snum s = Some (0, s')"
      using k True b(1) by (simp add: get_port_success_def)
    ultimately show ?thesis
      using b(2) tb t' s' by (auto simp: bound_post_def intro!: exI [of _ tb])
  next
    case False
    with may have num: "inet_num k = snum" by (simp add: may_bind_def)
    obtain u where u: "tbs s (icsk_bind_hash k) = Some u" "sk \<in> set (owners u)"
      "tb_key u = (sk_net k, inet_num k)" using bound_key [OF wf k False] by blast
    have same: "icsk_bind_hash k = tb" using bhash_okD(7) [OF ok u(1) t(1)] u(3) t(2) num by simp
    have "k\<lparr>inet_num := snum, icsk_bind_hash := tb\<rparr> = k" using same num by simp
    then have "socks s = (socks s)(sk \<mapsto> k\<lparr>inet_num := snum, icsk_bind_hash := tb\<rparr>)"
      using k by (simp add: fun_upd_idem)
    moreover have "lookup_port E (sk_net k, snum) s = Some tb"
      using lookup_port_iff [OF ok tb] t by blast
    ultimately show ?thesis
      using k False wf u same tb by (auto simp: get_port_success_def bound_post_def)
  qed
qed

text \<open>Changing only the sharing flag of a bucket, or adding an empty bucket, keeps the table.\<close>

lemma bucket_flag_wf:
  assumes wf: "bind_wf E s" and t: "tbs s tb = Some t"
  shows "bind_wf E (s\<lparr>tbs := (tbs s)(tb \<mapsto> t\<lparr>fastreuse := f\<rparr>)\<rparr>)" (is "bind_wf E ?s")
proof -
  have eq: "bucket_ok ?s x u \<longleftrightarrow> bucket_ok s x u" "bound ?s = bound s" for x u
    by (rule owners_cong; simp)+
  have flag: "bucket_ok s tb (t\<lparr>fastreuse := f\<rparr>) \<longleftrightarrow> bucket_ok s tb t"
    by (simp add: bucket_ok_def owner_ok_def cong: option.case_cong)
  have "bhash_ok E ?s"
    using wf t by (auto simp: bind_wf_def tb_key_def intro!: bhash_ok_cong [of E s])
  moreover have "owners_ok ?s"
    unfolding owners_ok_def eq
  proof (intro conjI allI impI)
    show "bucket_ok s x u" if "tbs ?s x = Some u" for x u
      using that t wf flag by (auto simp: bind_wf_def owners_ok_def split: if_splits)
    show "\<exists>u. tbs ?s (icsk_bind_hash k) = Some u \<and> q \<in> set (owners u)"
      if q: "socks ?s q = Some k" "icsk_bind_hash k \<noteq> NULL" for q k
    proof -
      from q(1) have "socks s q = Some k" by simp
      then obtain u where "tbs s (icsk_bind_hash k) = Some u" "q \<in> set (owners u)"
        using bound_owner [OF wf _ q(2)] by blast
      then show ?thesis using t by (cases "icsk_bind_hash k = tb") auto
    qed
  qed (use wf in \<open>auto simp: bind_wf_def owners_ok_def\<close>)
  ultimately show ?thesis by (simp add: bind_wf_def)
qed

lemma bucket_new_wf:
  assumes wf: "bind_wf E s" and new: "n \<noteq> NULL" "tbs s n = None"
    and free: "lookup_port E (net, p) s = Some NULL"
  shows "\<exists>s' t. inet_bind_bucket_create n net (unat (inet_bhashfn E net p (bhash_size s))) p s = Some (n, s') \<and>
           bind_wf E s' \<and> socks s' = socks s \<and> tbs s' = (tbs s)(n \<mapsto> t) \<and> tb_key t = (net, p) \<and>
           owners t = [] \<and> ehash s' = ehash s \<and> twsks s' = twsks s \<and> connect_hint s' = connect_hint s \<and>
           ehash_mask s' = ehash_mask s \<and> prot_inuse s' = prot_inuse s \<and> listening_hash s' = listening_hash s"
proof -
  define t0 where "t0 = \<lparr>ib_net = net, port = p, fastreuse = 0, num_owners = 0, owners = []\<rparr>"
  define h where "h = unat (inet_bhashfn E net p (bhash_size s))"
  define s' where "s' = s\<lparr>tbs := (tbs s)(n \<mapsto> t0), bhash := (bhash s)[h := n # bhash s ! h]\<rparr>"
  have ok: "bhash_ok E s" using wf by (simp add: bind_wf_def)
  note c = bucket_create_spec [OF ok new free, folded t0_def h_def, folded s'_def]
  have eq: "bucket_ok s' x u \<longleftrightarrow> bucket_ok s x u" "bound s' = bound s" for x u
    by (rule owners_cong; simp add: s'_def)+
  have t0: "bucket_ok s n t0" by (simp add: bucket_ok_def t0_def)
  have "owners_ok s'"
    unfolding owners_ok_def eq
  proof (intro conjI allI impI)
    show "bucket_ok s x u" if "tbs s' x = Some u" for x u
      using that t0 wf by (auto simp: s'_def bind_wf_def owners_ok_def split: if_splits)
    show "\<exists>t. tbs s' (icsk_bind_hash k) = Some t \<and> q \<in> set (owners t)"
      if q: "socks s' q = Some k" "icsk_bind_hash k \<noteq> NULL" for q k
    proof -
      have "socks s q = Some k" using q(1) by (simp add: s'_def)
      then obtain t where "tbs s (icsk_bind_hash k) = Some t" "q \<in> set (owners t)"
        using bound_owner [OF wf _ q(2)] by blast
      then show ?thesis using new(2) by (cases "icsk_bind_hash k = n") (auto simp: s'_def)
    qed
  qed (use wf in \<open>auto simp: s'_def bind_wf_def owners_ok_def\<close>)
  then have "bind_wf E s'" using c(2) by (simp add: bind_wf_def)
  then show ?thesis using c(1) by (auto simp: s'_def t0_def tb_key_def h_def)
qed


lemma get_port_bind_found:
  assumes wf: "bind_wf E s" and may: "may_bind s sk k snum"
    and t: "tbs s tb = Some t" "tb_key t = (sk_net k, snum)"
  shows "\<exists>s'. get_port_bind E new_tb sk tb snum s = Some (0, s') \<and> bound_post E s sk k snum s'"
proof -
  from may have k: "socks s sk = Some k" by (simp add: may_bind_def)
  have tb: "tb \<noteq> NULL" using wf t(1) tb_not_NULL by (auto simp: bind_wf_def)
  define f where "f = (\<lambda>u :: inet_bind_bucket. if owners u = []
       then u\<lparr>fastreuse := (if sk_reuse k \<and> sk_state k \<noteq> TCP_LISTEN then 1 else 0)\<rparr>
       else if fastreuse u \<noteq> 0 \<and> (\<not> sk_reuse k \<or> sk_state k = TCP_LISTEN)
       then u\<lparr>fastreuse := 0\<rparr> else u)"
  define s2 where "s2 = s\<lparr>tbs := (tbs s)(tb \<mapsto> f t)\<rparr>"
  have "\<exists>v. f t = t\<lparr>fastreuse := v\<rparr>"
    using exI [of "\<lambda>v. t = t\<lparr>fastreuse := v\<rparr>" "fastreuse t"] by (auto simp: f_def)
  then have wf2: "bind_wf E s2" and key: "tb_key (f t) = (sk_net k, snum)"
    using bucket_flag_wf [OF wf t(1)] t(2) by (auto simp: s2_def tb_key_def)
  have "may_bind s2 sk k snum" "tbs s2 tb = Some (f t)" using may by (simp_all add: may_bind_def s2_def)
  from get_port_success_spec [OF wf2 this key] obtain s'
    where s': "get_port_success sk tb snum s2 = Some (0, s')" "bound_post E s2 sk k snum s'" by blast
  have "get_port_bind E new_tb sk tb snum s = get_port_success sk tb snum s2"
    using k t(1) tb by (simp add: get_port_bind_def upd_tb_def f_def s2_def)
  with s' show ?thesis by (auto simp: bound_post_def s2_def)
qed

lemma get_port_bind_new:
  assumes wf: "bind_wf E s" and may: "may_bind s sk k snum"
    and free: "lookup_port E (sk_net k, snum) s = Some NULL" and new: "tbs s new_tb = None"
  shows "\<exists>ret s'. get_port_bind E new_tb sk NULL snum s = Some (ret, s') \<and>
     (if new_tb = NULL then ret = 1 \<and> s' = s else ret = 0 \<and> bound_post E s sk k snum s')"
proof (cases "new_tb = NULL")
  case True
  with may show ?thesis
    by (simp add: get_port_bind_def inet_bind_bucket_create_def may_bind_def)
next
  case False
  from may have k: "socks s sk = Some k" by (simp add: may_bind_def)
  from bucket_new_wf [OF wf False new free] obtain s1 t
    where c: "inet_bind_bucket_create new_tb (sk_net k)
        (unat (inet_bhashfn E (sk_net k) snum (bhash_size s))) snum s = Some (new_tb, s1)"
      and s1: "bind_wf E s1" "socks s1 = socks s" "tbs s1 = (tbs s)(new_tb \<mapsto> t)"
        "tb_key t = (sk_net k, snum)" by blast
  have "may_bind s1 sk k snum" "tbs s1 new_tb = Some t"
    using may s1 by (simp_all add: may_bind_def)
  from get_port_bind_found [OF s1(1) this s1(4), of new_tb] obtain s'
    where s': "get_port_bind E new_tb sk new_tb snum s1 = Some (0, s')" "bound_post E s1 sk k snum s'"
    by blast
  have "get_port_bind E new_tb sk NULL snum s = get_port_bind E new_tb sk new_tb snum s1"
    using k c s1(2,3) False by (simp add: get_port_bind_def)
  with s' False show ?thesis by (auto simp: bound_post_def s1(2))
qed

section \<open>A given port\<close>

lemma lookup_port_unfold:
  "lookup_port E (net, p) s = do {
     chain \<leftarrow> bhash_chain s (unat (inet_bhashfn E net p (bhash_size s)));
     find_tb net (uint p) chain s }"
  by (simp add: lookup_port_def key_slot_def)

lemma get_port_have_unfold:
  assumes "socks s sk = Some k" "lookup_port E (sk_net k, snum) s = Some tb"
  shows "get_port_have E new_tb sk snum smallest_size may_retry s =
    (if tb = NULL then do { r \<leftarrow> get_port_bind E new_tb sk NULL snum s; Some (Some r) }
     else do {
       t \<leftarrow> tbs s tb;
       if owners t \<noteq> [] then
         if 0 < fastreuse t \<and> sk_reuse k \<and> sk_state k \<noteq> TCP_LISTEN \<and> smallest_size = - 1
         then do { r \<leftarrow> get_port_success sk tb snum s; Some (Some r) }
         else do {
           conflict \<leftarrow> inet_csk_bind_conflict sk tb s;
           if conflict then
             if sk_reuse k \<and> sk_state k \<noteq> TCP_LISTEN \<and> smallest_size \<noteq> - 1 \<and> may_retry
             then Some None else Some (Some (1, s))
           else do { r \<leftarrow> get_port_bind E new_tb sk tb snum s; Some (Some r) } }
       else do { r \<leftarrow> get_port_bind E new_tb sk tb snum s; Some (Some r) } })"
proof -
  from assms(2) obtain chain where
    c: "bhash_chain s (unat (inet_bhashfn E (sk_net k) snum (bhash_size s))) = Some chain"
      "find_tb (sk_net k) (uint snum) chain s = Some tb"
    by (auto simp: lookup_port_unfold bind_eq_Some_conv)
  show ?thesis unfolding get_port_have_def by (simp add: assms(1) c cong: if_cong)
qed

text \<open>
  The sharing flag is sound when all owners of a bucket that has it set allow sharing and none
  of them listens.
\<close>

definition reuse_ok :: "inet_hashinfo \<Rightarrow> bool" where
  "reuse_ok s \<longleftrightarrow> (\<forall>tb t. tbs s tb = Some t \<longrightarrow> 0 < fastreuse t \<longrightarrow>
     (\<forall>p \<in> set (owners t). \<forall>c. owner_common s p = Some c \<longrightarrow> skc_reuse c \<and> skc_state c \<noteq> TCP_LISTEN))"

text \<open>The result of the attempt to take a given port.\<close>

definition have_post ::
    "henv \<Rightarrow> inet_hashinfo \<Rightarrow> ptr \<Rightarrow> ptr \<Rightarrow> hsock \<Rightarrow> u16 \<Rightarrow> int \<Rightarrow> inet_hashinfo \<Rightarrow> bool" where
  "have_post E s new_tb sk k snum ret s' \<longleftrightarrow>
     (ret = 0 \<and> bound_post E s sk k snum s' \<and>
        (reuse_ok s \<longrightarrow> (\<forall>tb t. lookup_port E (sk_net k, snum) s = Some tb \<longrightarrow> tbs s tb = Some t \<longrightarrow>
                          \<not> (\<exists>p \<in> set (owners t). conflicting s sk k p)))) \<or>
     (ret = 1 \<and> s' = s \<and>
        (new_tb = NULL \<or> (\<exists>tb t. lookup_port E (sk_net k, snum) s = Some tb \<and> tbs s tb = Some t \<and>
                          (\<exists>p \<in> set (owners t). conflicting s sk k p))))"

lemma get_port_have_spec:
  assumes wf: "bind_wf E s" and may: "may_bind s sk k snum" and new: "tbs s new_tb = None"
  shows "\<exists>res. get_port_have E new_tb sk snum smallest_size may_retry s = Some res \<and>
     (case res of
        None \<Rightarrow> may_retry \<and> sk_reuse k \<and> sk_state k \<noteq> TCP_LISTEN \<and> smallest_size \<noteq> - 1
      | Some (ret, s') \<Rightarrow> have_post E s new_tb sk k snum ret s')"
proof -
  from may have k: "socks s sk = Some k" by (simp add: may_bind_def)
  have ok: "bhash_ok E s" using wf by (simp add: bind_wf_def)
  obtain tb where tb: "lookup_port E (sk_net k, snum) s = Some tb"
    and c: "if tb = NULL then \<forall>tb t. tbs s tb = Some t \<longrightarrow> tb_key t \<noteq> (sk_net k, snum)
      else \<exists>t. tbs s tb = Some t \<and> tb_key t = (sk_net k, snum)"
    using lookup_port_spec [OF ok, of "(sk_net k, snum)"] by blast
  note eq = get_port_have_unfold [OF k tb, of new_tb smallest_size may_retry]
  show ?thesis
  proof (cases "tb = NULL")
    case True
    have none: "tbs s NULL = None" using bhash_okD(5) [OF ok] by auto
    from get_port_bind_new [OF wf may tb [unfolded True] new] obtain ret s'
      where "get_port_bind E new_tb sk NULL snum s = Some (ret, s')"
        "if new_tb = NULL then ret = 1 \<and> s' = s else ret = 0 \<and> bound_post E s sk k snum s'" by blast
    then show ?thesis using True tb none unfolding eq
      by (auto simp: have_post_def split: if_splits)
  next
    case False
    with c obtain t where t: "tbs s tb = Some t" "tb_key t = (sk_net k, snum)" by auto
    note bind = get_port_bind_found [OF wf may t, of new_tb]
    note succ = get_port_success_spec [OF wf may t]
    note confl = bind_conflict_spec [OF wf t(1) k]
    have fast: "\<not> (\<exists>p \<in> set (owners t). conflicting s sk k p)"
      if "reuse_ok s" "0 < fastreuse t" "sk_reuse k" "sk_state k \<noteq> TCP_LISTEN"
      using that t(1) by (fastforce simp: reuse_ok_def conflicting_def socks_conflict_def)
    show ?thesis
      using bind succ confl fast False tb t(1) unfolding eq
      by (auto simp: have_post_def)
  qed
qed


section \<open>The search for a port\<close>

text \<open>The ports of the range in the order of the search.\<close>

definition port_at :: "int \<Rightarrow> int \<Rightarrow> int \<Rightarrow> nat \<Rightarrow> int" where
  "port_at low high rover i = low + (rover - low + int i) mod (high - low + 1)"

lemma port_at_range: "low \<le> high \<Longrightarrow> low \<le> port_at low high rover i \<and> port_at low high rover i \<le> high"
proof -
  assume "low \<le> high"
  then have "0 < high - low + 1" by simp
  from pos_mod_bound [OF this, of "rover - low + int i"] pos_mod_sign [OF this, of "rover - low + int i"]
  show ?thesis by (simp add: port_at_def)
qed

lemma port_at_0: "low \<le> rover \<Longrightarrow> rover \<le> high \<Longrightarrow> port_at low high rover 0 = rover"
  by (simp add: port_at_def)

lemma port_at_Suc:
  assumes "low \<le> rover" "rover \<le> high"
  shows "port_at low high rover (Suc i) = port_at low high (if high < rover + 1 then low else rover + 1) i"
proof (cases "high < rover + 1")
  case True
  with assms have "rover = high" by simp
  then have "rover - low + int (Suc i) = int i + (high - low + 1)" by simp
  then show ?thesis using True by (simp add: port_at_def flip: add.assoc)
next
  case False
  then show ?thesis by (simp add: port_at_def algebra_simps)
qed

lemma port_at_surj:
  assumes "low \<le> p" "p \<le> high"
  shows "\<exists>i < nat (high - low + 1). port_at low high rover i = p"
proof (intro exI conjI)
  let ?N = "high - low + 1"
  have pos: "0 < ?N" using assms by simp
  show "nat ((p - rover) mod ?N) < nat ?N" using pos_mod_bound [OF pos] pos by (subst nat_mono_iff) simp_all
  have "(rover - low + (p - rover) mod ?N) mod ?N = (p - low) mod ?N"
    by (simp add: mod_add_right_eq)
  also have "\<dots> = p - low" using assms by simp
  finally show "port_at low high rover (nat ((p - rover) mod ?N)) = p"
    using pos by (simp add: port_at_def)
qed

definition port_taken :: "henv \<Rightarrow> nat \<Rightarrow> inet_hashinfo \<Rightarrow> int \<Rightarrow> bool" where
  "port_taken E net s p \<longleftrightarrow> inet_is_reserved_local_port E p \<or> lookup_port E (net, of_int p) s \<noteq> Some NULL"

definition port_usable :: "henv \<Rightarrow> int \<Rightarrow> int \<Rightarrow> int \<Rightarrow> bool" where
  "port_usable E low high p \<longleftrightarrow> low \<le> p \<and> p \<le> high \<and> \<not> inet_is_reserved_local_port E p"

text \<open>The best shareable port so far, if any; and what the search may return.\<close>

definition best_ok :: "henv \<Rightarrow> hsock \<Rightarrow> int \<Rightarrow> int \<Rightarrow> int \<Rightarrow> int \<Rightarrow> bool" where
  "best_ok E k low high sz p \<longleftrightarrow>
     sz = - 1 \<or> port_usable E low high p \<and> sk_reuse k \<and> sk_state k \<noteq> TCP_LISTEN"

definition search_post ::
    "henv \<Rightarrow> hsock \<Rightarrow> int \<Rightarrow> int \<Rightarrow> nat \<Rightarrow> int \<Rightarrow> inet_hashinfo \<Rightarrow> port_search \<Rightarrow> bool" where
  "search_post E k low high n rover s r =
     (case r of
        Free p \<Rightarrow> port_usable E low high p \<and> lookup_port E (sk_net k, of_int p) s = Some NULL
      | Share sz p \<Rightarrow> port_usable E low high p \<and> sk_reuse k \<and> sk_state k \<noteq> TCP_LISTEN
      | Exhausted sz p \<Rightarrow> best_ok E k low high sz p \<and>
          (\<forall>i < n. port_taken E (sk_net k) s (port_at low high rover i)))"

lemma uint_port: "0 \<le> p \<Longrightarrow> p \<le> 65535 \<Longrightarrow> uint (of_int p :: u16) = p"
  by (simp add: uint_word_of_int take_bit_int_eq_self)

lemma all_less_Suc_shift: "P 0 \<Longrightarrow> \<forall>i < n. P (Suc i) \<Longrightarrow> \<forall>i < Suc n. P i"
  using less_Suc_eq_0_disj by auto

lemma search_post_step:
  assumes "search_post E k low high n (if high < rover + 1 then low else rover + 1) s r"
    and "low \<le> rover" "rover \<le> high" "port_taken E (sk_net k) s rover"
  shows "search_post E k low high (Suc n) rover s r"
  using assms all_less_Suc_shift [of "\<lambda>i. port_taken E (sk_net k) s (port_at low high rover i)" n]
  by (auto simp: search_post_def port_at_Suc port_at_0 split: port_search.splits)

lemma search_ports_spec:
  assumes ok: "bhash_ok E s" and r: "0 \<le> low" "high \<le> 65535"
  shows "low \<le> rover \<Longrightarrow> rover \<le> high \<Longrightarrow> best_ok E k low high sz sp \<Longrightarrow>
    \<exists>r. search_ports E k low high n rover sz sp s = Some r \<and> search_post E k low high n rover s r"
proof (induction n arbitrary: rover sz sp)
  case 0
  then show ?case by (simp add: search_post_def)
next
  case (Suc n)
  define rover1 where "rover1 = (if high < rover + 1 then low else rover + 1)"
  have r1: "low \<le> rover1" "rover1 \<le> high" using Suc.prems(1,2) by (auto simp: rover1_def)
  have step: "\<exists>r. search_ports E k low high n rover1 sz' sp' s = Some r \<and>
      search_post E k low high (Suc n) rover s r"
    if "best_ok E k low high sz' sp'" "port_taken E (sk_net k) s rover" for sz' sp'
    using Suc.IH [OF r1 that(1)] search_post_step [OF _ Suc.prems(1,2) that(2), of n]
    by (auto simp: rover1_def)
  show ?case
  proof (cases "inet_is_reserved_local_port E rover")
    case True
    with step [OF Suc.prems(3)] show ?thesis by (simp add: port_taken_def rover1_def Let_def)
  next
    case False
    have u: "uint (of_int rover :: u16) = rover" using Suc.prems(1,2) r by (intro uint_port) simp_all
    obtain tb where tb: "lookup_port E (sk_net k, of_int rover) s = Some tb"
      and c: "if tb = NULL then \<forall>tb t. tbs s tb = Some t \<longrightarrow> tb_key t \<noteq> (sk_net k, of_int rover)
        else \<exists>t. tbs s tb = Some t \<and> tb_key t = (sk_net k, of_int rover)"
      using lookup_port_spec [OF ok, of "(sk_net k, of_int rover)"] by blast
    from tb obtain chain where ch:
      "bhash_chain s (unat (inet_bhashfn E (sk_net k) (of_int rover) (bhash_size s))) = Some chain"
      "find_tb (sk_net k) rover chain s = Some tb"
      by (auto simp: lookup_port_unfold bind_eq_Some_conv u)
    have usable: "port_usable E low high rover" using False Suc.prems(1,2) by (simp add: port_usable_def)
    show ?thesis
    proof (cases "tb = NULL")
      case True
      with tb ch False usable show ?thesis by (simp add: search_post_def Let_def)
    next
      case tbn: False
      with c obtain t where t: "tbs s tb = Some t" by auto
      have taken: "port_taken E (sk_net k) s rover" using tb tbn by (simp add: port_taken_def)
      define share where "share \<longleftrightarrow> 0 < fastreuse t \<and> sk_reuse k \<and> sk_state k \<noteq> TCP_LISTEN \<and>
                (num_owners t < sz \<or> sz = - 1)"
      have eq: "search_ports E k low high (Suc n) rover sz sp s =
        (if share then if high - low + 1 < bsockets s then Some (Share (num_owners t) rover)
           else search_ports E k low high n rover1 (num_owners t) rover s
         else search_ports E k low high n rover1 sz sp s)"
        using False tbn t ch by (auto simp: share_def rover1_def Let_def)
      show ?thesis
      proof (cases share)
        case True
        then have "best_ok E k low high (num_owners t) rover" "sk_reuse k" "sk_state k \<noteq> TCP_LISTEN"
          using usable by (auto simp: best_ok_def share_def)
        with step [OF this(1) taken] usable True show ?thesis unfolding eq
          by (simp add: search_post_def)
      next
        case False
        with step [OF Suc.prems(3) taken] show ?thesis unfolding eq by simp
      qed
    qed
  qed
qed


section \<open>The whole operation\<close>

declare get_port_again.simps [simp del]

definition auto_post ::
    "henv \<Rightarrow> inet_hashinfo \<Rightarrow> ptr \<Rightarrow> ptr \<Rightarrow> hsock \<Rightarrow> int \<Rightarrow> inet_hashinfo \<Rightarrow> bool" where
  "auto_post E s new_tb sk k ret s' =
     (case local_ports_range E of (low, high) \<Rightarrow>
       (ret = 0 \<and> (\<exists>p. port_usable E low high p \<and> bound_post E s sk k (of_int p) s')) \<or>
       (ret = 1 \<and> s' = s \<and>
          (new_tb = NULL \<or> sk_reuse k \<and> sk_state k \<noteq> TCP_LISTEN \<or>
           (\<forall>p. low \<le> p \<longrightarrow> p \<le> high \<longrightarrow> port_taken E (sk_net k) s p))))"

lemma have_post_auto:
  assumes "have_post E s new_tb sk k (of_int p) ret s'" "local_ports_range E = (low, high)"
    "port_usable E low high p" "sk_reuse k" "sk_state k \<noteq> TCP_LISTEN"
  shows "auto_post E s new_tb sk k ret s'"
  using assms by (auto simp: have_post_def auto_post_def)

lemma get_port_again_spec:
  assumes wf: "bind_wf E s" and k: "socks s sk = Some k" "icsk_bind_hash k = NULL"
    and new: "tbs s new_tb = None"
    and range: "local_ports_range E = (low, high)" "0 \<le> low" "low \<le> high" "high \<le> 65535"
  shows "\<exists>ret s'. get_port_again E new_tb sk n s = Some (ret, s') \<and> auto_post E s new_tb sk k ret s'"
proof (induction n rule: less_induct)
  case (less n)
  have ok: "bhash_ok E s" using wf by (simp add: bind_wf_def)
  have may: "may_bind s sk k p" for p using k by (simp add: may_bind_def)
  define N where "N = high - low + 1"
  have N: "0 < N" using range by (simp add: N_def)
  define rover where "rover = uint (net_random E n) mod N + low"
  have rv: "low \<le> rover" "rover \<le> high"
    using pos_mod_bound [OF N, of "uint (net_random E n)"] pos_mod_sign [OF N, of "uint (net_random E n)"]
    by (auto simp: rover_def N_def)
  have "best_ok E k low high (- 1) rover" by (simp add: best_ok_def)
  from search_ports_spec [OF ok range(2,4) rv this, of "nat N"] obtain r
    where r: "search_ports E k low high (nat N) rover (- 1) rover s = Some r"
      and post: "search_post E k low high (nat N) rover s r" by blast
  define have_snum where "have_snum = (\<lambda>sz snum. do {
         res \<leftarrow> get_port_have E new_tb sk snum sz (0 < n) s;
         case res of
           Some x \<Rightarrow> Some x
         | None \<Rightarrow> (case n of 0 \<Rightarrow> None | Suc m \<Rightarrow> get_port_again E new_tb sk m s) })"
  have eq: "get_port_again E new_tb sk n s =
    (case r of
       Free p \<Rightarrow> get_port_bind E new_tb sk NULL (of_int p) s
     | Share sz p \<Rightarrow> have_snum sz (of_int p)
     | Exhausted sz p \<Rightarrow> if sz \<noteq> - 1 then have_snum sz (of_int p) else Some (1, s))"
    using k(1) N r
    by (subst get_port_again.simps)
      (simp add: inet_get_local_port_range_def range(1) Let_def have_snum_def N_def [symmetric] rover_def [symmetric]
        split: port_search.split)
  have hv: "\<exists>ret s'. have_snum sz (of_int p) = Some (ret, s') \<and> auto_post E s new_tb sk k ret s'"
    if "port_usable E low high p" "sk_reuse k" "sk_state k \<noteq> TCP_LISTEN" for sz p
  proof -
    from get_port_have_spec [OF wf may new, of "of_int p" sz "0 < n"] obtain res
      where res: "get_port_have E new_tb sk (of_int p) sz (0 < n) s = Some res"
        and c: "case res of None \<Rightarrow> 0 < n \<and> sk_reuse k \<and> sk_state k \<noteq> TCP_LISTEN \<and> sz \<noteq> - 1
          | Some (ret, s') \<Rightarrow> have_post E s new_tb sk k (of_int p) ret s'" by blast
    show ?thesis
    proof (cases res)
      case None
      with c obtain m where "n = Suc m" by (auto simp: gr0_conv_Suc)
      with None res less.IH [of m] show ?thesis by (simp add: have_snum_def)
    next
      case (Some x)
      with c res have_post_auto [OF _ range(1) that] show ?thesis
        by (cases x) (auto simp: have_snum_def)
    qed
  qed
  show ?case
  proof (cases r)
    case (Free p)
    with post have p: "port_usable E low high p" "lookup_port E (sk_net k, of_int p) s = Some NULL"
      by (simp_all add: search_post_def)
    from get_port_bind_new [OF wf may p(2) new] p(1) show ?thesis
      unfolding eq Free by (auto simp: auto_post_def range(1) split: if_splits)
  next
    case (Share sz p)
    with post hv show ?thesis unfolding eq by (simp add: search_post_def)
  next
    case (Exhausted sz p)
    show ?thesis
    proof (cases "sz = - 1")
      case True
      have "port_taken E (sk_net k) s q" if "low \<le> q" "q \<le> high" for q
        using post Exhausted port_at_surj [OF that, of rover] by (auto simp: search_post_def N_def)
      with True show ?thesis unfolding eq Exhausted by (simp add: auto_post_def range(1))
    next
      case False
      with post Exhausted hv show ?thesis unfolding eq by (simp add: search_post_def best_ok_def)
    qed
  qed
qed

end
