(* ===== verification/Inet_Ehash_Correct.thy ===== *)
theory Inet_Ehash_Correct
  imports Inet_Hash_Correct
begin

text \<open>
  The established and the listening table. \<open>ehash_ok\<close> says that chains and sockets agree on who
  is hashed where; hashing and unhashing keep it. A lookup by full identity is sound and
  complete, a lookup of a listener returns one with the best score. The locale \<open>demux\<close> is the
  contract that the demultiplexing of segments relies on.
\<close>

section \<open>The invariant\<close>

definition eslots :: "inet_hashinfo \<Rightarrow> ptr list list" where
  "eslots s = map ehchain (ehash s)"

definition established :: "inet_hashinfo \<Rightarrow> ptr set" where
  "established s = set (concat (eslots s))"

definition listening :: "inet_hashinfo \<Rightarrow> ptr set" where
  "listening s = set (concat (listening_hash s))"

definition place_ok :: "henv \<Rightarrow> inet_hashinfo \<Rightarrow> ptr \<Rightarrow> hsock \<Rightarrow> bool" where
  "place_ok E s sk k =
     (case sk_node k of
        Unhashed \<Rightarrow> sk \<notin> established s \<and> sk \<notin> listening s
      | In_ehash slot \<Rightarrow> slot < length (eslots s) \<and> sk \<in> set (eslots s ! slot) \<and>
          sk_hash k = inet_sk_ehashfn E k \<and> slot = inet_ehash_slot s (sk_hash k)
      | In_listening h \<Rightarrow> h < length (listening_hash s) \<and> sk \<in> set (listening_hash s ! h) \<and>
          h = unat (inet_sk_listen_hashfn E k))"

definition ehash_ok :: "henv \<Rightarrow> inet_hashinfo \<Rightarrow> bool" where
  "ehash_ok E s \<longleftrightarrow>
     length (ehash s) = Suc (unat (ehash_mask s)) \<and> length (listening_hash s) = 32 \<and>
     distinct (concat (eslots s) @ concat (listening_hash s)) \<and>
     (\<forall>sk \<in> established s \<union> listening s. sk \<noteq> NULL \<and> socks s sk \<noteq> None) \<and>
     (\<forall>sk k. socks s sk = Some k \<longrightarrow> place_ok E s sk k) \<and>
     (\<forall>b \<in> set (ehash s). \<forall>tw \<in> set (twchain b). tw \<noteq> NULL \<and> twsks s tw \<noteq> None) \<and>
     prot_inuse s = int (length (concat (eslots s)) + length (concat (listening_hash s)))"

lemma ehash_slot_less: "ehash_ok E s \<Longrightarrow> inet_ehash_slot s h < length (ehash s)"
  by (simp add: ehash_ok_def inet_ehash_slot_def less_Suc_eq_le word_le_nat_alt [symmetric] word_and_le1)

lemma listen_slot_less: "ehash_ok E s \<Longrightarrow> unat (inet_lhashfn E net num) < length (listening_hash s)"
  using unat_and_mask_less [of INET_LHTABLE_SIZE "ucast num + net_hash_mix E net"]
  by (simp add: ehash_ok_def inet_lhashfn_def INET_LHTABLE_SIZE_def)

lemma ehash_okD:
  assumes "ehash_ok E s"
  shows "length (ehash s) = Suc (unat (ehash_mask s))" "length (listening_hash s) = 32"
    "distinct (concat (eslots s) @ concat (listening_hash s))"
    "sk \<in> established s \<or> sk \<in> listening s \<Longrightarrow> sk \<noteq> NULL \<and> socks s sk \<noteq> None"
    "socks s sk = Some k \<Longrightarrow> place_ok E s sk k"
    "b \<in> set (ehash s) \<Longrightarrow> tw \<in> set (twchain b) \<Longrightarrow> tw \<noteq> NULL \<and> twsks s tw \<noteq> None"
    "prot_inuse s = int (length (concat (eslots s)) + length (concat (listening_hash s)))"
  using assms unfolding ehash_ok_def by blast+

lemma in_slot_established: "i < length (eslots s) \<Longrightarrow> x \<in> set (eslots s ! i) \<Longrightarrow> x \<in> established s"
  using nth_mem unfolding established_def by fastforce

lemma in_slot_listening:
  "i < length (listening_hash s) \<Longrightarrow> x \<in> set (listening_hash s ! i) \<Longrightarrow> x \<in> listening s"
  using nth_mem unfolding listening_def by fastforce

lemma established_listening: "ehash_ok E s \<Longrightarrow> sk \<in> established s \<Longrightarrow> sk \<notin> listening s"
  using ehash_okD(3) [of E s] by (auto simp: established_def listening_def simp del: set_concat)

lemma place_ehash:
  "ehash_ok E s \<Longrightarrow> socks s sk = Some k \<Longrightarrow> sk_node k = In_ehash i \<Longrightarrow>
   i < length (eslots s) \<and> sk \<in> set (eslots s ! i)"
  using ehash_okD(5) [of E s sk k] by (auto simp: place_ok_def)

lemma place_listening:
  "ehash_ok E s \<Longrightarrow> socks s sk = Some k \<Longrightarrow> sk_node k = In_listening i \<Longrightarrow>
   i < length (listening_hash s) \<and> sk \<in> set (listening_hash s ! i)"
  using ehash_okD(5) [of E s sk k] by (auto simp: place_ok_def)

lemma place_established:
  assumes ok: "ehash_ok E s" and k: "socks s sk = Some k"
  shows "sk \<in> established s \<longleftrightarrow> (\<exists>slot. sk_node k = In_ehash slot)"
    and "sk \<in> listening s \<longleftrightarrow> (\<exists>h. sk_node k = In_listening h)"
proof -
  have p: "place_ok E s sk k" using ehash_okD(5) [OF ok k] .
  show "sk \<in> established s \<longleftrightarrow> (\<exists>slot. sk_node k = In_ehash slot)"
    using p in_slot_established [of _ s sk] in_slot_listening [of _ s sk] established_listening [OF ok]
    by (cases "sk_node k") (auto simp: place_ok_def)
  show "sk \<in> listening s \<longleftrightarrow> (\<exists>h. sk_node k = In_listening h)"
    using p in_slot_established [of _ s sk] in_slot_listening [of _ s sk] established_listening [OF ok]
    by (cases "sk_node k") (auto simp: place_ok_def)
qed

section \<open>Lookup by full identity\<close>

type_synonym tuple = "nat \<times> be32 \<times> be16 \<times> be32 \<times> u16 \<times> int"

text \<open>The sockets that a segment (namespace, source, destination, device) belongs to.\<close>

fun sock_matches :: "hsock \<Rightarrow> tuple \<Rightarrow> bool" where
  "sock_matches k (net, saddr, sport, daddr, hnum, dif) \<longleftrightarrow>
     sk_net k = net \<and> inet_daddr k = saddr \<and> inet_dport k = sport \<and> inet_rcv_saddr k = daddr \<and>
     inet_num k = hnum \<and> (sk_bound_dev_if k = 0 \<or> sk_bound_dev_if k = dif)"

definition matches :: "inet_hashinfo \<Rightarrow> ptr \<Rightarrow> tuple \<Rightarrow> bool" where
  "matches s sk q \<longleftrightarrow> (\<exists>k. socks s sk = Some k \<and> sock_matches k q)"

fun find_sock :: "henv \<Rightarrow> tuple \<Rightarrow> inet_hashinfo \<Rightarrow> ptr option" where
  "find_sock E (net, saddr, sport, daddr, hnum, dif) s =
     (let hash = inet_ehashfn E net daddr hnum saddr sport;
          slot = inet_ehash_slot s hash
      in if length (ehash s) \<le> slot then None
         else find_ehash net hash (INET_ADDR_COOKIE saddr daddr) (INET_COMBINED_PORTS sport hnum) dif
                (ehchain (ehash s ! slot)) s)"

lemma find_ehash_spec:
  assumes "\<forall>sk \<in> set chain. sk \<noteq> NULL \<and> socks s sk \<noteq> None"
  shows "\<exists>sk. find_ehash net hash c ports dif chain s = Some sk \<and>
    (if sk = NULL then \<forall>x \<in> set chain. \<forall>k. socks s x = Some k \<longrightarrow> \<not> INET_MATCH k net hash c ports dif
     else sk \<in> set chain \<and> (\<exists>k. socks s sk = Some k \<and> INET_MATCH k net hash c ports dif))"
  using assms
proof (induction chain)
  case (Cons x chain)
  then obtain k where k: "socks s x = Some k" by auto
  show ?case
  proof (cases "INET_MATCH k net hash c ports dif")
    case True
    with k Cons.prems show ?thesis by auto
  next
    case False
    with k have "find_ehash net hash c ports dif (x # chain) s = find_ehash net hash c ports dif chain s"
      by simp
    with Cons k False show ?thesis by fastforce
  qed
qed simp

lemma chain_members:
  assumes "ehash_ok E s" "i < length (ehash s)"
  shows "\<forall>sk \<in> set (ehchain (ehash s ! i)). sk \<in> established s \<and> sk \<noteq> NULL \<and> socks s sk \<noteq> None"
proof
  fix sk assume "sk \<in> set (ehchain (ehash s ! i))"
  then have "sk \<in> established s" using assms(2) by (auto simp: established_def eslots_def)
  then show "sk \<in> established s \<and> sk \<noteq> NULL \<and> socks s sk \<noteq> None" using assms(1) by (simp add: ehash_ok_def)
qed

lemma find_sock_spec:
  assumes ok: "ehash_ok E s"
  shows "\<exists>sk. find_sock E q s = Some sk \<and>
    (if sk = NULL then \<forall>x \<in> established s. \<not> matches s x q
     else sk \<in> established s \<and> matches s sk q)"
proof -
  obtain net saddr sport daddr hnum dif where q: "q = (net, saddr, sport, daddr, hnum, dif)"
    by (cases q) auto
  define hash where "hash = inet_ehashfn E net daddr hnum saddr sport"
  define slot where "slot = inet_ehash_slot s hash"
  have sl: "slot < length (ehash s)" using ehash_slot_less [OF ok] by (simp add: slot_def)
  note mem = chain_members [OF ok sl]
  from find_ehash_spec [of "ehchain (ehash s ! slot)" s net hash "INET_ADDR_COOKIE saddr daddr"
      "INET_COMBINED_PORTS sport hnum" dif] mem obtain sk
    where f: "find_ehash net hash (INET_ADDR_COOKIE saddr daddr) (INET_COMBINED_PORTS sport hnum) dif
        (ehchain (ehash s ! slot)) s = Some sk"
      and c: "if sk = NULL then \<forall>x \<in> set (ehchain (ehash s ! slot)). \<forall>k. socks s x = Some k \<longrightarrow>
          \<not> INET_MATCH k net hash (INET_ADDR_COOKIE saddr daddr) (INET_COMBINED_PORTS sport hnum) dif
        else sk \<in> set (ehchain (ehash s ! slot)) \<and> (\<exists>k. socks s sk = Some k \<and>
          INET_MATCH k net hash (INET_ADDR_COOKIE saddr daddr) (INET_COMBINED_PORTS sport hnum) dif)"
    by blast
  have here: "x \<in> set (ehchain (ehash s ! slot)) \<and> sk_hash k = hash"
    if x: "x \<in> established s" "socks s x = Some k" "sock_matches k q" for x k
  proof -
    obtain i where "sk_node k = In_ehash i" using place_established(1) [OF ok x(2)] x(1) by blast
    then have "i < length (eslots s)" "x \<in> set (eslots s ! i)" "sk_hash k = inet_sk_ehashfn E k"
      "i = inet_ehash_slot s (sk_hash k)"
      using ehash_okD(5) [OF ok x(2)] by (auto simp: place_ok_def)
    moreover have "inet_sk_ehashfn E k = hash"
      using x(3) by (simp add: q inet_sk_ehashfn_def hash_def)
    ultimately show ?thesis by (auto simp: slot_def eslots_def)
  qed
  have "find_sock E q s = Some sk" using f sl by (simp add: q Let_def hash_def slot_def)
  moreover have "\<not> matches s x q" if "sk = NULL" "x \<in> established s" for x
    using that here [of x] c by (auto simp: matches_def INET_MATCH_iff q)
  moreover have "sk \<in> established s \<and> matches s sk q" if "sk \<noteq> NULL"
    using that c mem by (auto simp: matches_def INET_MATCH_iff q)
  ultimately show ?thesis by metis
qed


section \<open>Hashing and unhashing\<close>

lemma place_okI:
  assumes "socks s' x = Some k" "place_ok E s x k" "ehash_mask s' = ehash_mask s"
    and "\<And>i. i < length (eslots s) \<Longrightarrow> x \<in> set (eslots s ! i) \<Longrightarrow> i < length (eslots s') \<and> x \<in> set (eslots s' ! i)"
    and "\<And>i. i < length (listening_hash s) \<Longrightarrow> x \<in> set (listening_hash s ! i) \<Longrightarrow>
           i < length (listening_hash s') \<and> x \<in> set (listening_hash s' ! i)"
    and "x \<in> established s' \<Longrightarrow> x \<in> established s" "x \<in> listening s' \<Longrightarrow> x \<in> listening s"
  shows "place_ok E s' x k"
  using assms by (cases "sk_node k") (auto simp: place_ok_def inet_ehash_slot_def)

lemma eslots_update:
  "eslots s = tbl \<Longrightarrow> ehash s' = (ehash s)[i := (ehash s ! i)\<lparr>ehchain := ys\<rparr>] \<Longrightarrow> eslots s' = tbl[i := ys]"
  by (auto simp: eslots_def map_update)

lemma twchains_update:
  assumes "ehash s' = (ehash s)[i := (ehash s ! i)\<lparr>ehchain := ys\<rparr>]" "b \<in> set (ehash s')"
  shows "\<exists>c \<in> set (ehash s). twchain b = twchain c"
proof (cases "i < length (ehash s)")
  case True
  with assms set_update_subset_insert [of "ehash s" i] have "b = (ehash s ! i)\<lparr>ehchain := ys\<rparr> \<or> b \<in> set (ehash s)"
    by auto
  with True show ?thesis by force
next
  case False
  then have "ehash s' = ehash s" using assms(1) by (simp add: list_update_beyond)
  with assms(2) show ?thesis by auto
qed

lemma slot_iff:
  "x \<in> established s \<longleftrightarrow> (\<exists>i < length (eslots s). x \<in> set (eslots s ! i))"
  "x \<in> listening s \<longleftrightarrow> (\<exists>i < length (listening_hash s). x \<in> set (listening_hash s ! i))"
  by (simp_all only: established_def listening_def in_concat_iff)

text \<open>One socket changes its place; everybody else stays where they are.\<close>

lemma ehash_ok_step:
  assumes ok: "ehash_ok E s" and sk: "sk \<noteq> NULL"
    and s': "socks s' = (socks s)(sk \<mapsto> k')" "ehash_mask s' = ehash_mask s" "twsks s' = twsks s"
      "length (eslots s') = length (eslots s)" "length (listening_hash s') = length (listening_hash s)"
      "\<And>b. b \<in> set (ehash s') \<Longrightarrow> \<exists>c \<in> set (ehash s). twchain b = twchain c"
    and frame: "\<And>x i. x \<noteq> sk \<Longrightarrow> i < length (eslots s) \<Longrightarrow> x \<in> set (eslots s' ! i) \<longleftrightarrow> x \<in> set (eslots s ! i)"
      "\<And>x i. x \<noteq> sk \<Longrightarrow> i < length (listening_hash s) \<Longrightarrow>
        x \<in> set (listening_hash s' ! i) \<longleftrightarrow> x \<in> set (listening_hash s ! i)"
    and place: "place_ok E s' sk k'"
    and d: "distinct (concat (eslots s') @ concat (listening_hash s'))"
    and n: "prot_inuse s' = int (length (concat (eslots s')) + length (concat (listening_hash s')))"
  shows "ehash_ok E s'"
proof -
  have mem: "x \<in> established s' \<longleftrightarrow> x \<in> established s" "x \<in> listening s' \<longleftrightarrow> x \<in> listening s"
    if "x \<noteq> sk" for x
    using frame that unfolding slot_iff s'(4,5) by blast+
  have place_x: "place_ok E s' x kx" if x: "socks s' x = Some kx" for x kx
  proof (cases "x = sk")
    case True
    with x place show ?thesis by (simp add: s'(1))
  next
    case False
    with x have "socks s x = Some kx" by (simp add: s'(1))
    from place_okI [OF x ehash_okD(5) [OF ok this] s'(2)] show ?thesis
      using False frame mem s'(4,5) by simp
  qed
  have len: "length (ehash s') = length (ehash s)" using s'(4) by (simp add: eslots_def)
  show ?thesis
    unfolding ehash_ok_def
  proof (intro conjI ballI allI impI)
    show "x \<noteq> NULL" "socks s' x \<noteq> None" if "x \<in> established s' \<union> listening s'" for x
      using that ehash_okD(4) [OF ok, of x] sk mem [of x] by (cases "x = sk"; simp add: s'(1))+
    show "tw \<noteq> NULL" "twsks s' tw \<noteq> None" if "b \<in> set (ehash s')" "tw \<in> set (twchain b)" for b tw
      using that(2) s'(6) [OF that(1)] ehash_okD(6) [OF ok] s'(3) by auto
  qed (use ehash_okD(1,2) [OF ok] d n place_x in \<open>simp_all add: s' len\<close>)
qed

lemma add_established:
  assumes ok: "ehash_ok E s" and k: "socks s sk = Some k" "sk_node k = Unhashed" "sk \<noteq> NULL"
    and k': "sk_node k' = In_ehash i" "sk_hash k' = inet_sk_ehashfn E k'" "i = inet_ehash_slot s (sk_hash k')"
    and s': "socks s' = (socks s)(sk \<mapsto> k')" "ehash_mask s' = ehash_mask s" "twsks s' = twsks s"
      "ehash s' = (ehash s)[i := (ehash s ! i)\<lparr>ehchain := sk # ehchain (ehash s ! i)\<rparr>]"
      "listening_hash s' = listening_hash s" "prot_inuse s' = prot_inuse s + 1"
  shows "ehash_ok E s'" "established s' = insert sk (established s)" "listening s' = listening s"
proof -
  have i: "i < length (eslots s)" using ehash_slot_less [OF ok] k'(3) by (simp add: eslots_def)
  have es: "eslots s' = (eslots s)[i := sk # eslots s ! i]"
    using i eslots_update [OF refl s'(4)] by (simp add: eslots_def)
  have nin: "sk \<notin> established s" "sk \<notin> listening s" using place_established [OF ok k(1)] k(2) by auto
  show est: "established s' = insert sk (established s)"
    unfolding established_def es by (rule concat_cons(1) [OF i])
  show lis: "listening s' = listening s" by (simp add: listening_def s'(5))
  show "ehash_ok E s'"
  proof (rule ehash_ok_step [OF ok k(3) s'(1-3)])
    show "distinct (concat (eslots s') @ concat (listening_hash s'))"
      using ehash_okD(3) [OF ok] concat_cons [OF i, of sk] nin
      by (auto simp: es s'(5) established_def listening_def simp del: set_concat)
    show "prot_inuse s' = int (length (concat (eslots s')) + length (concat (listening_hash s')))"
      using length_concat_update [OF i, of "sk # eslots s ! i"] ehash_okD(7) [OF ok] by (simp add: es s'(5,6))
    show "place_ok E s' sk k'"
      using k' i by (simp add: place_ok_def es inet_ehash_slot_def s'(2))
    show "x \<in> set (eslots s' ! j) \<longleftrightarrow> x \<in> set (eslots s ! j)" if "x \<noteq> sk" "j < length (eslots s)" for x j
      using that i by (cases "j = i") (simp_all add: es)
  qed (use twchains_update [OF s'(4)] in \<open>simp_all add: es s'(5)\<close>)
qed

lemma add_listening:
  assumes ok: "ehash_ok E s" and k: "socks s sk = Some k" "sk_node k = Unhashed" "sk \<noteq> NULL"
    and k': "sk_node k' = In_listening i" "i = unat (inet_sk_listen_hashfn E k')"
    and s': "socks s' = (socks s)(sk \<mapsto> k')" "ehash_mask s' = ehash_mask s" "twsks s' = twsks s"
      "listening_hash s' = (listening_hash s)[i := sk # listening_hash s ! i]"
      "ehash s' = ehash s" "prot_inuse s' = prot_inuse s + 1"
  shows "ehash_ok E s'" "established s' = established s" "listening s' = insert sk (listening s)"
proof -
  have i: "i < length (listening_hash s)"
    using listen_slot_less [OF ok] k'(2) by (simp add: inet_sk_listen_hashfn_def)
  have es: "eslots s' = eslots s" by (simp add: eslots_def s'(5))
  have nin: "sk \<notin> established s" "sk \<notin> listening s" using place_established [OF ok k(1)] k(2) by auto
  show lis: "listening s' = insert sk (listening s)"
    unfolding listening_def s'(4) by (rule concat_cons(1) [OF i])
  show est: "established s' = established s" by (simp add: established_def es)
  show "ehash_ok E s'"
  proof (rule ehash_ok_step [OF ok k(3) s'(1-3)])
    show "distinct (concat (eslots s') @ concat (listening_hash s'))"
      using ehash_okD(3) [OF ok] concat_cons [OF i, of sk] nin
      by (auto simp: es s'(4) established_def listening_def simp del: set_concat)
    show "prot_inuse s' = int (length (concat (eslots s')) + length (concat (listening_hash s')))"
      using length_concat_update [OF i, of "sk # listening_hash s ! i"] ehash_okD(7) [OF ok]
      by (simp add: es s'(4,6))
    show "place_ok E s' sk k'" using k' i by (simp add: place_ok_def s'(4))
    show "x \<in> set (listening_hash s' ! j) \<longleftrightarrow> x \<in> set (listening_hash s ! j)"
      if "x \<noteq> sk" "j < length (listening_hash s)" for x j
      using that i by (cases "j = i") (simp_all add: s'(4))
  qed (auto simp: es s'(4,5))
qed


lemma del_established:
  assumes ok: "ehash_ok E s" and k: "socks s sk = Some k" "sk_node k = In_ehash i"
    and s': "socks s' = (socks s)(sk \<mapsto> k\<lparr>sk_node := Unhashed\<rparr>)" "ehash_mask s' = ehash_mask s" "twsks s' = twsks s"
      "ehash s' = (ehash s)[i := (ehash s ! i)\<lparr>ehchain := remove1 sk (ehchain (ehash s ! i))\<rparr>]"
      "listening_hash s' = listening_hash s" "prot_inuse s' = prot_inuse s - 1"
  shows "ehash_ok E s'" "established s' = established s - {sk}" "listening s' = listening s"
proof -
  have i: "i < length (eslots s)" "sk \<in> set (eslots s ! i)"
    using place_ehash [OF ok k] by simp_all
  have es: "eslots s' = (eslots s)[i := remove1 sk (eslots s ! i)]"
    using i eslots_update [OF refl s'(4)] by (simp add: eslots_def)
  have dist: "distinct (concat (eslots s))" using ehash_okD(3) [OF ok] by simp
  note rem = concat_remove1_slot [OF i(1) dist i(2)]
  have mem: "sk \<in> established s" using in_slot_established [OF i] .
  have sk: "sk \<noteq> NULL" using ehash_okD(4) [OF ok] mem by blast
  show est: "established s' = established s - {sk}" unfolding established_def es by (rule rem(1))
  show lis: "listening s' = listening s" by (simp add: listening_def s'(5))
  show "ehash_ok E s'"
  proof (rule ehash_ok_step [OF ok sk s'(1-3)])
    show "distinct (concat (eslots s') @ concat (listening_hash s'))"
      using ehash_okD(3) [OF ok] rem by (auto simp: es s'(5) simp del: set_concat)
    have "Suc (length (concat (eslots s'))) = length (concat (eslots s))"
      unfolding es by (rule length_concat_remove1 [OF i])
    then show "prot_inuse s' = int (length (concat (eslots s')) + length (concat (listening_hash s')))"
      using ehash_okD(7) [OF ok] by (simp add: s'(5,6))
    show "place_ok E s' sk (k\<lparr>sk_node := Unhashed\<rparr>)"
      using est lis established_listening [OF ok mem] by (simp add: place_ok_def)
    show "x \<in> set (eslots s' ! j) \<longleftrightarrow> x \<in> set (eslots s ! j)" if "x \<noteq> sk" "j < length (eslots s)" for x j
      using that i by (cases "j = i") (simp_all add: es)
  qed (use twchains_update [OF s'(4)] in \<open>simp_all add: es s'(5)\<close>)
qed

lemma del_listening:
  assumes ok: "ehash_ok E s" and k: "socks s sk = Some k" "sk_node k = In_listening i"
    and s': "socks s' = (socks s)(sk \<mapsto> k\<lparr>sk_node := Unhashed\<rparr>)" "ehash_mask s' = ehash_mask s" "twsks s' = twsks s"
      "listening_hash s' = (listening_hash s)[i := remove1 sk (listening_hash s ! i)]"
      "ehash s' = ehash s" "prot_inuse s' = prot_inuse s - 1"
  shows "ehash_ok E s'" "established s' = established s" "listening s' = listening s - {sk}"
proof -
  have i: "i < length (listening_hash s)" "sk \<in> set (listening_hash s ! i)"
    using place_listening [OF ok k] by simp_all
  have es: "eslots s' = eslots s" by (simp add: eslots_def s'(5))
  have dist: "distinct (concat (listening_hash s))" using ehash_okD(3) [OF ok] by simp
  note rem = concat_remove1_slot [OF i(1) dist i(2)]
  have mem: "sk \<in> listening s" using in_slot_listening [OF i] .
  have sk: "sk \<noteq> NULL" using ehash_okD(4) [OF ok] mem by blast
  show lis: "listening s' = listening s - {sk}" unfolding listening_def s'(4) by (rule rem(1))
  show est: "established s' = established s" by (simp add: established_def es)
  show "ehash_ok E s'"
  proof (rule ehash_ok_step [OF ok sk s'(1-3)])
    show "distinct (concat (eslots s') @ concat (listening_hash s'))"
      using ehash_okD(3) [OF ok] rem by (auto simp: es s'(4) simp del: set_concat)
    have "Suc (length (concat (listening_hash s'))) = length (concat (listening_hash s))"
      unfolding s'(4) by (rule length_concat_remove1 [OF i])
    then show "prot_inuse s' = int (length (concat (eslots s')) + length (concat (listening_hash s')))"
      using ehash_okD(7) [OF ok] by (simp add: es s'(6))
    show "place_ok E s' sk (k\<lparr>sk_node := Unhashed\<rparr>)"
      using est lis established_listening [OF ok] mem by (auto simp: place_ok_def)
    show "x \<in> set (listening_hash s' ! j) \<longleftrightarrow> x \<in> set (listening_hash s ! j)"
      if "x \<noteq> sk" "j < length (listening_hash s)" for x j
      using that i by (cases "j = i") (simp_all add: s'(4))
  qed (auto simp: es s'(4,5))
qed

section \<open>The operations\<close>

lemma hash_nolisten_spec:
  assumes ok: "ehash_ok E s" and k: "socks s sk = Some k" "sk_node k = Unhashed" "sk \<noteq> NULL"
  shows "\<exists>s'. inet_hash_nolisten E sk NULL s = Some (0, s') \<and> ehash_ok E s' \<and>
           established s' = insert sk (established s) \<and> listening s' = listening s \<and>
           socks s' = (socks s)(sk \<mapsto> k\<lparr>sk_hash := inet_sk_ehashfn E k,
                         sk_node := In_ehash (inet_ehash_slot s (inet_sk_ehashfn E k))\<rparr>) \<and>
           tbs s' = tbs s \<and> bhash s' = bhash s \<and> bhash_size s' = bhash_size s \<and> twsks s' = twsks s \<and>
           bsockets s' = bsockets s"
proof -
  define k' where "k' = k\<lparr>sk_hash := inet_sk_ehashfn E k,
      sk_node := In_ehash (inet_ehash_slot s (inet_sk_ehashfn E k))\<rparr>"
  define i where "i = inet_ehash_slot s (inet_sk_ehashfn E k)"
  define s' where "s' = s\<lparr>ehash := (ehash s)[i := (ehash s ! i)\<lparr>ehchain := sk # ehchain (ehash s ! i)\<rparr>],
      socks := (socks s)(sk \<mapsto> k'), prot_inuse := prot_inuse s + 1\<rparr>"
  have i: "i < length (ehash s)" using ehash_slot_less [OF ok] by (simp add: i_def)
  have h: "inet_sk_ehashfn E k' = inet_sk_ehashfn E k" by (simp add: k'_def inet_sk_ehashfn_def)
  note add = add_established [OF ok k, of k' i s']
  have "ehash_ok E s'" "established s' = insert sk (established s)" "listening s' = listening s"
    by (rule add; simp add: s'_def k'_def i_def h [unfolded k'_def])+
  moreover have "inet_hash_nolisten E sk NULL s = Some (0, s')"
    using k(1) i
    by (simp add: inet_hash_nolisten_def upd_sock_def sk_nulls_add_ehash_def inet_ehash_slot_def
        Let_def s'_def k'_def i_def)
  ultimately show ?thesis by (auto simp: s'_def k'_def)
qed

lemma inet_unhash_spec:
  assumes ok: "ehash_ok E s" and k: "socks s sk = Some k"
  shows "\<exists>s'. inet_unhash sk s = Some s' \<and> ehash_ok E s' \<and>
           established s' = established s - {sk} \<and> listening s' = listening s - {sk} \<and>
           socks s' = (socks s)(sk \<mapsto> k\<lparr>sk_node := Unhashed\<rparr>)"
proof (cases "sk_node k")
  case Unhashed
  then have "k\<lparr>sk_node := Unhashed\<rparr> = k" by simp
  moreover have "sk \<notin> established s" "sk \<notin> listening s" using place_established [OF ok k] Unhashed by auto
  ultimately show ?thesis
    using k Unhashed ok by (simp add: inet_unhash_def sk_unhashed_def fun_upd_idem)
next
  case (In_ehash i)
  have i: "i < length (ehash s)" using place_ehash [OF ok k In_ehash] by (simp add: eslots_def)
  define s' where "s' = s\<lparr>ehash := (ehash s)[i := (ehash s ! i)\<lparr>ehchain := remove1 sk (ehchain (ehash s ! i))\<rparr>],
      socks := (socks s)(sk \<mapsto> k\<lparr>sk_node := Unhashed\<rparr>), prot_inuse := prot_inuse s - 1\<rparr>"
  have "ehash_ok E s'" "established s' = established s - {sk}" "listening s' = listening s"
    by (rule del_established [OF ok k In_ehash]; simp add: s'_def)+
  moreover have "sk \<notin> listening s"
    using place_established [OF ok k] In_ehash by auto
  moreover have "inet_unhash sk s = Some s'"
    using k i In_ehash
    by (simp add: inet_unhash_def sk_unhashed_def sk_nulls_del_node_init_rcu_def upd_sock_def Let_def s'_def)
  ultimately show ?thesis by (auto simp: s'_def)
next
  case (In_listening i)
  have i: "i < length (listening_hash s)" using place_listening [OF ok k In_listening] by simp
  define s' where "s' = s\<lparr>listening_hash := (listening_hash s)[i := remove1 sk (listening_hash s ! i)],
      socks := (socks s)(sk \<mapsto> k\<lparr>sk_node := Unhashed\<rparr>), prot_inuse := prot_inuse s - 1\<rparr>"
  have "ehash_ok E s'" "established s' = established s" "listening s' = listening s - {sk}"
    by (rule del_listening [OF ok k In_listening]; simp add: s'_def)+
  moreover have "sk \<notin> established s"
    using place_established [OF ok k] In_listening by auto
  moreover have "inet_unhash sk s = Some s'"
    using k i In_listening
    by (simp add: inet_unhash_def sk_unhashed_def sk_nulls_del_node_init_rcu_def upd_sock_def Let_def s'_def)
  ultimately show ?thesis by (auto simp: s'_def)
qed


section \<open>The contract of the established table\<close>

locale demux =
  fixes inv :: "'s \<Rightarrow> bool"
    and members :: "'s \<Rightarrow> ptr set"
    and match :: "'s \<Rightarrow> ptr \<Rightarrow> 'q \<Rightarrow> bool"
    and can_add :: "'s \<Rightarrow> ptr \<Rightarrow> bool"
    and add :: "ptr \<Rightarrow> 's \<Rightarrow> 's option"
    and del :: "ptr \<Rightarrow> 's \<Rightarrow> 's option"
    and find :: "'q \<Rightarrow> 's \<Rightarrow> ptr option"
  assumes find_law: "inv s \<Longrightarrow> \<exists>x. find q s = Some x \<and>
        (if x = NULL then \<forall>y \<in> members s. \<not> match s y q else x \<in> members s \<and> match s x q)"
    and add_law: "inv s \<Longrightarrow> can_add s x \<Longrightarrow>
        \<exists>s'. add x s = Some s' \<and> inv s' \<and> members s' = insert x (members s) \<and>
             (\<forall>y q. match s' y q = match s y q)"
    and del_law: "inv s \<Longrightarrow> x \<in> members s \<Longrightarrow>
        \<exists>s'. del x s = Some s' \<and> inv s' \<and> members s' = members s - {x} \<and>
             (\<forall>y q. match s' y q = match s y q)"
    and member_law: "inv s \<Longrightarrow> x \<in> members s \<Longrightarrow> x \<noteq> NULL"
begin

lemma find_unique:
  assumes "inv s" "x \<in> members s" "match s x q" "\<forall>y \<in> members s. match s y q \<longrightarrow> y = x"
  shows "find q s = Some x"
  using find_law [OF assms(1), of q] assms by (metis option.inject)

lemma find_none:
  assumes "inv s" "\<forall>y \<in> members s. \<not> match s y q"
  shows "find q s = Some NULL"
  using find_law [OF assms(1), of q] assms by (metis option.inject)

lemma add_find:
  assumes "inv s" "can_add s x" "match s x q" "\<forall>y \<in> members s. \<not> match s y q"
  shows "\<exists>s'. add x s = Some s' \<and> inv s' \<and> find q s' = Some x"
proof -
  from add_law [OF assms(1,2)] obtain s' where s': "add x s = Some s'" "inv s'"
    "members s' = insert x (members s)" "\<forall>y q. match s' y q = match s y q" by blast
  then have "find q s' = Some x" using assms(3,4) by (intro find_unique) auto
  with s' show ?thesis by blast
qed

lemma del_find:
  assumes "inv s" "x \<in> members s" "\<forall>y \<in> members s. match s y q \<longrightarrow> y = x"
  shows "\<exists>s'. del x s = Some s' \<and> inv s' \<and> find q s' = Some NULL"
proof -
  from del_law [OF assms(1,2)] obtain s' where s': "del x s = Some s'" "inv s'"
    "members s' = members s - {x}" "\<forall>y q. match s' y q = match s y q" by blast
  then have "find q s' = Some NULL" using assms(3) by (intro find_none) auto
  with s' show ?thesis by blast
qed

text \<open>Entering and leaving again changes no lookup that had a unique answer, or none.\<close>

lemma add_del_find:
  assumes "inv s" "can_add s x" "x \<notin> members s" "\<forall>y \<in> members s. \<forall>z \<in> members s. match s y q \<longrightarrow> match s z q \<longrightarrow> y = z"
  shows "\<exists>s1 s2. add x s = Some s1 \<and> del x s1 = Some s2 \<and> inv s2 \<and> members s2 = members s \<and>
           find q s2 = find q s"
proof -
  from add_law [OF assms(1,2)] obtain s1 where s1: "add x s = Some s1" "inv s1"
    "members s1 = insert x (members s)" "\<forall>y q. match s1 y q = match s y q" by blast
  then have "x \<in> members s1" by simp
  from del_law [OF s1(2) this] obtain s2 where s2: "del x s1 = Some s2" "inv s2"
    "members s2 = members s1 - {x}" "\<forall>y q. match s2 y q = match s1 y q" by blast
  have m: "members s2 = members s" unfolding s2(3) s1(3) using assms(3) by simp
  have mt: "match s2 y q = match s y q" for y q using s1(4) s2(4) by simp
  have "find q s2 = find q s"
  proof (cases "\<exists>y \<in> members s. match s y q")
    case True
    then obtain y where y: "y \<in> members s" "match s y q" by blast
    with assms(4) have u: "\<forall>z \<in> members s. match s z q \<longrightarrow> z = y" by blast
    have "find q s = Some y" using find_unique [OF assms(1) y u] .
    moreover have "find q s2 = Some y"
      by (rule find_unique [OF s2(2)]; unfold m mt) (rule y u)+
    ultimately show ?thesis by simp
  next
    case False
    then have "find q s = Some NULL" by (intro find_none [OF assms(1)]) blast
    moreover have "find q s2 = Some NULL"
      using False by (intro find_none [OF s2(2)]) (simp add: m mt)
    ultimately show ?thesis by simp
  qed
  with s1 s2 m show ?thesis by blast
qed

end

definition ehash_add :: "henv \<Rightarrow> ptr \<Rightarrow> inet_hashinfo \<Rightarrow> inet_hashinfo option" where
  "ehash_add E sk s = map_option snd (inet_hash_nolisten E sk NULL s)"

definition can_hash :: "inet_hashinfo \<Rightarrow> ptr \<Rightarrow> bool" where
  "can_hash s sk \<longleftrightarrow> sk \<noteq> NULL \<and> (\<exists>k. socks s sk = Some k \<and> sk_node k = Unhashed)"

lemma matches_place:
  assumes "socks s sk = Some k" "socks s' = (socks s)(sk \<mapsto> k\<lparr>sk_hash := h, sk_node := p\<rparr>)"
  shows "matches s' y q = matches s y q"
  using assms by (cases q) (auto simp: matches_def)

lemma matches_node:
  assumes "socks s sk = Some k" "socks s' = (socks s)(sk \<mapsto> k\<lparr>sk_node := p\<rparr>)"
  shows "matches s' y q = matches s y q"
  using assms by (cases q) (auto simp: matches_def)

interpretation etable: demux "ehash_ok E" established matches can_hash "ehash_add E" inet_unhash "find_sock E"
  for E :: henv
proof
  fix s :: inet_hashinfo and x q
  assume ok: "ehash_ok E s"
  show "\<exists>x. find_sock E q s = Some x \<and>
      (if x = NULL then \<forall>y \<in> established s. \<not> matches s y q else x \<in> established s \<and> matches s x q)"
    by (rule find_sock_spec [OF ok])
  show "x \<noteq> NULL" if "x \<in> established s" using ehash_okD(4) [OF ok] that by blast
  show "\<exists>s'. ehash_add E x s = Some s' \<and> ehash_ok E s' \<and> established s' = insert x (established s) \<and>
      (\<forall>y q. matches s' y q = matches s y q)" if "can_hash s x"
  proof -
    from that obtain k where k: "socks s x = Some k" "sk_node k = Unhashed" "x \<noteq> NULL"
      by (auto simp: can_hash_def)
    from hash_nolisten_spec [OF ok k] matches_place [OF k(1)] show ?thesis
      by (force simp: ehash_add_def)
  qed
  show "\<exists>s'. inet_unhash x s = Some s' \<and> ehash_ok E s' \<and> established s' = established s - {x} \<and>
      (\<forall>y q. matches s' y q = matches s y q)" if "x \<in> established s"
  proof -
    from that ehash_okD(4) [OF ok] obtain k where k: "socks s x = Some k" by blast
    from inet_unhash_spec [OF ok k] matches_node [OF k] show ?thesis by metis
  qed
qed

section \<open>Lookup of a listener\<close>

lemma best_listener_spec:
  assumes "\<forall>sk \<in> set chain. sk \<noteq> NULL \<and> socks s sk \<noteq> None"
    and "if r0 = NULL then hi = - 1 else \<exists>k. socks s r0 = Some k \<and> compute_score k net hnum daddr dif = hi \<and> 0 \<le> hi"
  shows "\<exists>r hi'. best_listener net hnum daddr dif chain r0 hi s = Some (r, hi') \<and> hi \<le> hi' \<and>
     (r = r0 \<or> r \<in> set chain) \<and>
     (if r = NULL then hi' = - 1 else \<exists>k. socks s r = Some k \<and> compute_score k net hnum daddr dif = hi' \<and> 0 \<le> hi') \<and>
     (\<forall>x \<in> set chain. \<forall>k. socks s x = Some k \<longrightarrow> compute_score k net hnum daddr dif \<le> hi')"
  using assms
proof (induction chain arbitrary: r0 hi)
  case (Cons x chain)
  then obtain k where k: "socks s x = Some k" "x \<noteq> NULL" by auto
  define sc where "sc = compute_score k net hnum daddr dif"
  have lo: "- 1 \<le> sc" by (simp add: sc_def compute_score_def Let_def)
  have hi: "- 1 \<le> hi" using Cons.prems(2) by (auto split: if_splits)
  show ?case
  proof (cases "hi < sc")
    case True
    have "if x = NULL then sc = - 1 else \<exists>k. socks s x = Some k \<and> compute_score k net hnum daddr dif = sc \<and> 0 \<le> sc"
      using k True hi by (simp add: sc_def)
    from Cons.IH [OF _ this] Cons.prems(1) obtain r hi' where
      IH: "best_listener net hnum daddr dif chain x sc s = Some (r, hi')" "sc \<le> hi'" "r = x \<or> r \<in> set chain"
        "if r = NULL then hi' = - 1 else \<exists>k. socks s r = Some k \<and> compute_score k net hnum daddr dif = hi' \<and> 0 \<le> hi'"
        "\<forall>x \<in> set chain. \<forall>k. socks s x = Some k \<longrightarrow> compute_score k net hnum daddr dif \<le> hi'"
      by auto
    have "best_listener net hnum daddr dif (x # chain) r0 hi s = Some (r, hi')"
      using k(1) True IH(1) by (simp add: sc_def Let_def)
    moreover have "\<forall>y \<in> set (x # chain). \<forall>k. socks s y = Some k \<longrightarrow> compute_score k net hnum daddr dif \<le> hi'"
      using IH(2,5) k(1) by (simp add: sc_def)
    ultimately show ?thesis using IH(2-4) True by (intro exI [of _ r] exI [of _ hi']) simp
  next
    case False
    from Cons.IH [OF _ Cons.prems(2)] Cons.prems(1) obtain r hi' where
      IH: "best_listener net hnum daddr dif chain r0 hi s = Some (r, hi')" "hi \<le> hi'" "r = r0 \<or> r \<in> set chain"
        "if r = NULL then hi' = - 1 else \<exists>k. socks s r = Some k \<and> compute_score k net hnum daddr dif = hi' \<and> 0 \<le> hi'"
        "\<forall>x \<in> set chain. \<forall>k. socks s x = Some k \<longrightarrow> compute_score k net hnum daddr dif \<le> hi'"
      by auto
    have "best_listener net hnum daddr dif (x # chain) r0 hi s = Some (r, hi')"
      using k(1) False IH(1) by (simp add: sc_def Let_def)
    moreover have "\<forall>y \<in> set (x # chain). \<forall>k. socks s y = Some k \<longrightarrow> compute_score k net hnum daddr dif \<le> hi'"
      using IH(2,5) k(1) False by (simp add: sc_def)
    ultimately show ?thesis using IH(2-4) by (intro exI [of _ r] exI [of _ hi']) auto
  qed
qed simp

end
