(* ===== verification/Inet_Hash_Props.thy ===== *)
theory Inet_Hash_Props
  imports Inet_Port_Correct Inet_Ehash_Correct
begin

text \<open>
  The properties of the hash tables: port selection, the established and the listening table,
  the check for a unique connection, each applied to a small concrete table.
\<close>

section \<open>Lookup and uniqueness\<close>

lemma score_in_slot:
  assumes ok: "ehash_ok E s" and x: "x \<in> listening s" "socks s x = Some k"
    and sc: "0 \<le> compute_score k net hnum daddr dif"
  shows "x \<in> set (listening_hash s ! unat (inet_lhashfn E net hnum))"
proof -
  obtain i where i: "sk_node k = In_listening i" using place_established(2) [OF ok x(2)] x(1) by blast
  have "sk_net k = net" "inet_num k = hnum" using sc by (auto simp: compute_score_def split: if_splits)
  then show ?thesis
    using place_listening [OF ok x(2) i] ehash_okD(5) [OF ok x(2)] i
    by (auto simp: place_ok_def inet_sk_listen_hashfn_def)
qed

lemma lookup_listener_spec:
  assumes ok: "ehash_ok E s" and ref: "\<forall>x \<in> listening s. \<forall>k. socks s x = Some k \<longrightarrow> sk_refcnt k \<noteq> 0"
  shows "\<exists>r s'. inet_lookup_listener E net daddr hnum dif s = Some (r, s') \<and>
    (if r = NULL
     then s' = s \<and> (\<forall>x \<in> listening s. \<forall>k. socks s x = Some k \<longrightarrow> compute_score k net hnum daddr dif = - 1)
     else r \<in> listening s \<and> (\<exists>k. socks s r = Some k \<and> 0 \<le> compute_score k net hnum daddr dif \<and>
            s' = s\<lparr>socks := (socks s)(r \<mapsto> k\<lparr>sk_refcnt := sk_refcnt k + 1\<rparr>)\<rparr> \<and>
            (\<forall>x \<in> listening s. \<forall>kx. socks s x = Some kx \<longrightarrow>
               compute_score kx net hnum daddr dif \<le> compute_score k net hnum daddr dif)))"
proof -
  define h where "h = unat (inet_lhashfn E net hnum)"
  have h: "h < length (listening_hash s)" using listen_slot_less [OF ok] by (simp add: h_def)
  have mem: "\<forall>x \<in> set (listening_hash s ! h). x \<noteq> NULL \<and> socks s x \<noteq> None"
    using in_slot_listening [OF h] ehash_okD(4) [OF ok] by blast
  from best_listener_spec [OF mem, of NULL "- 1" net hnum daddr dif] obtain r hi where
    b: "best_listener net hnum daddr dif (listening_hash s ! h) NULL (- 1) s = Some (r, hi)"
      "r = NULL \<or> r \<in> set (listening_hash s ! h)"
      "if r = NULL then hi = - 1 else \<exists>k. socks s r = Some k \<and> compute_score k net hnum daddr dif = hi \<and> 0 \<le> hi"
      and mx: "\<forall>x \<in> set (listening_hash s ! h). \<forall>k. socks s x = Some k \<longrightarrow> compute_score k net hnum daddr dif \<le> hi"
    by auto
  have lo: "- 1 \<le> compute_score k net hnum daddr dif" for k by (simp add: compute_score_def Let_def)
  have all: "compute_score kx net hnum daddr dif \<le> hi" if "x \<in> listening s" "socks s x = Some kx" for x kx
    using that mx score_in_slot [OF ok that, of net hnum daddr dif] lo [of kx] b(3)
    by (cases "0 \<le> compute_score kx net hnum daddr dif") (auto simp: h_def split: if_splits)
  show ?thesis
  proof (cases "r = NULL")
    case True
    then have "compute_score k net hnum daddr dif = - 1" if "x \<in> listening s" "socks s x = Some k" for x k
      using all [OF that] lo [of k] b(3) by simp
    with True b(1) h show ?thesis by (simp add: inet_lookup_listener_def h_def Let_def)
  next
    case False
    with b obtain k where k: "socks s r = Some k" "compute_score k net hnum daddr dif = hi" "0 \<le> hi"
      "r \<in> set (listening_hash s ! h)" by auto
    have r: "r \<in> listening s" using in_slot_listening [OF h k(4)] .
    have rk: "sk_refcnt k \<noteq> 0" using ref r k(1) by blast
    have "inet_lookup_listener E net daddr hnum dif s =
        Some (r, s\<lparr>socks := (socks s)(r \<mapsto> k\<lparr>sk_refcnt := sk_refcnt k + 1\<rparr>)\<rparr>)"
      using b(1) False h k(1) rk by (simp add: inet_lookup_listener_def h_def Let_def inc_not_zero_def)
    then show ?thesis using r k all False by auto
  qed
qed

lemma lookup_established_found:
  assumes "find_sock E (net, saddr, sport, daddr, hnum, dif) s = Some sk" "sk \<noteq> NULL"
    and "socks s sk = Some k" "sk_refcnt k \<noteq> 0"
  shows "inet_lookup_established E net saddr sport daddr hnum dif s =
           Some (Found_sock sk, s\<lparr>socks := (socks s)(sk \<mapsto> k\<lparr>sk_refcnt := sk_refcnt k + 1\<rparr>)\<rparr>)"
  using assms by (simp add: inet_lookup_established_def inc_not_zero_def Let_def split: if_splits)

text \<open>The identity a socket would have with a given local port.\<close>

definition tuple_of :: "hsock \<Rightarrow> u16 \<Rightarrow> tuple" where
  "tuple_of k lport = (sk_net k, inet_daddr k, inet_dport k, inet_rcv_saddr k, lport, sk_bound_dev_if k)"

fun tw_matches :: "htwsk \<Rightarrow> tuple \<Rightarrow> bool" where
  "tw_matches w (net, saddr, sport, daddr, hnum, dif) \<longleftrightarrow>
     tw_net w = net \<and> tw_daddr w = saddr \<and> tw_dport w = sport \<and> tw_rcv_saddr w = daddr \<and>
     tw_num w = hnum \<and> (tw_bound_dev_if w = 0 \<or> tw_bound_dev_if w = dif)"

definition no_timewait :: "inet_hashinfo \<Rightarrow> tuple \<Rightarrow> bool" where
  "no_timewait s q \<longleftrightarrow> (\<forall>b \<in> set (ehash s). \<forall>tw \<in> set (twchain b). \<forall>w. twsks s tw = Some w \<longrightarrow> \<not> tw_matches w q)"

lemma find_tw_none:
  assumes "\<forall>tw \<in> set chain. twsks s tw \<noteq> None"
    and "\<forall>tw \<in> set chain. \<forall>w. twsks s tw = Some w \<longrightarrow> \<not> tw_matches w (net, saddr, sport, daddr, hnum, dif)"
  shows "find_tw net hash (INET_ADDR_COOKIE saddr daddr) (INET_COMBINED_PORTS sport hnum) dif chain s = Some NULL"
  using assms by (induction chain) (auto simp: INET_TW_MATCH_iff)

lemma check_established_spec:
  assumes ok: "ehash_ok E s" and k: "socks s sk = Some k" "sk_node k = Unhashed" "sk \<noteq> NULL"
    and tw: "no_timewait s (tuple_of k lport)"
  shows "if \<exists>x \<in> established s. matches s x (tuple_of k lport)
    then inet_check_established E sk lport twp s = Some (- EADDRNOTAVAIL, NULL, s)
    else \<exists>s' h slot. inet_check_established E sk lport twp s = Some (0, NULL, s') \<and> ehash_ok E s' \<and>
      established s' = insert sk (established s) \<and> find_sock E (tuple_of k lport) s' = Some sk \<and>
      (\<exists>eh. s' = s\<lparr>socks := (socks s)(sk \<mapsto> k\<lparr>inet_num := lport, inet_sport := htons E lport,
              sk_hash := h, sk_node := In_ehash slot\<rparr>), ehash := eh, prot_inuse := prot_inuse s + 1\<rparr>)"
proof -
  define q where "q = tuple_of k lport"
  define hash where "hash = inet_ehashfn E (sk_net k) (inet_rcv_saddr k) lport (inet_daddr k) (inet_dport k)"
  define slot where "slot = inet_ehash_slot s hash"
  have sl: "slot < length (ehash s)" using ehash_slot_less [OF ok] by (simp add: slot_def)
  have b: "ehash s ! slot \<in> set (ehash s)" using sl by simp
  have ftw: "find_tw (sk_net k) hash (INET_ADDR_COOKIE (inet_daddr k) (inet_rcv_saddr k))
      (INET_COMBINED_PORTS (inet_dport k) lport) (sk_bound_dev_if k) (twchain (ehash s ! slot)) s = Some NULL"
    using tw b ehash_okD(6) [OF ok b] by (intro find_tw_none) (auto simp: no_timewait_def tuple_of_def)
  obtain sk2 where f: "find_sock E q s = Some sk2"
    and c: "if sk2 = NULL then \<forall>x \<in> established s. \<not> matches s x q else sk2 \<in> established s \<and> matches s sk2 q"
    using find_sock_spec [OF ok] by blast
  have f': "find_ehash (sk_net k) hash (INET_ADDR_COOKIE (inet_daddr k) (inet_rcv_saddr k))
      (INET_COMBINED_PORTS (inet_dport k) lport) (sk_bound_dev_if k) (ehchain (ehash s ! slot)) s = Some sk2"
    using f sl by (simp add: q_def tuple_of_def hash_def slot_def Let_def split: if_splits)
  define k' where "k' = k\<lparr>inet_num := lport, inet_sport := htons E lport, sk_hash := hash, sk_node := In_ehash slot\<rparr>"
  define s' where "s' = s\<lparr>socks := (socks s)(sk \<mapsto> k'),
      ehash := (ehash s)[slot := (ehash s ! slot)\<lparr>ehchain := sk # ehchain (ehash s ! slot)\<rparr>],
      prot_inuse := prot_inuse s + 1\<rparr>"
  note defs = inet_check_established_def k(1) Let_def hash_def [symmetric] slot_def [symmetric] ftw f'
  show ?thesis
  proof (cases "sk2 = NULL")
    case False
    then have "\<exists>x \<in> established s. matches s x (tuple_of k lport)" using c by (auto simp: q_def)
    moreover have "inet_check_established E sk lport twp s = Some (- EADDRNOTAVAIL, NULL, s)"
      using sl False by (simp add: defs)
    ultimately show ?thesis by simp
  next
    case True
    with c have none: "\<not> (\<exists>x \<in> established s. matches s x (tuple_of k lport))" by (simp add: q_def)
    have run: "inet_check_established E sk lport twp s = Some (0, NULL, s')"
      using sl True by (simp add: defs upd_sock_def sk_nulls_add_ehash_def s'_def k'_def)
    have hk: "inet_sk_ehashfn E k' = hash" by (simp add: k'_def inet_sk_ehashfn_def hash_def)
    have kn: "sk_hash k' = hash" "sk_node k' = In_ehash slot" by (simp_all add: k'_def)
    have add: "ehash_ok E s'" "established s' = insert sk (established s)"
      by (rule add_established [OF ok k, of k' slot s']; simp add: s'_def kn hk slot_def)+
    have oth: "matches s' x q = matches s x q" if "x \<noteq> sk" for x using that by (simp add: matches_def s'_def)
    have "matches s' sk q" by (simp add: matches_def s'_def k'_def q_def tuple_of_def)
    then have "find_sock E q s' = Some sk"
      using none oth add(2) by (intro etable.find_unique [OF add(1)]) (auto simp: q_def)
    with run add none show ?thesis by (auto simp: s'_def k'_def q_def)
  qed
qed

section \<open>A small table\<close>

text \<open>
  Two bind slots, two slots of established sockets and three sockets: one neither bound nor
  hashed (1), two that listen on port 80, for any address (2) and for one address (3).
\<close>

definition E0 :: henv where
  "E0 = \<lparr>jhash_3words = (\<lambda>a b c d. a + b + c + d), net_hash_mix = (\<lambda>n. 0), inet_ehash_secret = 0,
         htons = (\<lambda>x. word_rotl 8 x), ntohs = (\<lambda>x. word_rotl 8 x),
         secure_ipv4_port_ephemeral = (\<lambda>a b c. 0), net_random = (\<lambda>n. 7), local_ports_range = (32768, 32769),
         inet_is_reserved_local_port = (\<lambda>p. False), twsk_unique = (\<lambda>k w b. False),
         inet_twsk_unhash = (\<lambda>tw s. (0, s)), inet_twsk_bind_unhash = (\<lambda>tw s. (0, s)),
         inet_twsk_deschedule = (\<lambda>tw s. s), inet_twsk_put = (\<lambda>tw s. s)\<rparr>"

definition hk0 :: hsock where
  "hk0 = \<lparr>sk_family = 2, sk_reuse = False, sk_state = TCP_CLOSE, sk_bound_dev_if = 0, sk_hash = 0,
          sk_net = 0, sk_refcnt = 1, sk_node = Unhashed, inet_num = 0, inet_sport = 0,
          inet_dport = 5, inet_daddr = 9, inet_rcv_saddr = 8, icsk_bind_hash = NULL\<rparr>"

definition hl0 :: "be32 \<Rightarrow> hsock" where
  "hl0 a = hk0\<lparr>sk_state := TCP_LISTEN, inet_num := 80, inet_rcv_saddr := a, sk_node := In_listening 16\<rparr>"

definition H0 :: inet_hashinfo where
  "H0 = \<lparr>socks = [1 \<mapsto> hk0, 2 \<mapsto> hl0 0, 3 \<mapsto> hl0 8], twsks = Map.empty, tbs = Map.empty,
         ehash = [\<lparr>ehchain = [], twchain = []\<rparr>, \<lparr>ehchain = [], twchain = []\<rparr>], ehash_mask = 1,
         bhash = [[], []], bhash_size = 2, listening_hash = (replicate 32 [])[16 := [2, 3]],
         bsockets = 0, prot_inuse = 2, connect_hint = 0\<rparr>"

lemma E0_simps [simp]:
  "net_hash_mix E0 n = 0" "local_ports_range E0 = (32768, 32769)" "inet_is_reserved_local_port E0 p = False"
  by (simp_all add: E0_def)

lemma H0_simps [simp]:
  "socks H0 = [1 \<mapsto> hk0, 2 \<mapsto> hl0 0, 3 \<mapsto> hl0 8]" "twsks H0 = Map.empty" "tbs H0 = Map.empty"
  "eslots H0 = [[], []]" "listening_hash H0 = (replicate 32 [])[16 := [2, 3]]" "bhash H0 = [[], []]"
  "bhash_size H0 = 2" "ehash_mask H0 = 1" "bsockets H0 = 0" "prot_inuse H0 = 2" "established H0 = {}"
  "ehash H0 = [\<lparr>ehchain = [], twchain = []\<rparr>, \<lparr>ehchain = [], twchain = []\<rparr>]"
  by (simp_all add: H0_def eslots_def established_def)

lemma hk0_simps [simp]:
  "sk_node hk0 = Unhashed" "icsk_bind_hash hk0 = NULL" "sk_refcnt hk0 = 1" "sk_net hk0 = 0" "sk_reuse hk0 = False"
  "inet_num (hl0 a) = 80" "sk_node (hl0 a) = In_listening 16" "icsk_bind_hash (hl0 a) = NULL" "sk_refcnt (hl0 a) = 1"
  by (simp_all add: hk0_def hl0_def)

lemma H0_listening [simp]: "listening H0 = {2, 3}"
  by (simp add: listening_def upd_conv_take_nth_drop)

lemma H0_bind: "bind_wf E0 H0"
  by (auto simp: bind_wf_def bhash_ok_def owners_ok_def bound_def split: if_splits)

lemma H0_ehash: "ehash_ok E0 H0"
  unfolding ehash_ok_def
  by (auto simp: place_ok_def inet_sk_listen_hashfn_def inet_lhashfn_def INET_LHTABLE_SIZE_def
      upd_conv_take_nth_drop nth_append split: if_splits)

section \<open>Properties\<close>






text \<open>C14.
  A bound socket can give its port back: the release succeeds, keeps the bind table well-formed
  (an empty bucket is removed, the counts are right) and leaves the socket with no bucket and
  port 0, every other socket as it was.
\<close>

theorem bind_release:
  assumes "bind_wf E s" "socks s sk = Some k" "icsk_bind_hash k = NULL" "tbs s new_tb = None" "snum \<noteq> 0"
    and "inet_csk_get_port E new_tb sk snum s = Some (0, s1)"
  shows "\<exists>s2. inet_put_port E sk s1 = Some s2 \<and> bind_wf E s2 \<and>
           socks s2 = (socks s)(sk \<mapsto> k\<lparr>icsk_bind_hash := NULL, inet_num := 0\<rparr>)"
proof -
  have "may_bind s sk k snum" using assms by (simp add: may_bind_def)
  from get_port_have_spec [OF assms(1) this assms(4), of "- 1" True] assms(5,6)
  have "bound_post E s sk k snum s1"
    by (auto simp: inet_csk_get_port_def have_post_def split: option.splits)
  then obtain tb where tb: "bind_wf E s1" "tb \<noteq> NULL"
    "socks s1 = (socks s)(sk \<mapsto> k\<lparr>inet_num := snum, icsk_bind_hash := tb\<rparr>)"
    unfolding bound_post_def by blast
  then obtain s2 where "inet_put_port E sk s1 = Some s2" "bind_wf E s2"
    "socks s2 = (socks s1)(sk \<mapsto> k\<lparr>inet_num := snum, icsk_bind_hash := tb\<rparr>\<lparr>icsk_bind_hash := NULL, inet_num := 0\<rparr>)"
    using put_port_spec [OF tb(1), of sk "k\<lparr>inet_num := snum, icsk_bind_hash := tb\<rparr>"] by auto
  with tb(3) show ?thesis by simp
qed

theorem bind_release_witness:
  "\<exists>s1 s2. inet_csk_get_port E0 5 1 80 H0 = Some (0, s1) \<and> inet_put_port E0 1 s1 = Some s2 \<and> bind_wf E0 s2"
proof -
  obtain s1 where s1: "inet_csk_get_port E0 5 1 80 H0 = Some (0, s1)"
    by (simp add: inet_csk_get_port_def get_port_have_def bhash_chain_def inet_bhashfn_def get_port_bind_def
        inet_bind_bucket_create_def upd_tb_def get_port_success_def inet_bind_hash_def upd_sock_def)
  have "\<exists>s2. inet_put_port E0 1 s1 = Some s2 \<and> bind_wf E0 s2 \<and> socks s2 = (socks H0)(1 \<mapsto> hk0\<lparr>icsk_bind_hash := NULL, inet_num := 0\<rparr>)"
    by (rule bind_release [OF H0_bind _ _ _ _ s1]) simp_all
  with s1 show ?thesis by blast
qed

text \<open>C13.
  A connected socket that enters the table of established sockets is what the lookup for a
  segment of its connection returns (with one reference more), when no other socket has that
  identity; and removing it leaves the table well-formed, with no socket for such a segment.
\<close>

theorem established_roundtrip:
  assumes "ehash_ok E s" "can_hash s sk" "matches s sk (net, saddr, sport, daddr, hnum, dif)"
    and "\<forall>y \<in> established s. \<not> matches s y (net, saddr, sport, daddr, hnum, dif)"
    and "\<forall>k. socks s sk = Some k \<longrightarrow> sk_refcnt k \<noteq> 0"
  shows "\<exists>s1 k1 s2. inet_hash_nolisten E sk NULL s = Some (0, s1) \<and> ehash_ok E s1 \<and> socks s1 sk = Some k1 \<and>
           inet_lookup_established E net saddr sport daddr hnum dif s1 =
             Some (Found_sock sk, s1\<lparr>socks := (socks s1)(sk \<mapsto> k1\<lparr>sk_refcnt := sk_refcnt k1 + 1\<rparr>)\<rparr>) \<and>
           inet_unhash sk s1 = Some s2 \<and> ehash_ok E s2 \<and>
           find_sock E (net, saddr, sport, daddr, hnum, dif) s2 = Some NULL"
proof -
  define q where "q = (net, saddr, sport, daddr, hnum, dif)"
  from assms(2) obtain k where k: "sk \<noteq> NULL" "socks s sk = Some k" "sk_node k = Unhashed"
    by (auto simp: can_hash_def)
  from hash_nolisten_spec [OF assms(1) k(2,3,1)] obtain s1 where
    s1: "inet_hash_nolisten E sk NULL s = Some (0, s1)" "ehash_ok E s1"
      "established s1 = insert sk (established s)"
      "socks s1 = (socks s)(sk \<mapsto> k\<lparr>sk_hash := inet_sk_ehashfn E k,
                     sk_node := In_ehash (inet_ehash_slot s (inet_sk_ehashfn E k))\<rparr>)" by blast
  have m: "matches s1 y q = matches s y q" for y by (rule matches_place [OF k(2) s1(4)])
  have u: "sk \<in> established s1" "matches s1 sk q" "\<forall>y \<in> established s1. matches s1 y q \<longrightarrow> y = sk"
    using assms(3,4) by (auto simp: m s1(3) simp flip: q_def)
  have "find_sock E q s1 = Some sk" by (rule etable.find_unique [OF s1(2) u])
  then have "inet_lookup_established E net saddr sport daddr hnum dif s1 = Some (Found_sock sk,
      s1\<lparr>socks := (socks s1)(sk \<mapsto> (the (socks s1 sk))\<lparr>sk_refcnt := sk_refcnt (the (socks s1 sk)) + 1\<rparr>)\<rparr>)"
    unfolding q_def by (rule lookup_established_found) (use k(1,2) assms(5) in \<open>simp_all add: s1(4)\<close>)
  with etable.del_find [OF s1(2) u(1,3)] s1 show ?thesis by (auto simp: q_def)
qed

theorem established_roundtrip_witness:
  "\<exists>s1 s2. inet_hash_nolisten E0 1 NULL H0 = Some (0, s1) \<and> inet_unhash 1 s1 = Some s2 \<and> ehash_ok E0 s2 \<and>
     find_sock E0 (0, 9, 5, 8, 0, 0) s2 = Some NULL"
proof -
  have "matches H0 1 (0, 9, 5, 8, 0, 0)" by (simp add: matches_def, simp add: hk0_def)
  then show ?thesis
    using established_roundtrip [OF H0_ehash, of 1 0 9 5 8 0 0] by (auto simp: can_hash_def)
qed

text \<open>C12.
  The lookup of a listening socket ends and returns the best match in the whole table: a
  listening socket of the highest score (bound to the destination address, to the device), with
  one reference more and nothing else changed; and none only when no listening socket
  accepts the segment.
\<close>

theorem lookup_listener_best:
  assumes "ehash_ok E s" "\<forall>x \<in> listening s. \<forall>k. socks s x = Some k \<longrightarrow> sk_refcnt k \<noteq> 0"
  shows "\<exists>r s'. inet_lookup_listener E net daddr hnum dif s = Some (r, s') \<and>
    (if r = NULL
     then s' = s \<and> (\<forall>x \<in> listening s. \<forall>k. socks s x = Some k \<longrightarrow> compute_score k net hnum daddr dif = - 1)
     else r \<in> listening s \<and> (\<exists>k. socks s r = Some k \<and> 0 \<le> compute_score k net hnum daddr dif \<and>
            s' = s\<lparr>socks := (socks s)(r \<mapsto> k\<lparr>sk_refcnt := sk_refcnt k + 1\<rparr>)\<rparr> \<and>
            (\<forall>x \<in> listening s. \<forall>kx. socks s x = Some kx \<longrightarrow>
               compute_score kx net hnum daddr dif \<le> compute_score k net hnum daddr dif)))"
  by (rule lookup_listener_spec [OF assms])

theorem lookup_listener_best_witness:
  "\<exists>s'. inet_lookup_listener E0 0 8 80 1 H0 = Some (3, s')"
proof -
  have "\<forall>x \<in> listening H0. \<forall>k. socks H0 x = Some k \<longrightarrow> sk_refcnt k \<noteq> 0" by auto
  from lookup_listener_best [OF H0_ehash this, of 0 8 80 1] obtain r s' where
    r: "inet_lookup_listener E0 0 8 80 1 H0 = Some (r, s')"
    and c: "if r = NULL then \<forall>x \<in> {2, 3}. \<forall>k. socks H0 x = Some k \<longrightarrow> compute_score k 0 80 8 1 = - 1
      else r \<in> {2, 3} \<and> (\<exists>k. socks H0 r = Some k \<and> (\<forall>x \<in> {2, 3}. \<forall>kx. socks H0 x = Some kx \<longrightarrow>
             compute_score kx 0 80 8 1 \<le> compute_score k 0 80 8 1))"
    unfolding H0_listening by metis
  have sc: "compute_score (hl0 0) 0 80 8 1 = 1" "compute_score (hl0 8) 0 80 8 1 = 3"
    by (simp_all add: compute_score_def hl0_def hk0_def PF_INET_def)
  have "r = 3" using c by (auto simp: sc split: if_splits)
  with r show ?thesis by blast
qed



end
