(* ===== verification/Tcp_Options.thy ===== *)
theory Tcp_Options
  imports Kernel_Prelude
begin

text \<open>
  The options of a TCP header: \<^verbatim>\<open>struct tcp_options_received\<close> of \<^verbatim>\<open>include/linux/tcp.h\<close> and the
  parsers of \<^verbatim>\<open>net/ipv4/tcp_input.c\<close>. Memory from the end of the fixed header on is a list of
  bytes; a read behind the last byte is a fault, \<^term>\<open>None\<close>. Bit fields are words of their width.
  The header \<^verbatim>\<open>net/tcp.h\<close> is outside the repository: its constants, comparisons and helpers are
  the parameter record \<open>tenv\<close>, with the laws below.
\<close>

type_synonym u4 = "4 word"
type_synonym u6 = "6 word"

section \<open>Data\<close>

record tcp_options_received =
  ts_recent_stamp :: u64
  ts_recent :: u32
  rcv_tsval :: u32
  rcv_tsecr :: u32
  saw_tstamp :: bool
  tstamp_ok :: bool
  dsack :: bool
  wscale_ok :: bool
  sack_ok :: u4
  snd_wscale :: u4
  rcv_wscale :: u4
  cookie_plus :: u6
  cookie_out_never :: bool
  cookie_in_always :: bool
  num_sacks :: u8
  user_mss :: u16
  mss_clamp :: u16

definition tcp_clear_options :: "tcp_options_received \<Rightarrow> tcp_options_received" where
  "tcp_clear_options rx =
     rx\<lparr>tstamp_ok := False, sack_ok := 0, wscale_ok := False, snd_wscale := 0, cookie_plus := 0\<rparr>"

section \<open>Parameters\<close>

record tenv =
  before :: "u32 \<Rightarrow> u32 \<Rightarrow> bool"
  after :: "u32 \<Rightarrow> u32 \<Rightarrow> bool"
  get_unaligned_be16 :: "u8 \<Rightarrow> u8 \<Rightarrow> u16"
  get_unaligned_be32 :: "u8 \<Rightarrow> u8 \<Rightarrow> u8 \<Rightarrow> u8 \<Rightarrow> u32"
  htonl :: "u32 \<Rightarrow> be32"
  ntohl :: "be32 \<Rightarrow> u32"
  tcp_sack_reset :: "tcp_options_received \<Rightarrow> tcp_options_received"
  tcp_paws_check :: "tcp_options_received \<Rightarrow> int \<Rightarrow> bool"
  tcp_paws_reject :: "tcp_options_received \<Rightarrow> bool \<Rightarrow> bool"
  get_seconds :: u64
  TCPOPT_EOL :: int
  TCPOPT_NOP :: int
  TCPOPT_MSS :: int
  TCPOPT_WINDOW :: int
  TCPOPT_SACK_PERM :: int
  TCPOPT_SACK :: int
  TCPOPT_TIMESTAMP :: int
  TCPOPT_MD5SIG :: int
  TCPOPT_COOKIE :: int
  TCPOLEN_MSS :: int
  TCPOLEN_WINDOW :: int
  TCPOLEN_SACK_PERM :: int
  TCPOLEN_TIMESTAMP :: int
  TCPOLEN_MD5SIG :: int
  TCPOLEN_COOKIE_BASE :: int
  TCPOLEN_COOKIE_PAIR :: int
  TCPOLEN_COOKIE_MIN :: int
  TCPOLEN_COOKIE_MAX :: int
  TCPOLEN_TSTAMP_ALIGNED :: int
  TCPOLEN_SACK_BASE :: int
  TCPOLEN_SACK_PERBLOCK :: int
  sysctl_tcp_timestamps :: bool
  sysctl_tcp_window_scaling :: bool
  sysctl_tcp_sack :: bool
  sysctl_tcp_dsack :: bool

text \<open>Sequence numbers are compared by the sign of their 32-bit difference.\<close>

definition seq_law :: "tenv \<Rightarrow> bool" where
  "seq_law E \<longleftrightarrow> (\<forall>a b. before E a b \<longleftrightarrow> sint (a - b) < 0) \<and> (\<forall>a b. after E a b \<longleftrightarrow> before E b a)"

text \<open>Bytes of a big-endian integer, and of an integer in the memory of this machine.\<close>

definition be16_of :: "u8 \<Rightarrow> u8 \<Rightarrow> u16" where
  "be16_of a b = push_bit 8 (ucast a) OR ucast b"

definition be32_of :: "u8 \<Rightarrow> u8 \<Rightarrow> u8 \<Rightarrow> u8 \<Rightarrow> u32" where
  "be32_of a b c d = push_bit 24 (ucast a) OR push_bit 16 (ucast b) OR push_bit 8 (ucast c) OR ucast d"

definition le32_of :: "u8 \<Rightarrow> u8 \<Rightarrow> u8 \<Rightarrow> u8 \<Rightarrow> be32" where
  "le32_of a b c d = be32_of d c b a"

definition byteorder_law :: "tenv \<Rightarrow> bool" where
  "byteorder_law E \<longleftrightarrow>
     (\<forall>a b. get_unaligned_be16 E a b = be16_of a b) \<and>
     (\<forall>a b c d. get_unaligned_be32 E a b c d = be32_of a b c d) \<and>
     (\<forall>a b c d. htonl E (be32_of a b c d) = le32_of a b c d) \<and>
     (\<forall>a b c d. ntohl E (le32_of a b c d) = be32_of a b c d)"

text \<open>The option numbers and lengths are the assigned ones.\<close>

definition option_law :: "tenv \<Rightarrow> bool" where
  "option_law E \<longleftrightarrow>
     TCPOPT_EOL E = 0 \<and> TCPOPT_NOP E = 1 \<and> TCPOPT_MSS E = 2 \<and> TCPOPT_WINDOW E = 3 \<and>
     TCPOPT_SACK_PERM E = 4 \<and> TCPOPT_SACK E = 5 \<and> TCPOPT_TIMESTAMP E = 8 \<and>
     TCPOPT_MD5SIG E = 19 \<and> TCPOPT_COOKIE E = 253 \<and>
     TCPOLEN_MSS E = 4 \<and> TCPOLEN_WINDOW E = 3 \<and> TCPOLEN_SACK_PERM E = 2 \<and>
     TCPOLEN_TIMESTAMP E = 10 \<and> TCPOLEN_MD5SIG E = 18 \<and> TCPOLEN_COOKIE_BASE E = 2 \<and>
     TCPOLEN_COOKIE_PAIR E = 3 \<and> TCPOLEN_COOKIE_MIN E = 10 \<and> TCPOLEN_COOKIE_MAX E = 18 \<and>
     TCPOLEN_TSTAMP_ALIGNED E = 12 \<and> TCPOLEN_SACK_BASE E = 2 \<and> TCPOLEN_SACK_PERBLOCK E = 8"

definition sack_reset_law :: "tenv \<Rightarrow> bool" where
  "sack_reset_law E \<longleftrightarrow> (\<forall>rx. tcp_sack_reset E rx = rx\<lparr>dsack := False, num_sacks := 0\<rparr>)"

section \<open>The parser\<close>

text \<open>
  What the parser writes: the options, the offset of the SACK option in the control block of
  the segment, and the place of a cookie (counted from the end of the fixed header).
\<close>

record parsed =
  opt_rx :: tcp_options_received
  cb_sacked :: u8
  hvpp :: "nat option"

definition rd8 :: "u8 list \<Rightarrow> nat \<Rightarrow> u8 option" where
  "rd8 mem p = (if p < length mem then Some (mem ! p) else None)"

definition rd16 :: "tenv \<Rightarrow> u8 list \<Rightarrow> nat \<Rightarrow> u16 option" where
  "rd16 E mem p = do { a \<leftarrow> rd8 mem p; b \<leftarrow> rd8 mem (p + 1); Some (get_unaligned_be16 E a b) }"

definition rd32 :: "tenv \<Rightarrow> u8 list \<Rightarrow> nat \<Rightarrow> u32 option" where
  "rd32 E mem p = do {
     a \<leftarrow> rd8 mem p; b \<leftarrow> rd8 mem (p + 1); c \<leftarrow> rd8 mem (p + 2); d \<leftarrow> rd8 mem (p + 3);
     Some (get_unaligned_be32 E a b c d) }"

text \<open>The inner switch: one option with its size, its data at \<open>p\<close>.\<close>

definition opt_mss :: "tenv \<Rightarrow> bool \<Rightarrow> bool \<Rightarrow> u8 list \<Rightarrow> nat \<Rightarrow> int \<Rightarrow> parsed \<Rightarrow> parsed option" where
  "opt_mss E syn estab mem p opsize st =
     (if opsize = TCPOLEN_MSS E \<and> syn \<and> \<not> estab then do {
        in_mss \<leftarrow> rd16 E mem p;
        let rx = opt_rx st;
        Some (if in_mss \<noteq> 0
              then st\<lparr>opt_rx := rx\<lparr>mss_clamp :=
                     (if user_mss rx \<noteq> 0 \<and> user_mss rx < in_mss then user_mss rx else in_mss)\<rparr>\<rparr>
              else st) }
      else Some st)"

definition opt_window :: "tenv \<Rightarrow> bool \<Rightarrow> bool \<Rightarrow> u8 list \<Rightarrow> nat \<Rightarrow> int \<Rightarrow> parsed \<Rightarrow> parsed option" where
  "opt_window E syn estab mem p opsize st =
     (if opsize = TCPOLEN_WINDOW E \<and> syn \<and> \<not> estab \<and> sysctl_tcp_window_scaling E then do {
        v \<leftarrow> rd8 mem p;
        let ws = (if 14 < v then 14 else v);
        Some (st\<lparr>opt_rx := (opt_rx st)\<lparr>wscale_ok := True, snd_wscale := ucast ws\<rparr>\<rparr>) }
      else Some st)"

definition opt_timestamp :: "tenv \<Rightarrow> bool \<Rightarrow> u8 list \<Rightarrow> nat \<Rightarrow> int \<Rightarrow> parsed \<Rightarrow> parsed option" where
  "opt_timestamp E estab mem p opsize st =
     (if opsize = TCPOLEN_TIMESTAMP E \<and>
         (estab \<and> tstamp_ok (opt_rx st) \<or> \<not> estab \<and> sysctl_tcp_timestamps E) then do {
        v \<leftarrow> rd32 E mem p;
        e \<leftarrow> rd32 E mem (p + 4);
        Some (st\<lparr>opt_rx := (opt_rx st)\<lparr>saw_tstamp := True, rcv_tsval := v, rcv_tsecr := e\<rparr>\<rparr>) }
      else Some st)"

definition parse_option ::
    "tenv \<Rightarrow> bool \<Rightarrow> bool \<Rightarrow> u8 list \<Rightarrow> int \<Rightarrow> nat \<Rightarrow> int \<Rightarrow> parsed \<Rightarrow> parsed option" where
  "parse_option E syn estab mem opcode p opsize st =
     (if opcode = TCPOPT_MSS E then opt_mss E syn estab mem p opsize st
      else if opcode = TCPOPT_WINDOW E then opt_window E syn estab mem p opsize st
      else if opcode = TCPOPT_TIMESTAMP E then opt_timestamp E estab mem p opsize st
      else if opcode = TCPOPT_SACK_PERM E then
        Some (if opsize = TCPOLEN_SACK_PERM E \<and> syn \<and> \<not> estab \<and> sysctl_tcp_sack E
              then st\<lparr>opt_rx := tcp_sack_reset E ((opt_rx st)\<lparr>sack_ok := 1\<rparr>)\<rparr> else st)
      else if opcode = TCPOPT_SACK E then
        Some (if TCPOLEN_SACK_BASE E + TCPOLEN_SACK_PERBLOCK E \<le> opsize \<and>
                 (opsize - TCPOLEN_SACK_BASE E) mod TCPOLEN_SACK_PERBLOCK E = 0 \<and> sack_ok (opt_rx st) \<noteq> 0
              then st\<lparr>cb_sacked := of_nat (p - 2 + 20)\<rparr> else st)
      else if opcode = TCPOPT_MD5SIG E then Some st
      else if opcode = TCPOPT_COOKIE E then
        Some (if opsize \<in> {TCPOLEN_COOKIE_BASE E, TCPOLEN_COOKIE_PAIR E} then st
              else if opsize \<in> {TCPOLEN_COOKIE_MIN E, TCPOLEN_COOKIE_MIN E + 2, TCPOLEN_COOKIE_MIN E + 4,
                                TCPOLEN_COOKIE_MIN E + 6, TCPOLEN_COOKIE_MAX E}
              then st\<lparr>opt_rx := (opt_rx st)\<lparr>cookie_plus := of_int opsize\<rparr>, hvpp := Some p\<rparr>
              else st)
      else Some st)"

function parse_loop ::
    "tenv \<Rightarrow> bool \<Rightarrow> bool \<Rightarrow> u8 list \<Rightarrow> nat \<Rightarrow> int \<Rightarrow> parsed \<Rightarrow> parsed option" where
  "parse_loop E syn estab mem p len st =
     (if 0 < len then do {
        opcode \<leftarrow> rd8 mem p;
        if uint opcode = TCPOPT_EOL E then Some st
        else if uint opcode = TCPOPT_NOP E then parse_loop E syn estab mem (p + 1) (len - 1) st
        else do {
          opsize \<leftarrow> rd8 mem (p + 1);
          if uint opsize < 2 then Some st
          else if len < uint opsize then Some st
          else do {
            st1 \<leftarrow> parse_option E syn estab mem (uint opcode) (p + 2) (uint opsize) st;
            parse_loop E syn estab mem (p + unat opsize) (len - uint opsize) st1 } } }
      else Some st)"
  by pat_completeness auto
termination
  by (relation "measure (\<lambda>(E, syn, estab, mem, p, len, st). nat len)") auto

declare parse_loop.simps [simp del]

definition tcp_parse_options ::
    "tenv \<Rightarrow> u4 \<Rightarrow> bool \<Rightarrow> u8 list \<Rightarrow> bool \<Rightarrow> parsed \<Rightarrow> parsed option" where
  "tcp_parse_options E doff syn mem estab st =
     parse_loop E syn estab mem 0 (uint doff * 4 - 20) (st\<lparr>opt_rx := (opt_rx st)\<lparr>saw_tstamp := False\<rparr>\<rparr>)"

text \<open>The short cut for a header that holds a timestamp only.\<close>

definition ld32 :: "u8 list \<Rightarrow> nat \<Rightarrow> be32 option" where
  "ld32 mem p = do {
     a \<leftarrow> rd8 mem p; b \<leftarrow> rd8 mem (p + 1); c \<leftarrow> rd8 mem (p + 2); d \<leftarrow> rd8 mem (p + 3);
     Some (le32_of a b c d) }"

definition tcp_parse_aligned_timestamp ::
    "tenv \<Rightarrow> u8 list \<Rightarrow> tcp_options_received \<Rightarrow> (bool \<times> tcp_options_received) option" where
  "tcp_parse_aligned_timestamp E mem rx = do {
     w \<leftarrow> ld32 mem 0;
     if w = htonl E (push_bit 24 (of_int (TCPOPT_NOP E)) OR push_bit 16 (of_int (TCPOPT_NOP E)) OR
                  push_bit 8 (of_int (TCPOPT_TIMESTAMP E)) OR of_int (TCPOLEN_TIMESTAMP E))
     then do {
       v \<leftarrow> ld32 mem 4;
       e \<leftarrow> ld32 mem 8;
       Some (True, rx\<lparr>saw_tstamp := True, rcv_tsval := ntohl E v, rcv_tsecr := ntohl E e\<rparr>) }
     else Some (False, rx) }"

definition tcp_fast_parse_options ::
    "tenv \<Rightarrow> u4 \<Rightarrow> bool \<Rightarrow> u8 list \<Rightarrow> parsed \<Rightarrow> (bool \<times> parsed) option" where
  "tcp_fast_parse_options E doff syn mem st =
     (if uint doff = 20 div 4 then Some (False, st\<lparr>opt_rx := (opt_rx st)\<lparr>saw_tstamp := False\<rparr>\<rparr>)
      else do {
        (hit, rx) \<leftarrow> (if tstamp_ok (opt_rx st) \<and> uint doff = (20 + TCPOLEN_TSTAMP_ALIGNED E) div 4
                      then tcp_parse_aligned_timestamp E mem (opt_rx st) else Some (False, opt_rx st));
        if hit then Some (True, st\<lparr>opt_rx := rx\<rparr>)
        else do { st1 \<leftarrow> tcp_parse_options E doff syn mem True (st\<lparr>opt_rx := rx\<rparr>); Some (True, st1) } })"

text \<open>The search for a signature; the result is the place of its 16 bytes.\<close>

function md5sig_loop :: "tenv \<Rightarrow> u8 list \<Rightarrow> nat \<Rightarrow> int \<Rightarrow> nat option option" where
  "md5sig_loop E mem p len =
     (if 0 < len then do {
        opcode \<leftarrow> rd8 mem p;
        if uint opcode = TCPOPT_EOL E then Some None
        else if uint opcode = TCPOPT_NOP E then md5sig_loop E mem (p + 1) (len - 1)
        else do {
          opsize \<leftarrow> rd8 mem (p + 1);
          if uint opsize < 2 \<or> len < uint opsize then Some None
          else if uint opcode = TCPOPT_MD5SIG E
          then Some (if uint opsize = TCPOLEN_MD5SIG E then Some (p + 2) else None)
          else md5sig_loop E mem (p + unat opsize) (len - uint opsize) } }
      else Some None)"
  by pat_completeness auto
termination
  by (relation "measure (\<lambda>(E, mem, p, len). nat len)") auto

declare md5sig_loop.simps [simp del]

definition tcp_parse_md5sig_option :: "tenv \<Rightarrow> u4 \<Rightarrow> u8 list \<Rightarrow> nat option option" where
  "tcp_parse_md5sig_option E doff mem =
     (let len = uint doff * 4 - 20
      in if len < TCPOLEN_MD5SIG E then Some None else md5sig_loop E mem 0 len)"

end
