(* ===== verification/Tcp_Options_Correct.thy ===== *)
theory Tcp_Options_Correct
  imports Tcp_Options
begin

text \<open>
  Correctness of the option parsers: they do not fault, bytes behind the header have no
  influence, well-formed options are given their meaning, the short cut agrees with the general
  parser, and the values negotiated stay in their ranges.
\<close>

section \<open>Reading memory\<close>

lemma rd8_Some [simp]: "p < length mem \<Longrightarrow> rd8 mem p = Some (mem ! p)"
  by (simp add: rd8_def)

lemma rd16_Some: "p + 1 < length mem \<Longrightarrow> rd16 E mem p = Some (get_unaligned_be16 E (mem ! p) (mem ! (p + 1)))"
  by (simp add: rd16_def)

lemma rd32_Some: "p + 3 < length mem \<Longrightarrow>
    rd32 E mem p = Some (get_unaligned_be32 E (mem ! p) (mem ! (p + 1)) (mem ! (p + 2)) (mem ! (p + 3)))"
  by (simp add: rd32_def)

lemma option_lawD:
  assumes "option_law E"
  shows "TCPOPT_EOL E = 0" "TCPOPT_NOP E = 1" "TCPOPT_MSS E = 2" "TCPOPT_WINDOW E = 3"
    "TCPOPT_SACK_PERM E = 4" "TCPOPT_SACK E = 5" "TCPOPT_TIMESTAMP E = 8" "TCPOPT_MD5SIG E = 19"
    "TCPOPT_COOKIE E = 253" "TCPOLEN_MSS E = 4" "TCPOLEN_WINDOW E = 3" "TCPOLEN_SACK_PERM E = 2"
    "TCPOLEN_TIMESTAMP E = 10" "TCPOLEN_MD5SIG E = 18" "TCPOLEN_COOKIE_BASE E = 2"
    "TCPOLEN_COOKIE_PAIR E = 3" "TCPOLEN_COOKIE_MIN E = 10" "TCPOLEN_COOKIE_MAX E = 18"
    "TCPOLEN_TSTAMP_ALIGNED E = 12" "TCPOLEN_SACK_BASE E = 2" "TCPOLEN_SACK_PERBLOCK E = 8"
  using assms by (simp_all add: option_law_def)

lemmas opt_defs = parse_option_def opt_mss_def opt_window_def opt_timestamp_def

section \<open>No fault, and no influence of what follows\<close>

lemma parse_option_total:
  assumes "option_law E" "int p + opsize \<le> int (length mem) + 2"
  shows "\<exists>st'. parse_option E syn estab mem opcode p opsize st = Some st'"
proof -
  note E = option_lawD [OF assms(1)]
  have "opt_mss E syn estab mem p opsize st \<noteq> None"
    using assms(2) by (simp add: opt_mss_def E rd16_Some Let_def)
  moreover have "opt_window E syn estab mem p opsize st \<noteq> None"
    using assms(2) by (simp add: opt_window_def E Let_def)
  moreover have "opt_timestamp E estab mem p opsize st \<noteq> None"
    using assms(2) by (simp add: opt_timestamp_def E rd32_Some)
  ultimately have "parse_option E syn estab mem opcode p opsize st \<noteq> None"
    by (simp add: parse_option_def)
  then show ?thesis by simp
qed

lemma parse_option_cong:
  assumes "option_law E" "int p + opsize \<le> int (length mem) + 2" "int p + opsize \<le> int (length mem') + 2"
    and "\<forall>i. int i + 2 < int p + opsize \<longrightarrow> mem ! i = mem' ! i"
  shows "parse_option E syn estab mem opcode p opsize st = parse_option E syn estab mem' opcode p opsize st"
proof -
  note E = option_lawD [OF assms(1)]
  have m: "mem ! i = mem' ! i" if "int i + 2 < int p + opsize" for i using assms(4) that by blast
  have "opt_mss E syn estab mem p opsize st = opt_mss E syn estab mem' p opsize st"
    using assms(2,3) m [of p] m [of "p + 1"] by (simp add: opt_mss_def E rd16_Some)
  moreover have "opt_window E syn estab mem p opsize st = opt_window E syn estab mem' p opsize st"
    using assms(2,3) m [of p] by (simp add: opt_window_def E)
  moreover have "rd32 E mem q = rd32 E mem' q" if "opsize = 10" "q \<in> {p, p + 4}" for q
    using that assms(2,3) m [of q] m [of "q + 1"] m [of "q + 2"] m [of "q + 3"] by (auto simp: rd32_Some)
  then have "opt_timestamp E estab mem p opsize st = opt_timestamp E estab mem' p opsize st"
    by (cases "opsize = 10") (simp_all add: opt_timestamp_def E)
  ultimately show ?thesis by (simp add: parse_option_def)
qed

text \<open>One round of the loop, by the byte it finds.\<close>

lemma parse_loop_end: "len \<le> 0 \<Longrightarrow> parse_loop E syn estab mem p len st = Some st"
  by (subst parse_loop.simps) simp

lemma parse_loop_eol:
  "0 < len \<Longrightarrow> rd8 mem p = Some c \<Longrightarrow> uint c = TCPOPT_EOL E \<Longrightarrow>
   parse_loop E syn estab mem p len st = Some st"
  by (subst parse_loop.simps) simp

lemma parse_loop_nop:
  "0 < len \<Longrightarrow> rd8 mem p = Some c \<Longrightarrow> uint c \<noteq> TCPOPT_EOL E \<Longrightarrow> uint c = TCPOPT_NOP E \<Longrightarrow>
   parse_loop E syn estab mem p len st = parse_loop E syn estab mem (p + 1) (len - 1) st"
  by (subst parse_loop.simps) simp

lemma parse_loop_opt:
  "0 < len \<Longrightarrow> rd8 mem p = Some c \<Longrightarrow> uint c \<noteq> TCPOPT_EOL E \<Longrightarrow> uint c \<noteq> TCPOPT_NOP E \<Longrightarrow>
   parse_loop E syn estab mem p len st =
     (case rd8 mem (p + 1) of
        None \<Rightarrow> None
      | Some sz \<Rightarrow> if uint sz < 2 \<or> len < uint sz then Some st
          else Option.bind (parse_option E syn estab mem (uint c) (p + 2) (uint sz) st)
                 (parse_loop E syn estab mem (p + unat sz) (len - uint sz)))"
  by (subst parse_loop.simps) (simp split: option.split)

lemma parse_loop_total:
  assumes "option_law E" "int p + len < int (length mem)"
  shows "\<exists>st'. parse_loop E syn estab mem p len st = Some st'"
  using assms
proof (induction "nat len" arbitrary: p len st rule: less_induct)
  case less
  show ?case
  proof (cases "0 < len")
    case True
    define c sz where "c = mem ! p" and "sz = mem ! (p + 1)"
    have r: "rd8 mem p = Some c" "rd8 mem (p + 1) = Some sz"
      using True less.prems by (simp_all add: rd8_def c_def sz_def)
    consider "uint c = TCPOPT_EOL E" | "uint c \<noteq> TCPOPT_EOL E" "uint c = TCPOPT_NOP E"
      | "uint c \<noteq> TCPOPT_EOL E" "uint c \<noteq> TCPOPT_NOP E" by blast
    then show ?thesis
    proof cases
      case 1
      with True r show ?thesis by (simp add: parse_loop_eol)
    next
      case 2
      with True r less show ?thesis by (simp add: parse_loop_nop)
    next
      case 3
      show ?thesis
      proof (cases "uint sz < 2 \<or> len < uint sz")
        case False
        then obtain st1 where "parse_option E syn estab mem (uint c) (p + 2) (uint sz) st = Some st1"
          using parse_option_total [OF less.prems(1), of "p + 2" "uint sz" mem syn estab "uint c" st] less.prems(2)
          by fastforce
        moreover have "\<exists>st'. parse_loop E syn estab mem (p + unat sz) (len - uint sz) st1 = Some st'"
          using False less.prems by (intro less.hyps) (simp_all add: nat_less_iff)
        ultimately show ?thesis using True r 3 False by (simp add: parse_loop_opt [OF True r(1) 3])
      qed (simp add: parse_loop_opt [OF True r(1) 3] r(2)[simplified])
    qed
  qed (simp add: parse_loop_end)
qed

lemma parse_loop_cong:
  assumes "option_law E" "int p + len < int (length mem)" "int p + len < int (length mem')"
    and "\<forall>i. int i < int p + len \<longrightarrow> mem ! i = mem' ! i"
  shows "parse_loop E syn estab mem p len st = parse_loop E syn estab mem' p len st"
  using assms
proof (induction "nat len" arbitrary: p len st rule: less_induct)
  case less
  show ?case
  proof (cases "0 < len")
    case True
    define c sz sz' where "c = mem ! p" and "sz = mem ! (p + 1)" and "sz' = mem' ! (p + 1)"
    have r: "rd8 mem p = Some c" "rd8 mem' p = Some c" "rd8 mem (p + 1) = Some sz" "rd8 mem' (p + 1) = Some sz'"
      using True less.prems by (simp_all add: rd8_def c_def sz_def sz'_def)
    consider "uint c = TCPOPT_EOL E" | "uint c \<noteq> TCPOPT_EOL E" "uint c = TCPOPT_NOP E"
      | "uint c \<noteq> TCPOPT_EOL E" "uint c \<noteq> TCPOPT_NOP E" by blast
    then show ?thesis
    proof cases
      case 1
      with True r show ?thesis by (simp add: parse_loop_eol)
    next
      case 2
      with True r less show ?thesis by (simp add: parse_loop_nop)
    next
      case 3
      note unf = parse_loop_opt [OF True r(1) 3, of syn estab st] parse_loop_opt [OF True r(2) 3, of syn estab st]
      show ?thesis
      proof (cases "len = 1")
        case True
        then show ?thesis unfolding unf r by auto
      next
        case False
        then have sz: "sz' = sz" using True less.prems(4) by (simp add: sz_def sz'_def)
        have o: "parse_option E syn estab mem (uint c) (p + 2) (uint sz) st = parse_option E syn estab mem' (uint c) (p + 2) (uint sz) st"
          if "uint sz \<le> len" using that less.prems by (intro parse_option_cong) auto
        have l: "parse_loop E syn estab mem (p + unat sz) (len - uint sz) st1 = parse_loop E syn estab mem' (p + unat sz) (len - uint sz) st1"
          if "\<not> uint sz < 2" "\<not> len < uint sz" for st1
          using that less.prems by (intro less.hyps) (simp_all add: nat_less_iff)
        show ?thesis unfolding unf r sz using o l by (auto intro!: Option.bind_cong)
      qed
    qed
  qed (simp add: parse_loop_end)
qed

text \<open>A lone option number in the last byte makes the parser read the byte behind the header.\<close>

lemma parse_overread:
  assumes "option_law E" "uint k \<noteq> 0" "uint k \<noteq> 1"
  shows "tcp_parse_options E 6 syn [1, 1, 1, k] estab st = None"
proof -
  note E = option_lawD [OF assms(1)]
  define st1 where "st1 = st\<lparr>opt_rx := (opt_rx st)\<lparr>saw_tstamp := False\<rparr>\<rparr>"
  have step: "parse_loop E syn estab [1, 1, 1, k] p (int 4 - int p) st1 =
      parse_loop E syn estab [1, 1, 1, k] (p + 1) (int 4 - int (p + 1)) st1" if "p < 3" for p
    using that parse_loop_nop [of "int 4 - int p" "[1, 1, 1, k]" p 1 E syn estab st1]
    by (auto simp: E rd8_def less_Suc_eq numeral_3_eq_3)
  have "parse_loop E syn estab [1, 1, 1, k] 0 4 st1 = parse_loop E syn estab [1, 1, 1, k] 3 1 st1"
    using step [of 0] step [of 1] step [of 2] by (simp add: numeral_2_eq_2 numeral_3_eq_3)
  also have "\<dots> = None"
    using assms(2,3) by (subst parse_loop_opt [where c = k]) (simp_all add: E rd8_def)
  finally show ?thesis by (simp add: tcp_parse_options_def st1_def)
qed

section \<open>The meaning of well-formed options\<close>

text \<open>
  Options as data, their wire format, and what each option means for a connection, independent
  of the memory it is read from.
\<close>

datatype topt = Nop | Opt u8 "u8 list"

fun enc :: "topt \<Rightarrow> u8 list" where
  "enc Nop = [1]"
| "enc (Opt k d) = k # of_nat (length d + 2) # d"

fun wf_opt :: "topt \<Rightarrow> bool" where
  "wf_opt Nop \<longleftrightarrow> True"
| "wf_opt (Opt k d) \<longleftrightarrow> uint k \<noteq> 0 \<and> uint k \<noteq> 1 \<and> length d \<le> 38"

definition meaning :: "tenv \<Rightarrow> bool \<Rightarrow> bool \<Rightarrow> u8 \<Rightarrow> u8 list \<Rightarrow> nat \<Rightarrow> parsed \<Rightarrow> parsed" where
  "meaning E syn estab k d off st =
     (let rx = opt_rx st
      in if uint k = 2 \<and> length d = 2 \<and> syn \<and> \<not> estab \<and> be16_of (d ! 0) (d ! 1) \<noteq> 0 then
           st\<lparr>opt_rx := rx\<lparr>mss_clamp := (if user_mss rx = 0 then be16_of (d ! 0) (d ! 1)
                                     else min (user_mss rx) (be16_of (d ! 0) (d ! 1)))\<rparr>\<rparr>
         else if uint k = 3 \<and> length d = 1 \<and> syn \<and> \<not> estab \<and> sysctl_tcp_window_scaling E then
           st\<lparr>opt_rx := rx\<lparr>wscale_ok := True, snd_wscale := ucast (min 14 (d ! 0))\<rparr>\<rparr>
         else if uint k = 8 \<and> length d = 8 \<and> (if estab then tstamp_ok rx else sysctl_tcp_timestamps E) then
           st\<lparr>opt_rx := rx\<lparr>saw_tstamp := True, rcv_tsval := be32_of (d ! 0) (d ! 1) (d ! 2) (d ! 3),
                            rcv_tsecr := be32_of (d ! 4) (d ! 5) (d ! 6) (d ! 7)\<rparr>\<rparr>
         else if uint k = 4 \<and> d = [] \<and> syn \<and> \<not> estab \<and> sysctl_tcp_sack E then
           st\<lparr>opt_rx := rx\<lparr>sack_ok := 1, dsack := False, num_sacks := 0\<rparr>\<rparr>
         else if uint k = 5 \<and> d \<noteq> [] \<and> length d mod 8 = 0 \<and> sack_ok rx \<noteq> 0 then
           st\<lparr>cb_sacked := of_nat (off + 20)\<rparr>
         else if uint k = 253 \<and> length d \<in> {8, 10, 12, 14, 16} then
           st\<lparr>opt_rx := rx\<lparr>cookie_plus := of_nat (length d + 2)\<rparr>, hvpp := Some (off + 2)\<rparr>
         else st)"

fun meanings :: "tenv \<Rightarrow> bool \<Rightarrow> bool \<Rightarrow> nat \<Rightarrow> topt list \<Rightarrow> parsed \<Rightarrow> parsed" where
  "meanings E syn estab off [] st = st"
| "meanings E syn estab off (Nop # os) st = meanings E syn estab (off + 1) os st"
| "meanings E syn estab off (Opt k d # os) st =
     meanings E syn estab (off + 2 + length d) os (meaning E syn estab k d off st)"

lemma byteorder_lawD:
  assumes "byteorder_law E"
  shows "get_unaligned_be16 E a b = be16_of a b" "get_unaligned_be32 E a b c d = be32_of a b c d"
    "htonl E (be32_of a b c d) = le32_of a b c d" "ntohl E (le32_of a b c d) = be32_of a b c d"
  using assms by (simp_all add: byteorder_law_def)

lemma nth_data: "i < length d \<Longrightarrow> (pre @ k # sz # d @ suf) ! (length pre + 2 + i) = d ! i"
  by (simp add: nth_append)

lemma parse_option_meaning:
  assumes "option_law E" "byteorder_law E" "sack_reset_law E"
  shows "parse_option E syn estab (pre @ k # sz # d @ suf) (uint k) (length pre + 2) (int (length d) + 2) st =
           Some (meaning E syn estab k d (length pre) st)"
proof -
  note E = option_lawD [OF assms(1)] byteorder_lawD [OF assms(2)] assms(3) [unfolded sack_reset_law_def, rule_format]
  define mem where "mem = pre @ k # sz # d @ suf"
  define p where "p = length pre + 2"
  have r8: "rd8 mem (p + i) = Some (d ! i)" if "i < length d" for i
    using that nth_data [OF that, of pre k sz suf] by (simp add: mem_def p_def rd8_def)
  have r16: "rd16 E mem p = Some (be16_of (d ! 0) (d ! 1))" if "length d = 2"
    using that r8 [of 0] r8 [of 1] by (simp add: rd16_def E)
  have r32: "rd32 E mem (p + j) = Some (be32_of (d ! j) (d ! (j + 1)) (d ! (j + 2)) (d ! (j + 3)))" if "j + 3 < length d" for j
    using that r8 [of j] r8 [of "j + 1"] r8 [of "j + 2"] r8 [of "j + 3"]
    by (simp add: rd32_def E add.assoc [symmetric] del: add_2_eq_Suc')
  have [simp]: "p - 2 = length pre" by (simp add: p_def)
  have mod8: "8 \<le> int (length d) \<and> int (length d) mod 8 = 0 \<longleftrightarrow> d \<noteq> [] \<and> length d mod 8 = 0"
  proof -
    have "8 \<le> length d \<and> length d mod 8 = 0 \<longleftrightarrow> 0 < length d \<and> length d mod 8 = 0" by presburger
    then show ?thesis by (metis (no_types, opaque_lifting) length_greater_0_conv of_nat_le_iff of_nat_mod of_nat_eq_0_iff of_nat_numeral)
  qed
  consider "uint k = 2" | "uint k = 3" | "uint k = 8" | "uint k = 4" | "uint k = 5" | "uint k = 253"
    | "uint k \<notin> {2, 3, 8, 4, 5, 253}" by blast
  then have "parse_option E syn estab mem (uint k) p (int (length d) + 2) st = Some (meaning E syn estab k d (length pre) st)"
  proof cases
    case 1
    then show ?thesis using r16 by (cases "length d = 2") (simp_all add: opt_defs meaning_def E Let_def min_def)
  next
    case 2
    then show ?thesis using r8 [of 0] by (cases "length d = 1") (simp_all add: opt_defs meaning_def E Let_def min_def)
  next
    case 3
    then show ?thesis using r32 [of 0] r32 [of 4] by (cases "length d = 8") (simp_all add: opt_defs meaning_def E Let_def numeral_2_eq_2)
  next
    case 5
    then show ?thesis
      using mod8 by (cases "d \<noteq> [] \<and> length d mod 8 = 0") (auto simp: parse_option_def meaning_def E Let_def)
  next
    case 6
    then show ?thesis by (simp add: opt_defs meaning_def E Let_def p_def)
  qed (simp_all add: opt_defs meaning_def E Let_def)
  then show ?thesis by (simp add: mem_def p_def)
qed

lemma uint_size: "length d \<le> 38 \<Longrightarrow> uint (of_nat (length d + 2) :: u8) = int (length d) + 2"
proof -
  assume "length d \<le> 38"
  then have "unat (of_nat (length d + 2) :: u8) = length d + 2" by (subst unat_of_nat) simp
  then have "int (unat (of_nat (length d + 2) :: u8)) = int (length d + 2)" by (rule arg_cong)
  then show ?thesis by (simp only: uint_nat of_nat_add of_nat_numeral)
qed

lemma parse_meanings:
  assumes laws: "option_law E" "byteorder_law E" "sack_reset_law E" and wf: "\<forall>x \<in> set os. wf_opt x"
  shows "parse_loop E syn estab (pre @ concat (map enc os) @ suf) (length pre) (int (length (concat (map enc os)))) st =
           Some (meanings E syn estab (length pre) os st)"
  using wf
proof (induction os arbitrary: pre st)
  case (Cons x os)
  note E = option_lawD [OF laws(1)]
  show ?case
  proof (cases x)
    case Nop
    then show ?thesis
      using Cons.IH [of "pre @ [1]" st] Cons.prems
      by (subst parse_loop_nop [where c = 1]) (auto simp: E rd8_def nth_append)
  next
    case (Opt k d)
    define sz :: u8 where "sz = of_nat (length d + 2)"
    define mem where "mem = pre @ k # sz # d @ concat (map enc os) @ suf"
    have k: "uint k \<noteq> 0" "uint k \<noteq> 1" "length d \<le> 38" using Cons.prems Opt by auto
    have usz: "uint sz = int (length d) + 2" using uint_size [OF k(3)] by (simp add: sz_def)
    then have nsz: "unat sz = length d + 2" by (simp add: unat_eq_nat_uint)
    define st1 where "st1 = meaning E syn estab k d (length pre) st"
    have o: "parse_option E syn estab mem (uint k) (length pre + 2) (uint sz) st = Some st1"
      unfolding usz mem_def st1_def by (rule parse_option_meaning [OF laws])
    have r: "rd8 mem (length pre) = Some k" "rd8 mem (length pre + 1) = Some sz"
      by (simp_all add: mem_def rd8_def nth_append)
    have IH: "parse_loop E syn estab mem (length pre + unat sz) (int (length (concat (map enc os)))) st1 =
        Some (meanings E syn estab (length pre + unat sz) os st1)"
      using Cons.IH [of "pre @ k # sz # d" st1] Cons.prems by (simp add: mem_def nsz)
    have "parse_loop E syn estab mem (length pre) (uint sz + int (length (concat (map enc os)))) st =
        Some (meanings E syn estab (length pre + unat sz) os st1)"
      using usz by (subst parse_loop_opt [OF _ r(1)]) (use k E o IH r(2) in simp_all)
    moreover have "enc (Opt k d) = k # sz # d" by (simp add: sz_def)
    ultimately show ?thesis by (simp add: Opt mem_def usz nsz st1_def add_ac del: enc.simps)
  qed
qed (simp add: parse_loop_end)

section \<open>The short cut\<close>

lemma be32_of_bytes:
  "ucast (drop_bit 24 (be32_of a b c d)) = a" "ucast (drop_bit 16 (be32_of a b c d)) = b"
  "ucast (drop_bit 8 (be32_of a b c d)) = c" "ucast (be32_of a b c d) = d"
  by (rule bit_word_eqI; auto simp: be32_of_def bit_simps dest: bit_imp_le_length)+

lemma be32_of_eq_iff: "be32_of a b c d = be32_of a' b' c' d' \<longleftrightarrow> a = a' \<and> b = b' \<and> c = c' \<and> d = d'"
  by (metis be32_of_bytes)

lemma le32_of_eq_iff: "le32_of a b c d = le32_of a' b' c' d' \<longleftrightarrow> a = a' \<and> b = b' \<and> c = c' \<and> d = d'"
  by (auto simp: le32_of_def be32_of_eq_iff)

lemma list_12:
  assumes "12 \<le> length mem"
  obtains a b c d e f g h i j k l suf where "mem = a # b # c # d # e # f # g # h # i # j # k # l # suf"
  using assms by (auto simp: Suc_le_length_iff numeral_eq_Suc)

lemma aligned_timestamp_eq:
  assumes laws: "option_law E" "byteorder_law E"
    and mem: "mem = a # b # c # d # e # f # g # h # i # j # k # l # suf"
  shows "tcp_parse_aligned_timestamp E mem rx =
    Some (if a = 1 \<and> b = 1 \<and> c = 8 \<and> d = 10
          then (True, rx\<lparr>saw_tstamp := True, rcv_tsval := be32_of e f g h, rcv_tsecr := be32_of i j k l\<rparr>)
          else (False, rx))"
proof -
  have w: "push_bit 24 (of_int 1) OR push_bit 16 (of_int 1) OR push_bit 8 (of_int 8) OR of_int 10 = be32_of 1 1 8 10"
    by (simp add: be32_of_def)
  have "ld32 mem 0 = Some (le32_of a b c d)" "ld32 mem 4 = Some (le32_of e f g h)" "ld32 mem 8 = Some (le32_of i j k l)"
    by (simp_all add: ld32_def rd8_def mem)
  then show ?thesis
    unfolding tcp_parse_aligned_timestamp_def option_lawD [OF laws(1)] w byteorder_lawD [OF laws(2)]
    by (simp add: le32_of_eq_iff byteorder_lawD [OF laws(2)])
qed

lemma fast_parse_eq:
  assumes laws: "option_law E" "byteorder_law E" "sack_reset_law E" and mem: "uint doff * 4 - 20 < int (length mem)"
  shows "map_option snd (tcp_fast_parse_options E doff syn mem st) = tcp_parse_options E doff syn mem True st"
proof -
  note E = option_lawD [OF laws(1)]
  define st0 where "st0 = st\<lparr>opt_rx := (opt_rx st)\<lparr>saw_tstamp := False\<rparr>\<rparr>"
  consider "uint doff = 5" | "uint doff = 8" "tstamp_ok (opt_rx st)" | "uint doff \<noteq> 5" "\<not> (tstamp_ok (opt_rx st) \<and> uint doff = 8)"
    by blast
  then show ?thesis
  proof cases
    case 1
    then show ?thesis by (simp add: tcp_fast_parse_options_def tcp_parse_options_def parse_loop_end)
  next
    case 2
    then have "12 \<le> length mem" using mem by simp
    then obtain a b c d e f g h i j k l suf where m: "mem = a # b # c # d # e # f # g # h # i # j # k # l # suf"
      by (rule list_12)
    note al = aligned_timestamp_eq [OF laws(1,2) m, of "opt_rx st"]
    show ?thesis
    proof (cases "a = 1 \<and> b = 1 \<and> c = 8 \<and> d = 10")
      case True
      define os where "os = [Nop, Nop, Opt 8 [e, f, g, h, i, j, k, l]]"
      have c: "concat (map enc os) = [a, b, c, d, e, f, g, h, i, j, k, l]" using True by (simp add: os_def)
      have "parse_loop E syn True mem 0 12 st0 = Some (meanings E syn True 0 os st0)"
        using parse_meanings [OF laws, of os syn True "[]" suf st0] unfolding c m by (simp add: os_def)
      moreover have "meanings E syn True 0 os st0 = st\<lparr>opt_rx := (opt_rx st)\<lparr>saw_tstamp := True,
          rcv_tsval := be32_of e f g h, rcv_tsecr := be32_of i j k l\<rparr>\<rparr>"
        using 2 by (simp add: os_def meaning_def st0_def Let_def)
      ultimately show ?thesis
        using 2 True al by (simp add: tcp_fast_parse_options_def tcp_parse_options_def st0_def [symmetric] E)
    next
      case False
      with 2 al show ?thesis
        by (auto simp: tcp_fast_parse_options_def E split: option.splits bind_split)
    qed
  next
    case 3
    then have "\<not> (tstamp_ok (opt_rx st) \<and> uint doff = (20 + 12) div 4)" by simp
    from 3(1) show ?thesis
      unfolding tcp_fast_parse_options_def E if_not_P [OF \<open>\<not> (tstamp_ok (opt_rx st) \<and> uint doff = (20 + 12) div 4)\<close>]
      by (cases "tcp_parse_options E doff syn mem True st") simp_all
  qed
qed

section \<open>Ranges of the negotiated values\<close>

lemma parse_loop_inv:
  assumes run: "parse_loop E syn estab mem p len st = Some st'" and init: "P st"
    and step: "\<And>c q sz s s'. P s \<Longrightarrow> p + 2 \<le> q \<Longrightarrow> 2 \<le> sz \<Longrightarrow> int q + sz \<le> int p + len + 2 \<Longrightarrow>
      parse_option E syn estab mem c q sz s = Some s' \<Longrightarrow> P s'"
  shows "P st'"
  using assms
proof (induction "nat len" arbitrary: p len st rule: less_induct)
  case less
  have step: "P s'" if "P s" "p' + 2 \<le> q" "2 \<le> sz" "int q + sz \<le> int p' + len' + 2"
      "parse_option E syn estab mem c q sz s = Some s'" "p \<le> p'" "int p' + len' \<le> int p + len" for c q sz s s' p' len'
    by (rule less.prems(3) [OF that(1) _ that(3) _ that(5)]) (use that in auto)
  show ?case
  proof (cases "0 < len")
    case True
    with less.prems(1) obtain c where c: "rd8 mem p = Some c"
      by (subst (asm) parse_loop.simps) (auto simp: bind_eq_Some_conv)
    consider "uint c = TCPOPT_EOL E" | "uint c \<noteq> TCPOPT_EOL E" "uint c = TCPOPT_NOP E"
      | "uint c \<noteq> TCPOPT_EOL E" "uint c \<noteq> TCPOPT_NOP E" by blast
    then show ?thesis
    proof cases
      case 1
      with True c less.prems(1,2) show ?thesis by (simp add: parse_loop_eol)
    next
      case 2
      with True c less.prems(1) have run: "parse_loop E syn estab mem (p + 1) (len - 1) st = Some st'"
        by (simp add: parse_loop_nop)
      show ?thesis
      proof (rule less.hyps [OF _ run less.prems(2)])
        show "P s'" if "P s" "p + 1 + 2 \<le> q" "2 \<le> sz" "int q + sz \<le> int (p + 1) + (len - 1) + 2"
            "parse_option E syn estab mem c q sz s = Some s'" for c q sz s s'
          by (rule step [OF that]) simp_all
      qed (use True in simp)
    next
      case 3
      with True c less.prems(1) obtain sz where sz: "rd8 mem (p + 1) = Some sz"
        by (auto simp: parse_loop_opt split: option.splits)
      note run = less.prems(1) [unfolded parse_loop_opt [OF True c 3] sz option.case]
      show ?thesis
      proof (cases "uint sz < 2 \<or> len < uint sz")
        case False
        with run obtain st1 where st1: "parse_option E syn estab mem (uint c) (p + 2) (uint sz) st = Some st1"
          "parse_loop E syn estab mem (p + unat sz) (len - uint sz) st1 = Some st'"
          by (auto simp: bind_eq_Some_conv)
        have "P st1" by (rule less.prems(3) [OF less.prems(2) _ _ _ st1(1)]) (use False in auto)
        show ?thesis
        proof (rule less.hyps [OF _ st1(2) \<open>P st1\<close>])
          show "P s'" if "P s" "p + unat sz + 2 \<le> q" "2 \<le> z" "int q + z \<le> int (p + unat sz) + (len - uint sz) + 2"
              "parse_option E syn estab mem c q z s = Some s'" for c q z s s'
            by (rule step [OF that]) simp_all
        qed (use False True in \<open>auto simp: nat_less_iff\<close>)
      qed (use run less.prems(2) in simp)
    qed
  qed (use less.prems in \<open>simp add: parse_loop_end\<close>)
qed

definition opts_ok :: "tcp_options_received \<Rightarrow> bool" where
  "opts_ok rx \<longleftrightarrow> snd_wscale rx \<le> 14 \<and> (user_mss rx \<noteq> 0 \<longrightarrow> mss_clamp rx \<le> user_mss rx)"

lemma ucast_wscale: "(ucast (min 14 (v :: u8)) :: u4) \<le> 14"
proof -
  have "unat (min 14 v) \<le> 14" by (simp add: min_def word_le_nat_alt)
  then have "unat (ucast (min 14 v) :: u4) \<le> 14"
    by (simp add: unsigned_ucast_eq take_bit_nat_eq_self)
  then show ?thesis by (simp add: word_le_nat_alt)
qed

lemma parse_option_cases:
  assumes "parse_option E syn estab mem c p sz st = Some st'"
  obtains (mss) "opt_mss E syn estab mem p sz st = Some st'"
    | (window) "opt_window E syn estab mem p sz st = Some st'"
    | (timestamp) "opt_timestamp E estab mem p sz st = Some st'"
    | (sack_perm) "st' = st\<lparr>opt_rx := tcp_sack_reset E ((opt_rx st)\<lparr>sack_ok := 1\<rparr>)\<rparr>"
    | (sack) "st' = st\<lparr>cb_sacked := of_nat (p - 2 + 20)\<rparr>" "TCPOLEN_SACK_BASE E + TCPOLEN_SACK_PERBLOCK E \<le> sz"
    | (cookie) "st' = st\<lparr>opt_rx := (opt_rx st)\<lparr>cookie_plus := of_int sz\<rparr>, hvpp := Some p\<rparr>"
    | (same) "st' = st"
proof (rule ccontr)
  assume n: "\<not> thesis"
  have "opt_mss E syn estab mem p sz st \<noteq> Some st'" "opt_window E syn estab mem p sz st \<noteq> Some st'"
    "opt_timestamp E estab mem p sz st \<noteq> Some st'" "st \<noteq> st'"
    "st\<lparr>opt_rx := tcp_sack_reset E ((opt_rx st)\<lparr>sack_ok := 1\<rparr>)\<rparr> \<noteq> st'"
    "\<not> (TCPOLEN_SACK_BASE E + TCPOLEN_SACK_PERBLOCK E \<le> sz \<and> st\<lparr>cb_sacked := of_nat (p - 2 + 20)\<rparr> = st')"
    "st\<lparr>opt_rx := (opt_rx st)\<lparr>cookie_plus := of_int sz\<rparr>, hvpp := Some p\<rparr> \<noteq> st'"
    using n that by blast+
  with assms show False
    unfolding parse_option_def by (simp split: if_split_asm)
qed

lemma parse_option_ok:
  assumes "sack_reset_law E" "parse_option E syn estab mem c p sz st = Some st'" "opts_ok (opt_rx st)"
  shows "opts_ok (opt_rx st') \<and> user_mss (opt_rx st') = user_mss (opt_rx st)"
proof -
  have w: "(if 14 < v then 14 else v) = min 14 v" for v :: u8 by (auto simp: min_def)
  from assms(2) show ?thesis
  proof (cases rule: parse_option_cases)
    case mss
    then obtain m where "st' = st \<or> st' = st\<lparr>opt_rx := (opt_rx st)\<lparr>mss_clamp := m\<rparr>\<rparr> \<and>
        (user_mss (opt_rx st) \<noteq> 0 \<longrightarrow> m \<le> user_mss (opt_rx st))"
      unfolding opt_mss_def by (cases "rd16 E mem p") (auto simp: Let_def linorder_not_less split: if_split_asm)
    with assms(3) show ?thesis by (elim disjE) (simp_all add: opts_ok_def)
  next
    case window
    then have "st' = st \<or> (\<exists>v :: u8. st' = st\<lparr>opt_rx := (opt_rx st)\<lparr>wscale_ok := True, snd_wscale := ucast (min 14 v)\<rparr>\<rparr>)"
      unfolding opt_window_def w by (cases "rd8 mem p") (auto simp: Let_def split: if_split_asm)
    with assms(3) show ?thesis by (elim disjE exE) (simp_all add: opts_ok_def ucast_wscale)
  next
    case timestamp
    then have "st' = st \<or> (\<exists>v e. st' = st\<lparr>opt_rx := (opt_rx st)\<lparr>saw_tstamp := True, rcv_tsval := v, rcv_tsecr := e\<rparr>\<rparr>)"
      unfolding opt_timestamp_def by (auto simp: bind_eq_Some_conv split: if_split_asm)
    with assms(3) show ?thesis by (elim disjE exE) (simp_all add: opts_ok_def)
  next
    case sack_perm
    then show ?thesis using assms(1,3) by (simp add: sack_reset_law_def opts_ok_def)
  qed (use assms(3) in \<open>simp_all add: opts_ok_def\<close>)
qed

lemma parse_option_sacked:
  assumes "option_law E" "parse_option E syn estab mem c q sz st = Some st'" "p + 2 \<le> q" "2 \<le> sz" "int q + sz \<le> int p + len + 2"
    and "cb_sacked st = s0 \<or> (\<exists>i. cb_sacked st = of_nat (i + 20) \<and> p \<le> i \<and> int i + 10 \<le> int p + len)"
  shows "cb_sacked st' = s0 \<or> (\<exists>i. cb_sacked st' = of_nat (i + 20) \<and> p \<le> i \<and> int i + 10 \<le> int p + len)"
proof (cases "cb_sacked st' = cb_sacked st")
  case False
  from assms(2) have "cb_sacked st' = of_nat (q - 2 + 20) \<and> 10 \<le> sz"
  proof (cases rule: parse_option_cases)
    case mss
    with False show ?thesis
      unfolding opt_mss_def by (cases "rd16 E mem q") (auto simp: Let_def split: if_split_asm)
  next
    case window
    with False show ?thesis
      unfolding opt_window_def by (cases "rd8 mem q") (auto simp: Let_def split: if_split_asm)
  next
    case timestamp
    with False show ?thesis by (auto simp: opt_timestamp_def bind_eq_Some_conv split: if_split_asm)
  qed (use False in \<open>simp_all add: option_lawD [OF assms(1)]\<close>)
  with assms(3-5) show ?thesis by (intro disjI2 exI [of _ "q - 2"]) auto
qed (use assms(6) in simp)

section \<open>Signatures\<close>

lemma md5sig_spec:
  assumes "option_law E" "int p + len < int (length mem)"
  shows "\<exists>r. md5sig_loop E mem p len = Some r \<and>
    (\<forall>q. r = Some q \<longrightarrow> p + 2 \<le> q \<and> int q + 16 \<le> int p + len \<and> uint (mem ! (q - 2)) = 19 \<and> uint (mem ! (q - 1)) = 18)"
  using assms(2)
proof (induction "nat len" arbitrary: p len rule: less_induct)
  case less
  note E = option_lawD [OF assms(1)]
  show ?case
  proof (cases "0 < len")
    case True
    define c sz where "c = mem ! p" and "sz = mem ! (p + 1)"
    have r: "rd8 mem p = Some c" "rd8 mem (p + 1) = Some sz"
      using True less.prems by (simp_all add: rd8_def c_def sz_def)
    note unf = md5sig_loop.simps [of E mem p len, unfolded r E]
    consider "uint c = 0" | "uint c = 1" | "uint c \<noteq> 0" "uint c \<noteq> 1" "uint sz < 2 \<or> len < uint sz"
      | "uint c = 19" "\<not> (uint sz < 2 \<or> len < uint sz)"
      | "uint c \<noteq> 0" "uint c \<noteq> 1" "uint c \<noteq> 19" "\<not> (uint sz < 2 \<or> len < uint sz)" by linarith
    then show ?thesis
    proof cases
      case 2
      then have "md5sig_loop E mem p len = md5sig_loop E mem (p + 1) (len - 1)" using True unf by simp
      with less.hyps [of "len - 1" "p + 1"] True less.prems show ?thesis by auto
    next
      case 4
      then show ?thesis using True unf by (auto simp: c_def sz_def)
    next
      case 5
      then have "md5sig_loop E mem p len = md5sig_loop E mem (p + unat sz) (len - uint sz)" using True unf by simp
      with less.hyps [of "len - uint sz" "p + unat sz"] 5 True less.prems show ?thesis by (auto simp: nat_less_iff)
    qed (use True unf in auto)
  qed (simp add: md5sig_loop.simps)
qed

end
