(* ===== verification/Tcp_Options_Props.thy ===== *)
theory Tcp_Options_Props
  imports Tcp_Options_Correct
begin

text \<open>The properties of the option parsers, and a concrete environment that satisfies their laws.\<close>

section \<open>A concrete environment\<close>

definition bswap :: "u32 \<Rightarrow> u32" where
  "bswap x = be32_of (ucast x) (ucast (drop_bit 8 x)) (ucast (drop_bit 16 x)) (ucast (drop_bit 24 x))"

definition T0 :: tenv where
  "T0 = \<lparr>before = (\<lambda>a b. sint (a - b) < 0), after = (\<lambda>a b. sint (b - a) < 0),
     get_unaligned_be16 = be16_of, get_unaligned_be32 = be32_of, htonl = bswap, ntohl = bswap,
     tcp_sack_reset = (\<lambda>rx. rx\<lparr>dsack := False, num_sacks := 0\<rparr>),
     tcp_paws_check = (\<lambda>rx w. sint (ts_recent rx - rcv_tsval rx) \<le> w),
     tcp_paws_reject = (\<lambda>rx rst. \<not> rst \<and> 0 < sint (ts_recent rx - rcv_tsval rx)),
     get_seconds = 100,
     TCPOPT_EOL = 0, TCPOPT_NOP = 1, TCPOPT_MSS = 2, TCPOPT_WINDOW = 3, TCPOPT_SACK_PERM = 4,
     TCPOPT_SACK = 5, TCPOPT_TIMESTAMP = 8, TCPOPT_MD5SIG = 19, TCPOPT_COOKIE = 253,
     TCPOLEN_MSS = 4, TCPOLEN_WINDOW = 3, TCPOLEN_SACK_PERM = 2, TCPOLEN_TIMESTAMP = 10,
     TCPOLEN_MD5SIG = 18, TCPOLEN_COOKIE_BASE = 2, TCPOLEN_COOKIE_PAIR = 3, TCPOLEN_COOKIE_MIN = 10,
     TCPOLEN_COOKIE_MAX = 18, TCPOLEN_TSTAMP_ALIGNED = 12, TCPOLEN_SACK_BASE = 2, TCPOLEN_SACK_PERBLOCK = 8,
     sysctl_tcp_timestamps = True, sysctl_tcp_window_scaling = True, sysctl_tcp_sack = True,
     sysctl_tcp_dsack = True\<rparr>"

lemma T0_laws: "seq_law T0" "byteorder_law T0" "option_law T0" "sack_reset_law T0"
  by (simp_all add: T0_def seq_law_def byteorder_law_def option_law_def sack_reset_law_def bswap_def
      be32_of_bytes le32_of_def)

lemma T0_simps [simp]:
  "sysctl_tcp_timestamps T0" "sysctl_tcp_window_scaling T0" "sysctl_tcp_sack T0" "sysctl_tcp_dsack T0"
  by (simp_all add: T0_def)

definition rx0 :: tcp_options_received where
  "rx0 = \<lparr>ts_recent_stamp = 0, ts_recent = 0, rcv_tsval = 0, rcv_tsecr = 0, saw_tstamp = False,
     tstamp_ok = True, dsack = False, wscale_ok = False, sack_ok = 0, snd_wscale = 0, rcv_wscale = 0,
     cookie_plus = 0, cookie_out_never = False, cookie_in_always = False, num_sacks = 0,
     user_mss = 0, mss_clamp = 536\<rparr>"

definition parsed0 :: parsed where
  "parsed0 = \<lparr>opt_rx = rx0, cb_sacked = 0, hvpp = None\<rparr>"

section \<open>Properties\<close>

text \<open>C16.
  The short cut for established connections agrees with the general parser on every header:
  whatever the option bytes are, both leave the same options and the same place of a SACK option.
\<close>

theorem fast_parse_equiv:
  assumes "option_law E" "byteorder_law E" "sack_reset_law E" "uint doff * 4 - 20 < int (length mem)"
  shows "map_option snd (tcp_fast_parse_options E doff syn mem st) = tcp_parse_options E doff syn mem True st"
  by (rule fast_parse_eq [OF assms])

theorem fast_parse_equiv_witness:
  "map_option snd (tcp_fast_parse_options T0 8 False [1, 1, 8, 10, 0, 0, 0, 7, 0, 0, 0, 9, 0] parsed0) =
   tcp_parse_options T0 8 False [1, 1, 8, 10, 0, 0, 0, 7, 0, 0, 0, 9, 0] True parsed0"
  by (rule fast_parse_equiv) (simp_all add: T0_laws)

text \<open>C17.
  A header of well-formed options is given its meaning: parsing the wire format of a list of
  options has the effects of the options, one after the other (MSS clamped to the value of
  the user, window scale at most 14, timestamps, SACK permission, SACK blocks, cookies), and
  options the connection does not use, or of a wrong size, have none.
\<close>

theorem parse_meaning:
  assumes "option_law E" "byteorder_law E" "sack_reset_law E" "\<forall>x \<in> set os. wf_opt x"
    and "int (length (concat (map enc os))) = uint doff * 4 - 20"
  shows "tcp_parse_options E doff syn (concat (map enc os) @ suf) estab st =
     Some (meanings E syn estab 0 os (st\<lparr>opt_rx := (opt_rx st)\<lparr>saw_tstamp := False\<rparr>\<rparr>))"
  using parse_meanings [OF assms(1-4), of syn estab "[]" suf] assms(5)
  by (simp add: tcp_parse_options_def)

theorem parse_meaning_witness:
  "\<exists>st. tcp_parse_options T0 8 True (concat (map enc [Opt 2 [5, 180], Nop, Opt 3 [20], Opt 4 [], Nop, Nop])) False parsed0
        = Some st \<and> mss_clamp (opt_rx st) = 1460 \<and> snd_wscale (opt_rx st) = 14 \<and> sack_ok (opt_rx st) = 1"
proof -
  define os where "os = [Opt 2 [5, 180], Nop, Opt 3 [20], Opt 4 [], Nop, Nop]"
  have "tcp_parse_options T0 8 True (concat (map enc os) @ []) False parsed0 =
      Some (meanings T0 True False 0 os (parsed0\<lparr>opt_rx := (opt_rx parsed0)\<lparr>saw_tstamp := False\<rparr>\<rparr>))"
    by (rule parse_meaning) (simp_all add: T0_laws os_def)
  then show ?thesis
    by (simp add: os_def meaning_def Let_def parsed0_def rx0_def be16_of_def)
qed

text \<open>C18.
  The parser ends without a fault when one byte can be read behind the options, and what is behind
  the options has no influence on the result.
\<close>

theorem parse_safe:
  assumes "option_law E" "uint doff * 4 - 20 < int (length mem)" "uint doff * 4 - 20 < int (length mem')"
    and "\<forall>i. int i < uint doff * 4 - 20 \<longrightarrow> mem ! i = mem' ! i"
  shows "\<exists>st'. tcp_parse_options E doff syn mem estab st = Some st' \<and> tcp_parse_options E doff syn mem' estab st = Some st'"
proof -
  define st0 where "st0 = st\<lparr>opt_rx := (opt_rx st)\<lparr>saw_tstamp := False\<rparr>\<rparr>"
  obtain st' where st': "parse_loop E syn estab mem 0 (uint doff * 4 - 20) st0 = Some st'"
    using parse_loop_total [OF assms(1), of 0 "uint doff * 4 - 20" mem syn estab st0] assms(2) by auto
  moreover have "parse_loop E syn estab mem 0 (uint doff * 4 - 20) st0 = parse_loop E syn estab mem' 0 (uint doff * 4 - 20) st0"
    using assms by (intro parse_loop_cong) auto
  ultimately have "parse_loop E syn estab mem' 0 (uint doff * 4 - 20) st0 = Some st'" by simp
  with st' show ?thesis by (simp add: tcp_parse_options_def st0_def)
qed

theorem parse_safe_witness:
  "\<exists>st'. tcp_parse_options T0 6 True [1, 1, 1, 2, 0] True parsed0 = Some st' \<and>
         tcp_parse_options T0 6 True [1, 1, 1, 2, 99] True parsed0 = Some st'"
  by (rule parse_safe) (auto simp: T0_laws nth_Cons')

text \<open>C19.
  Parsing keeps the negotiated values in their ranges: the window scale at most 14, the MSS
  at most the one the user set (which it leaves alone); and a SACK option it reports lies inside the
  header, with at least one block.
\<close>

theorem parse_ranges:
  assumes "option_law E" "sack_reset_law E" "opts_ok (opt_rx st)"
    and "tcp_parse_options E doff syn mem estab st = Some st'"
  shows "opts_ok (opt_rx st') \<and> user_mss (opt_rx st') = user_mss (opt_rx st) \<and>
     (cb_sacked st' = cb_sacked st \<or> (\<exists>i. cb_sacked st' = of_nat (i + 20) \<and> int (i + 20) + 10 \<le> uint doff * 4))"
proof -
  define P where "P = (\<lambda>s :: parsed. opts_ok (opt_rx s) \<and> user_mss (opt_rx s) = user_mss (opt_rx st))"
  define Q where "Q = (\<lambda>s :: parsed. cb_sacked s = cb_sacked st \<or>
      (\<exists>i. cb_sacked s = of_nat (i + 20) \<and> 0 \<le> i \<and> int i + 10 \<le> int 0 + (uint doff * 4 - 20)))"
  note run = assms(4) [unfolded tcp_parse_options_def]
  have "P st'"
  proof (rule parse_loop_inv [OF run])
    show "P s'" if "P s" "parse_option E syn estab mem c q sz s = Some s'" for c q sz s s'
      using parse_option_ok [OF assms(2) that(2)] that(1) by (simp add: P_def)
  qed (use assms(3) in \<open>simp add: P_def opts_ok_def\<close>)
  moreover have "Q st'"
  proof (rule parse_loop_inv [OF run])
    show "Q s'" if "Q s" "0 + 2 \<le> q" "2 \<le> sz" "int q + sz \<le> int 0 + (uint doff * 4 - 20) + 2"
        "parse_option E syn estab mem c q sz s = Some s'" for c q sz s s'
      using parse_option_sacked [OF assms(1) that(5,2,3,4)] that(1) by (simp add: Q_def)
  qed (simp add: Q_def)
  then have "cb_sacked st' = cb_sacked st \<or> (\<exists>i. cb_sacked st' = of_nat (i + 20) \<and> int (i + 20) + 10 \<le> uint doff * 4)"
  proof -
    assume "Q st'"
    then consider "cb_sacked st' = cb_sacked st"
      | i where "cb_sacked st' = of_nat (i + 20)" "int i + 10 \<le> int 0 + (uint doff * 4 - 20)"
      unfolding Q_def by blast
    then show ?thesis
    proof cases
      case (2 i)
      then have "int (i + 20) + 10 \<le> uint doff * 4" by simp
      with 2(1) show ?thesis by blast
    qed simp
  qed
  ultimately show ?thesis unfolding P_def by blast
qed

theorem parse_ranges_witness:
  "\<exists>st. tcp_parse_options T0 6 True [2, 4, 5, 180, 0] False parsed0 = Some st \<and> opts_ok (opt_rx st)"
proof -
  obtain st where st: "tcp_parse_options T0 6 True [2, 4, 5, 180, 0] False parsed0 = Some st"
    unfolding tcp_parse_options_def
    using parse_loop_total [OF T0_laws(3), of 0 4 "[2, 4, 5, 180, 0]" True False] by fastforce
  have "opts_ok (opt_rx parsed0)" by (simp add: opts_ok_def parsed0_def rx0_def)
  from parse_ranges [OF T0_laws(3,4) this st] st show ?thesis by blast
qed

text \<open>C20.
  The search for a signature ends without a fault; a signature it finds is 16 bytes inside the
  header, behind the option number and size it belongs to.
\<close>

theorem md5sig_inside:
  assumes "option_law E" "uint doff * 4 - 20 < int (length mem)"
  shows "\<exists>r. tcp_parse_md5sig_option E doff mem = Some r \<and>
    (\<forall>q. r = Some q \<longrightarrow> 2 \<le> q \<and> int q + 16 \<le> uint doff * 4 - 20 \<and> uint (mem ! (q - 2)) = 19 \<and> uint (mem ! (q - 1)) = 18)"
proof -
  obtain r where r: "md5sig_loop E mem 0 (uint doff * 4 - 20) = Some r"
    "\<forall>q. r = Some q \<longrightarrow> 2 \<le> q \<and> int q + 16 \<le> uint doff * 4 - 20 \<and> uint (mem ! (q - 2)) = 19 \<and> uint (mem ! (q - 1)) = 18"
    using md5sig_spec [OF assms(1), of 0 "uint doff * 4 - 20" mem] assms(2) by fastforce
  show ?thesis
  proof (cases "uint doff * 4 - 20 < TCPOLEN_MD5SIG E")
    case True
    then show ?thesis by (simp add: tcp_parse_md5sig_option_def)
  next
    case False
    then have "tcp_parse_md5sig_option E doff mem = Some r" by (simp add: tcp_parse_md5sig_option_def r(1))
    with r(2) show ?thesis by blast
  qed
qed

theorem md5sig_inside_witness:
  "\<exists>r. tcp_parse_md5sig_option T0 10 (1 # 1 # 19 # 18 # replicate 17 0) = Some r \<and>
    (\<forall>q. r = Some q \<longrightarrow> 2 \<le> q \<and> int q + 16 \<le> uint (10 :: u4) * 4 - 20 \<and>
       uint ((1 # 1 # 19 # 18 # replicate 17 0 :: u8 list) ! (q - 2)) = 19 \<and>
       uint ((1 # 1 # 19 # 18 # replicate 17 0 :: u8 list) ! (q - 1)) = 18)"
  by (rule md5sig_inside) (simp_all add: T0_laws)

end
