(* ===== verification/Tcp_Seq.thy ===== *)
theory Tcp_Seq
  imports Tcp_Options
begin

text \<open>
  Arithmetic of sequence numbers, shared by the TCP components: inside a half of the sequence
  space the signed comparison of two numbers is the comparison of their distances from a base.
\<close>

definition off :: "u32 \<Rightarrow> u32 \<Rightarrow> nat" where
  "off b x = unat (x - b)"

abbreviation near :: "u32 \<Rightarrow> u32 \<Rightarrow> bool" where
  "near b x \<equiv> off b x < 2 ^ 31"

lemma off_self [simp]: "off b b = 0"
  by (simp add: off_def)

lemma off_inj [simp]: "off b x = off b y \<longleftrightarrow> x = y"
  unfolding off_def word_unat_eq_iff [symmetric] by simp

lemma sint_diff_off:
  assumes "near b x" "near b y"
  shows "sint (x - y) = int (off b x) - int (off b y)"
proof -
  define u v where "u = x - b" and "v = y - b"
  have uv: "uint w < 2 ^ 31" if "unat w < 2 ^ 31" for w :: u32
  proof -
    have "int (unat w) < int (2 ^ 31)" using that by (simp only: of_nat_less_iff)
    then show ?thesis by (simp only: uint_nat of_nat_power of_nat_numeral)
  qed
  have uv: "uint u < 2 ^ 31" "uint v < 2 ^ 31"
    by (rule uv; use assms in \<open>simp only: off_def u_def v_def\<close>)+
  have xy: "x - y = u - v" by (simp add: u_def v_def)
  have s: "sint w = uint w" if "uint w < 2 ^ 31" for w :: u32
    unfolding sint_uint using that by (subst signed_take_bit_int_eq_self) (simp_all add: order_trans [OF _ uint_ge_0])
  have "sint (u - v) = signed_take_bit (LENGTH(32) - 1) (sint u - sint v)"
    by (rule sint_word_ariths)
  also have "\<dots> = uint u - uint v"
    unfolding s [OF uv(1)] s [OF uv(2)]
  proof (rule signed_take_bit_int_eq_self)
    have "- (2 ^ 31) \<le> uint u - uint v" "uint u - uint v < 2 ^ 31"
      using uv uint_ge_0 [of u] uint_ge_0 [of v] by linarith+
    then show "- (2 ^ (LENGTH(32) - 1)) \<le> uint u - uint v" "uint u - uint v < 2 ^ (LENGTH(32) - 1)" by simp_all
  qed
  finally show ?thesis
    unfolding xy by (simp add: off_def u_def v_def)
qed

lemma before_off:
  assumes "seq_law E" "near b x" "near b y"
  shows "before E x y \<longleftrightarrow> off b x < off b y"
  using assms sint_diff_off [OF assms(2,3)] by (simp add: seq_law_def)

lemma after_off:
  assumes "seq_law E" "near b x" "near b y"
  shows "after E x y \<longleftrightarrow> off b y < off b x"
proof -
  have "after E x y \<longleftrightarrow> before E y x" using assms(1) unfolding seq_law_def by blast
  with before_off [OF assms(1,3,2)] show ?thesis by simp
qed

text \<open>Two numbers are never both before and after each other.\<close>

lemma before_irrefl: "seq_law E \<Longrightarrow> \<not> before E x x" "seq_law E \<Longrightarrow> \<not> after E x x"
  by (simp_all add: seq_law_def)

end
