(* ===== verification/Tcp_Sack.thy ===== *)
theory Tcp_Sack
  imports Tcp_Seq
begin

text \<open>
  The blocks a receiver reports in its selective acknowledgements (\<^verbatim>\<open>tcp_sack_extend\<close> to
  \<^verbatim>\<open>tcp_sack_remove\<close> of \<^verbatim>\<open>net/ipv4/tcp_input.c\<close>). The array \<^verbatim>\<open>selective_acks[4]\<close> is a list of four
  blocks; an access outside of it is a fault. The functions take and return the array and
  \<^verbatim>\<open>rx_opt.num_sacks\<close>, which are all they read and write.
\<close>

section \<open>Blocks\<close>

record tcp_sack_block =
  start_seq :: u32
  end_seq :: u32

definition TCP_NUM_SACKS :: nat where "TCP_NUM_SACKS = 4"

definition aref :: "'a list \<Rightarrow> nat \<Rightarrow> 'a option" where
  "aref xs i = (if i < length xs then Some (xs ! i) else None)"

definition aset :: "'a list \<Rightarrow> nat \<Rightarrow> 'a \<Rightarrow> 'a list option" where
  "aset xs i v = (if i < length xs then Some (xs[i := v]) else None)"

definition tcp_sack_extend :: "tenv \<Rightarrow> tcp_sack_block \<Rightarrow> u32 \<Rightarrow> u32 \<Rightarrow> bool \<times> tcp_sack_block" where
  "tcp_sack_extend E sp sq esq =
     (if \<not> after E sq (end_seq sp) \<and> \<not> after E (start_seq sp) esq then
        let sp1 = (if before E sq (start_seq sp) then sp\<lparr>start_seq := sq\<rparr> else sp);
            sp2 = (if after E esq (end_seq sp1) then sp1\<lparr>end_seq := esq\<rparr> else sp1)
        in (True, sp2)
      else (False, sp))"

section \<open>Merging blocks\<close>

text \<open>\<^verbatim>\<open>for (i = ..; i < ..; i++) sp[i] = sp[i + 1]\<close>, with the number of rounds.\<close>

fun zap :: "nat \<Rightarrow> nat \<Rightarrow> 'a list \<Rightarrow> 'a list option" where
  "zap 0 i a = Some a"
| "zap (Suc n) i a = do { v \<leftarrow> aref a (i + 1); a1 \<leftarrow> aset a i v; zap n (i + 1) a1 }"

function tcp_sack_maybe_coalesce ::
    "tenv \<Rightarrow> nat \<Rightarrow> nat \<Rightarrow> tcp_sack_block list \<Rightarrow> (nat \<times> tcp_sack_block list) option" where
  "tcp_sack_maybe_coalesce E this_sack num a =
     (if this_sack < num then do {
        sp \<leftarrow> aref a 0;
        swalk \<leftarrow> aref a this_sack;
        let (hit, sp1) = tcp_sack_extend E sp (start_seq swalk) (end_seq swalk);
        a1 \<leftarrow> aset a 0 sp1;
        if hit then do {
          a2 \<leftarrow> zap (num - 1 - this_sack) this_sack a1;
          tcp_sack_maybe_coalesce E this_sack (num - 1) a2 }
        else tcp_sack_maybe_coalesce E (this_sack + 1) num a1 }
      else Some (num, a))"
  by pat_completeness auto
termination
  by (relation "measure (\<lambda>(E, i, n, a). n - i)") auto

declare tcp_sack_maybe_coalesce.simps [simp del]

section \<open>A new segment\<close>

text \<open>The search for a block that the segment extends, from block \<open>i\<close> on.\<close>

fun extend_from ::
    "tenv \<Rightarrow> u32 \<Rightarrow> u32 \<Rightarrow> nat \<Rightarrow> nat \<Rightarrow> tcp_sack_block list \<Rightarrow> (nat option \<times> tcp_sack_block list) option" where
  "extend_from E sq esq 0 i a = Some (None, a)"
| "extend_from E sq esq (Suc n) i a = do {
     sp \<leftarrow> aref a i;
     let (hit, sp1) = tcp_sack_extend E sp sq esq;
     a1 \<leftarrow> aset a i sp1;
     if hit then Some (Some i, a1) else extend_from E sq esq n (i + 1) a1 }"

fun rotate_front :: "nat \<Rightarrow> 'a list \<Rightarrow> 'a list option" where
  "rotate_front 0 a = Some a"
| "rotate_front (Suc i) a = do {
     x \<leftarrow> aref a (Suc i);
     y \<leftarrow> aref a i;
     a1 \<leftarrow> aset a (Suc i) y;
     a2 \<leftarrow> aset a1 i x;
     rotate_front i a2 }"

fun shift_back :: "nat \<Rightarrow> 'a list \<Rightarrow> 'a list option" where
  "shift_back 0 a = Some a"
| "shift_back (Suc i) a = do { y \<leftarrow> aref a i; a1 \<leftarrow> aset a (Suc i) y; shift_back i a1 }"

definition tcp_sack_new_ofo_skb ::
    "tenv \<Rightarrow> u32 \<Rightarrow> u32 \<Rightarrow> nat \<times> tcp_sack_block list \<Rightarrow> (nat \<times> tcp_sack_block list) option" where
  "tcp_sack_new_ofo_skb E sq esq s = (case s of (cur_sacks, a) \<Rightarrow>
     (if cur_sacks = 0 then do { a1 \<leftarrow> aset a 0 \<lparr>start_seq = sq, end_seq = esq\<rparr>; Some (1, a1) }
      else do {
        (hit, a1) \<leftarrow> extend_from E sq esq cur_sacks 0 a;
        case hit of
          Some i \<Rightarrow> do {
            a2 \<leftarrow> rotate_front i a1;
            if 1 < cur_sacks then tcp_sack_maybe_coalesce E 1 cur_sacks a2 else Some (cur_sacks, a2) }
        | None \<Rightarrow> do {
            let (this_sack, num) = (if TCP_NUM_SACKS \<le> cur_sacks then (cur_sacks - 1, cur_sacks - 1)
                                    else (cur_sacks, cur_sacks));
            a2 \<leftarrow> shift_back this_sack a1;
            a3 \<leftarrow> aset a2 0 \<lparr>start_seq = sq, end_seq = esq\<rparr>;
            Some (num + 1, a3) } }))"

section \<open>The window moves\<close>

function sack_remove_loop ::
    "tenv \<Rightarrow> u32 \<Rightarrow> nat \<Rightarrow> nat \<Rightarrow> tcp_sack_block list \<Rightarrow> (nat \<times> tcp_sack_block list) option" where
  "sack_remove_loop E rcv_nxt this_sack num a =
     (if this_sack < num then do {
        sp \<leftarrow> aref a this_sack;
        if \<not> before E rcv_nxt (start_seq sp) then do {
          a1 \<leftarrow> zap (num - 1 - this_sack) this_sack a;
          sack_remove_loop E rcv_nxt this_sack (num - 1) a1 }
        else sack_remove_loop E rcv_nxt (this_sack + 1) num a }
      else Some (num, a))"
  by pat_completeness auto
termination
  by (relation "measure (\<lambda>(E, r, i, n, a). n - i)") auto

declare sack_remove_loop.simps [simp del]

definition tcp_sack_remove ::
    "tenv \<Rightarrow> u32 \<Rightarrow> bool \<Rightarrow> nat \<times> tcp_sack_block list \<Rightarrow> (nat \<times> tcp_sack_block list) option" where
  "tcp_sack_remove E rcv_nxt ofo_empty s = (case s of (num, a) \<Rightarrow>
     (if ofo_empty then Some (0, a) else sack_remove_loop E rcv_nxt 0 num a))"

section \<open>Duplicates\<close>

text \<open>The D-SACK block: whether one is scheduled, and the block.\<close>

definition tcp_dsack_set ::
    "tenv \<Rightarrow> bool \<Rightarrow> u32 \<Rightarrow> u32 \<Rightarrow> bool \<times> tcp_sack_block \<Rightarrow> bool \<times> tcp_sack_block" where
  "tcp_dsack_set E is_sack sq esq d =
     (if is_sack \<and> sysctl_tcp_dsack E then (True, \<lparr>start_seq = sq, end_seq = esq\<rparr>) else d)"

definition tcp_dsack_extend ::
    "tenv \<Rightarrow> bool \<Rightarrow> u32 \<Rightarrow> u32 \<Rightarrow> bool \<times> tcp_sack_block \<Rightarrow> bool \<times> tcp_sack_block" where
  "tcp_dsack_extend E is_sack sq esq d = (case d of (scheduled, blk) \<Rightarrow>
     (if \<not> scheduled then tcp_dsack_set E is_sack sq esq d
      else (scheduled, snd (tcp_sack_extend E blk sq esq))))"

end
