(* ===== verification/Tcp_Sack_Correct.thy ===== *)
theory Tcp_Sack_Correct
  imports Tcp_Sack
begin

text \<open>
  Correctness of the SACK blocks. First the array operations are shown to stay inside the array
  and to implement operations on lists of blocks; then the lists are read as sets of received
  bytes.
\<close>

section \<open>The array as a list\<close>

lemma aref_Some [simp]: "i < length a \<Longrightarrow> aref a i = Some (a ! i)"
  by (simp add: aref_def)

lemma aset_Some [simp]: "i < length a \<Longrightarrow> aset a i v = Some (a[i := v])"
  by (simp add: aset_def)

lemma zap_spec:
  "i + n < length a \<Longrightarrow> zap n i a = Some (take i a @ take n (drop (i + 1) a) @ drop (i + n) a)"
proof (induction n arbitrary: i a)
  case (Suc n)
  define a1 where "a1 = a[i := a ! (i + 1)]"
  have "zap (Suc n) i a = zap n (i + 1) a1" using Suc.prems by (simp add: a1_def)
  also have "\<dots> = Some (take (i + 1) a1 @ take n (drop (i + 2) a1) @ drop (i + 1 + n) a1)"
    using Suc.IH [of "i + 1" a1] Suc.prems by (simp add: a1_def)
  also have "take (i + 1) a1 = take i a @ [a ! (i + 1)]"
    using Suc.prems by (simp add: a1_def take_Suc_conv_app_nth)
  also have "drop (i + 2) a1 = drop (i + 2) a" by (simp add: a1_def)
  also have "drop (i + 1 + n) a1 = drop (i + Suc n) a" by (simp add: a1_def)
  finally show ?case
    using Suc.prems Cons_nth_drop_Suc [of "i + 1" a] by (simp add: take_Cons' [symmetric]) (metis take_Suc_Cons)
qed simp

lemma rotate_front_spec:
  "i < length a \<Longrightarrow> rotate_front i a = Some (a ! i # take i a @ drop (i + 1) a)"
proof (induction i arbitrary: a)
  case 0
  then show ?case by (cases a) simp_all
next
  case (Suc i)
  define a1 where "a1 = a[Suc i := a ! i, i := a ! Suc i]"
  have "rotate_front (Suc i) a = rotate_front i a1" using Suc.prems by (simp add: a1_def)
  also have "\<dots> = Some (a1 ! i # take i a1 @ drop (i + 1) a1)"
    using Suc.IH [of a1] Suc.prems by (simp add: a1_def)
  also have "a1 ! i = a ! Suc i" using Suc.prems by (simp add: a1_def)
  also have "take i a1 = take i a" by (simp add: a1_def)
  also have "drop (i + 1) a1 = a ! i # drop (i + 2) a"
    using Suc.prems by (simp add: a1_def Cons_nth_drop_Suc [symmetric])
  finally show ?case using Suc.prems by (simp add: take_Suc_conv_app_nth)
qed

lemma shift_back_spec:
  "i < length a \<Longrightarrow> shift_back i a = Some (take 1 a @ take i a @ drop (i + 1) a)"
proof (induction i arbitrary: a)
  case 0
  then show ?case by (cases a) simp_all
next
  case (Suc i)
  define a1 where "a1 = a[Suc i := a ! i]"
  have "shift_back (Suc i) a = shift_back i a1" using Suc.prems by (simp add: a1_def)
  also have "\<dots> = Some (take 1 a1 @ take i a1 @ drop (i + 1) a1)"
    using Suc.IH [of a1] Suc.prems by (simp add: a1_def)
  also have "take 1 a1 = take 1 a" by (simp add: a1_def)
  also have "take i a1 = take i a" by (simp add: a1_def)
  also have "drop (i + 1) a1 = a ! i # drop (i + 2) a"
    using Suc.prems by (simp add: a1_def Cons_nth_drop_Suc [symmetric])
  finally show ?case using Suc.prems by (simp add: take_Suc_conv_app_nth)
qed

section \<open>Operations on lists of blocks\<close>

definition touches :: "tenv \<Rightarrow> tcp_sack_block \<Rightarrow> u32 \<Rightarrow> u32 \<Rightarrow> bool" where
  "touches E sp sq esq = fst (tcp_sack_extend E sp sq esq)"

definition joined :: "tenv \<Rightarrow> tcp_sack_block \<Rightarrow> u32 \<Rightarrow> u32 \<Rightarrow> tcp_sack_block" where
  "joined E sp sq esq = snd (tcp_sack_extend E sp sq esq)"

lemma extend_eq: "tcp_sack_extend E sp sq esq = (touches E sp sq esq, joined E sp sq esq)"
  by (simp add: touches_def joined_def)

lemma not_touches: "\<not> touches E sp sq esq \<Longrightarrow> joined E sp sq esq = sp"
  by (auto simp: touches_def joined_def tcp_sack_extend_def Let_def split: if_splits)

fun coal :: "tenv \<Rightarrow> tcp_sack_block \<Rightarrow> tcp_sack_block list \<Rightarrow> tcp_sack_block list" where
  "coal E sp [] = [sp]"
| "coal E sp (b # bs) =
     (if touches E sp (start_seq b) (end_seq b) then coal E (joined E sp (start_seq b) (end_seq b)) bs
      else (case coal E sp bs of [] \<Rightarrow> [] | s # r \<Rightarrow> s # b # r))"

lemma coal_Cons: "\<exists>s r. coal E sp bs = s # r"
  by (induction bs arbitrary: sp) (auto split: list.splits, metis list.distinct(1))

definition new_sack :: "tenv \<Rightarrow> u32 \<Rightarrow> u32 \<Rightarrow> tcp_sack_block list \<Rightarrow> tcp_sack_block list" where
  "new_sack E sq esq bs =
     (let pre = takeWhile (\<lambda>b. \<not> touches E b sq esq) bs
      in case dropWhile (\<lambda>b. \<not> touches E b sq esq) bs of
           [] \<Rightarrow> take 4 (\<lparr>start_seq = sq, end_seq = esq\<rparr> # bs)
         | b # post \<Rightarrow> coal E (joined E b sq esq) (pre @ post))"

definition blocks :: "nat \<times> tcp_sack_block list \<Rightarrow> tcp_sack_block list" where
  "blocks s = take (fst s) (snd s)"

definition sacks_ok :: "nat \<times> tcp_sack_block list \<Rightarrow> bool" where
  "sacks_ok s \<longleftrightarrow> length (snd s) = 4 \<and> fst s \<le> 4"

lemma length_coal: "length (coal E sp bs) \<le> Suc (length bs)"
  by (induction bs arbitrary: sp) (auto split: list.splits intro: le_SucI, metis Suc_le_mono length_Cons)

text \<open>The array operations implement the list operations.\<close>

lemma coalesce_spec:
  assumes "length a = 4" "num \<le> 4" "1 \<le> this" "this \<le> num"
  shows "\<exists>s r a'. coal E (a ! 0) (drop this (take num a)) = s # r \<and>
    tcp_sack_maybe_coalesce E this num a = Some (this + length r, a') \<and> length a' = 4 \<and>
    take (this + length r) a' = s # take (this - 1) (drop 1 a) @ r"
  using assms
proof (induction "num - this" arbitrary: this num a rule: less_induct)
  case less
  show ?case
  proof (cases "this < num")
    case False
    then have n: "num = this" using less.prems by simp
    have "take this a = a ! 0 # take (this - 1) (drop 1 a)"
      using less.prems by (cases a; cases this) auto
    with n less.prems show ?thesis by (subst tcp_sack_maybe_coalesce.simps) simp
  next
    case True
    define b where "b = a ! this"
    have d: "drop this (take num a) = b # drop (Suc this) (take num a)"
      using True less.prems by (simp add: b_def Cons_nth_drop_Suc [symmetric] nth_take)
    have ar: "aref a 0 = Some (a ! 0)" "aref a this = Some b" using True less.prems by (simp_all add: b_def)
    show ?thesis
    proof (cases "touches E (a ! 0) (start_seq b) (end_seq b)")
      case False
      then have "tcp_sack_maybe_coalesce E this num a = tcp_sack_maybe_coalesce E (this + 1) num a"
        using True less.prems by (subst tcp_sack_maybe_coalesce.simps) (simp add: ar extend_eq not_touches b_def)
      moreover obtain s r a' where "coal E (a ! 0) (drop (this + 1) (take num a)) = s # r"
        "tcp_sack_maybe_coalesce E (this + 1) num a = Some (this + 1 + length r, a')" "length a' = 4"
        "take (this + 1 + length r) a' = s # take (this + 1 - 1) (drop 1 a) @ r"
        using less.hyps [of num "this + 1" a, OF diff_less_mono2] True less.prems by fastforce
      moreover have "take this (drop 1 a) = take (this - 1) (drop 1 a) @ [b]"
        using True less.prems take_Suc_conv_app_nth [of "this - 1" "drop 1 a"] by (simp add: b_def)
      ultimately show ?thesis using False by (simp add: d)
    next
      case hit: True
      define a1 where "a1 = a[0 := joined E (a ! 0) (start_seq b) (end_seq b)]"
      define a2 where "a2 = take this a1 @ take (num - 1 - this) (drop (this + 1) a1) @ drop (num - 1) a1"
      have z: "zap (num - 1 - this) this a1 = Some a2"
        using zap_spec [of this "num - 1 - this" a1] True less.prems by (simp add: a1_def a2_def)
      have l: "length a2 = 4" using True less.prems by (simp add: a2_def a1_def)
      have a20: "a2 ! 0 = joined E (a ! 0) (start_seq b) (end_seq b)"
        using True less.prems by (simp add: a2_def a1_def nth_append)
      have tk: "drop this (take (num - 1) a2) = drop (Suc this) (take num a)"
        using True less.prems by (simp add: a2_def a1_def drop_take)
      have dr: "take (this - 1) (drop 1 a2) = take (this - 1) (drop 1 a)"
        using True less.prems by (simp add: a2_def a1_def take_drop take_update_swap)
      have run: "tcp_sack_maybe_coalesce E this num a = tcp_sack_maybe_coalesce E this (num - 1) a2"
        using True hit less.prems z by (subst tcp_sack_maybe_coalesce.simps) (simp add: ar extend_eq a1_def)
      have h: "num - 1 - this < num - this" "num - 1 \<le> 4" "this \<le> num - 1" using True less.prems by auto
      from less.hyps [OF h(1) l h(2) less.prems(3) h(3)] obtain s r a' where "coal E (a2 ! 0) (drop this (take (num - 1) a2)) = s # r"
        "tcp_sack_maybe_coalesce E this (num - 1) a2 = Some (this + length r, a')" "length a' = 4"
        "take (this + length r) a' = s # take (this - 1) (drop 1 a2) @ r" by blast
      then show ?thesis unfolding d run coal.simps if_P [OF hit] a20 tk dr by blast
    qed
  qed
qed

lemma extend_from_spec:
  assumes "i + n \<le> length a"
  shows "(\<exists>j. i \<le> j \<and> j < i + n \<and> touches E (a ! j) sq esq \<and> (\<forall>k. i \<le> k \<longrightarrow> k < j \<longrightarrow> \<not> touches E (a ! k) sq esq) \<and>
            extend_from E sq esq n i a = Some (Some j, a[j := joined E (a ! j) sq esq])) \<or>
         (\<forall>j. i \<le> j \<longrightarrow> j < i + n \<longrightarrow> \<not> touches E (a ! j) sq esq) \<and> extend_from E sq esq n i a = Some (None, a)"
  using assms
proof (induction n arbitrary: i)
  case (Suc n)
  show ?case
  proof (cases "touches E (a ! i) sq esq")
    case True
    then show ?thesis using Suc.prems by (auto simp: extend_eq)
  next
    case False
    then have "extend_from E sq esq (Suc n) i a = extend_from E sq esq n (i + 1) a"
      using Suc.prems by (simp add: extend_eq not_touches)
    then show ?thesis
      using Suc.IH [of "i + 1"] Suc.prems False by (auto simp: Suc_le_eq) (metis le_neq_implies_less)+
  qed
qed simp

lemma takeWhile_at:
  assumes "j < length bs" "P (bs ! j)" "\<forall>k < j. \<not> P (bs ! k)"
  shows "takeWhile (\<lambda>b. \<not> P b) bs = take j bs" "dropWhile (\<lambda>b. \<not> P b) bs = bs ! j # drop (Suc j) bs"
proof -
  show tw: "takeWhile (\<lambda>b. \<not> P b) bs = take j bs"
    using assms by (intro takeWhile_eq_take_P_nth) auto
  have "dropWhile (\<lambda>b. \<not> P b) bs = drop j bs"
    using assms(1) by (simp add: dropWhile_eq_drop tw)
  then show "dropWhile (\<lambda>b. \<not> P b) bs = bs ! j # drop (Suc j) bs"
    using assms(1) by (simp add: Cons_nth_drop_Suc)
qed

lemma new_ofo_spec:
  assumes ok: "sacks_ok s"
  shows "\<exists>s'. tcp_sack_new_ofo_skb E sq esq s = Some s' \<and> sacks_ok s' \<and> blocks s' = new_sack E sq esq (blocks s) \<and>
           fst s' = length (blocks s')"
proof -
  obtain n a where s: "s = (n, a)" by (cases s)
  then have na: "length a = 4" "n \<le> 4" using ok by (simp_all add: sacks_ok_def)
  define nb where "nb = \<lparr>start_seq = sq, end_seq = esq\<rparr>"
  define bs where "bs = take n a"
  have lb: "length bs = n" "\<forall>j < n. bs ! j = a ! j" using na by (simp_all add: bs_def)
  show ?thesis
  proof (cases "n = 0")
    case True
    then show ?thesis
      using na by (auto simp: s tcp_sack_new_ofo_skb_def sacks_ok_def blocks_def new_sack_def take_Suc_conv_app_nth)
  next
    case False
    from extend_from_spec [of 0 n a E sq esq] na consider
      (hit) j where "j < n" "touches E (a ! j) sq esq" "\<forall>k < j. \<not> touches E (a ! k) sq esq"
        "extend_from E sq esq n 0 a = Some (Some j, a[j := joined E (a ! j) sq esq])"
      | (miss) "\<forall>j < n. \<not> touches E (a ! j) sq esq" "extend_from E sq esq n 0 a = Some (None, a)" by auto
    then show ?thesis
    proof cases
      case hit
      define sp where "sp = joined E (a ! j) sq esq"
      define a2 where "a2 = sp # take j a @ drop (j + 1) a"
      have rot: "rotate_front j (a[j := sp]) = Some a2"
        using rotate_front_spec [of j "a[j := sp]"] hit(1) na by (simp add: a2_def)
      have l2: "length a2 = 4" using hit(1) na by (simp add: a2_def)
      have spec: "new_sack E sq esq bs = coal E sp (take j bs @ drop (Suc j) bs)"
        using takeWhile_at [of j bs "\<lambda>b. touches E b sq esq"] hit(1-3) lb
        by (simp add: new_sack_def sp_def)
      have tl: "drop 1 (take n a2) = take j bs @ drop (Suc j) bs"
        using hit(1) na by (cases n) (auto simp: a2_def bs_def min_def drop_take less_Suc_eq_le dest: le_antisym)
      obtain k r a' where c: "coal E sp (drop 1 (take n a2)) = k # r"
        "(if 1 < n then tcp_sack_maybe_coalesce E 1 n a2 else Some (n, a2)) = Some (1 + length r, a')"
        "length a' = 4" "take (1 + length r) a' = k # r"
      proof (cases "1 < n")
        case True
        then show thesis
          using coalesce_spec [of a2 n 1 E] l2 na that by (auto simp: a2_def)
      next
        case n1: False
        with False have "n = 1" by simp
        then show thesis using that [of sp "[]" a2] l2 by (simp add: a2_def)
      qed
      have "length r \<le> length (drop 1 (take n a2))" using length_coal [of E sp "drop 1 (take n a2)"] c(1) by simp
      then have "1 + length r \<le> 4" using na l2 by simp
      moreover have "tcp_sack_new_ofo_skb E sq esq s = Some (1 + length r, a')"
        using False hit(4) rot c(2) by (simp add: s tcp_sack_new_ofo_skb_def sp_def)
      moreover have "new_sack E sq esq (blocks s) = k # r" using spec c(1) tl by (simp add: s blocks_def bs_def)
      ultimately show ?thesis using c(3,4) by (auto simp: sacks_ok_def blocks_def)
    next
      case miss
      define m where "m = (if 4 \<le> n then n - 1 else n)"
      have m: "m < 4" "m \<le> n" using na by (auto simp: m_def)
      define a2 where "a2 = nb # take m a @ drop (m + 1) a"
      have sh: "Option.bind (shift_back m a) (\<lambda>x. aset x 0 nb) = Some a2"
        using shift_back_spec [of m a] m na by (cases a) (simp_all add: a2_def)
      have dw: "dropWhile (\<lambda>b. \<not> touches E b sq esq) bs = []"
        using miss(1) lb by (auto simp: dropWhile_eq_Nil_conv in_set_conv_nth)
      have spec: "new_sack E sq esq bs = take 4 (nb # bs)" by (simp only: new_sack_def nb_def dw Let_def list.case)
      have "tcp_sack_new_ofo_skb E sq esq s = Some (m + 1, a2)"
        using False miss(2) sh by (auto simp: s tcp_sack_new_ofo_skb_def nb_def TCP_NUM_SACKS_def m_def Let_def bind_eq_Some_conv)
      moreover have "take (m + 1) a2 = take 4 (nb # bs)"
        using m na by (cases "n = 4"; cases "n = 3") (auto simp: a2_def bs_def m_def min_def)
      moreover have "length a2 = 4" using m na by (simp add: a2_def)
      moreover have "m = min 3 n" using na by (auto simp: m_def)
      ultimately show ?thesis
        using na spec by (intro exI [of _ "(m + 1, a2)"]) (simp add: sacks_ok_def blocks_def s bs_def)
    qed
  qed
qed

lemma remove_loop_spec:
  assumes "length a = 4" "num \<le> 4" "this \<le> num" "\<forall>b \<in> set (take this a). before E rcv_nxt (start_seq b)"
  shows "\<exists>num' a'. sack_remove_loop E rcv_nxt this num a = Some (num', a') \<and> length a' = 4 \<and> num' \<le> 4 \<and>
           take num' a' = filter (\<lambda>b. before E rcv_nxt (start_seq b)) (take num a) \<and> num' = length (take num' a')"
  using assms
proof (induction "num - this" arbitrary: this num a rule: less_induct)
  case less
  let ?P = "\<lambda>b. before E rcv_nxt (start_seq b)"
  show ?case
  proof (cases "this < num")
    case False
    then have "num = this" using less.prems by simp
    with less.prems show ?thesis
      by (subst sack_remove_loop.simps) (simp add: filter_True [symmetric])
  next
    case True
    define b where "b = a ! this"
    have ar: "aref a this = Some b" using True less.prems by (simp add: b_def)
    have spl: "take num a = take this a @ b # drop (Suc this) (take num a)"
      using True less.prems id_take_nth_drop [of this "take num a"] by (simp add: b_def min_def)
    show ?thesis
    proof (cases "?P b")
      case keep: True
      have "\<forall>x \<in> set (take (this + 1) a). ?P x"
        using less.prems keep True by (auto simp: take_Suc_conv_app_nth b_def)
      moreover have "sack_remove_loop E rcv_nxt this num a = sack_remove_loop E rcv_nxt (this + 1) num a"
        using True ar keep by (subst sack_remove_loop.simps) simp
      moreover have h: "num - (this + 1) < num - this" "this + 1 \<le> num" using True by auto
      ultimately show ?thesis using less.hyps [OF h(1) less.prems(1,2) h(2)] by simp
    next
      case False
      define a1 where "a1 = take this a @ take (num - 1 - this) (drop (this + 1) a) @ drop (num - 1) a"
      have z: "zap (num - 1 - this) this a = Some a1"
        using zap_spec [of this "num - 1 - this" a] True less.prems by (simp add: a1_def)
      have l: "length a1 = 4" "take this a1 = take this a" using True less.prems by (simp_all add: a1_def)
      have tk: "take (num - 1) a1 = take this a @ drop (Suc this) (take num a)"
        using True less.prems by (simp add: a1_def drop_take)
      have "sack_remove_loop E rcv_nxt this num a = sack_remove_loop E rcv_nxt this (num - 1) a1"
        using True ar False z by (subst sack_remove_loop.simps) simp
      moreover have "filter ?P (take (num - 1) a1) = filter ?P (take num a)"
        unfolding tk by (subst spl) (use False in simp)
      moreover have h: "num - 1 - this < num - this" "num - 1 \<le> 4" "this \<le> num - 1" using True less.prems by auto
      moreover have "\<forall>x \<in> set (take this a1). ?P x" using less.prems(4) l(2) by simp
      ultimately show ?thesis using less.hyps [OF h(1) l(1) h(2,3)] by simp
    qed
  qed
qed

section \<open>Blocks as sets of bytes\<close>

text \<open>
  Relative to a base from which all sequence numbers in use are less than half of the space
  away, a block is an interval. Two blocks are apart when at least one byte is missing between them.
\<close>

definition blk_ok :: "u32 \<Rightarrow> tcp_sack_block \<Rightarrow> bool" where
  "blk_ok b x \<longleftrightarrow> near b (start_seq x) \<and> near b (end_seq x) \<and> off b (start_seq x) < off b (end_seq x)"

definition iv :: "u32 \<Rightarrow> tcp_sack_block \<Rightarrow> nat set" where
  "iv b x = {off b (start_seq x) ..< off b (end_seq x)}"

definition apart :: "u32 \<Rightarrow> tcp_sack_block \<Rightarrow> tcp_sack_block \<Rightarrow> bool" where
  "apart b x y \<longleftrightarrow> off b (end_seq x) < off b (start_seq y) \<or> off b (end_seq y) < off b (start_seq x)"

definition sack_wf :: "u32 \<Rightarrow> tcp_sack_block list \<Rightarrow> bool" where
  "sack_wf b bs \<longleftrightarrow> (\<forall>x \<in> set bs. blk_ok b x) \<and> sorted_wrt (apart b) bs"

definition covered :: "u32 \<Rightarrow> tcp_sack_block list \<Rightarrow> nat set" where
  "covered b bs = (\<Union>x \<in> set bs. iv b x)"

lemma touches_iff:
  assumes "seq_law E" "blk_ok b x" "blk_ok b y"
  shows "touches E x (start_seq y) (end_seq y) \<longleftrightarrow> \<not> apart b x y"
  using assms by (auto simp: touches_def tcp_sack_extend_def Let_def blk_ok_def apart_def after_off [where b = b])

lemma joined_spec:
  assumes law: "seq_law E" and ok: "blk_ok b x" "blk_ok b y" and t: "\<not> apart b x y"
  defines "z \<equiv> joined E x (start_seq y) (end_seq y)"
  shows "off b (start_seq z) = min (off b (start_seq x)) (off b (start_seq y))"
    and "off b (end_seq z) = max (off b (end_seq x)) (off b (end_seq y))"
    and "blk_ok b z" "iv b z = iv b x \<union> iv b y"
proof -
  have tt: "touches E x (start_seq y) (end_seq y)" using touches_iff [OF law ok] t by simp
  have cond: "\<not> after E (start_seq y) (end_seq x) \<and> \<not> after E (start_seq x) (end_seq y)"
    using tt by (auto simp: touches_def tcp_sack_extend_def Let_def split: if_splits)
  have nr: "near b (start_seq x)" "near b (end_seq x)" "near b (start_seq y)" "near b (end_seq y)"
    using ok by (simp_all add: blk_ok_def)
  show st: "off b (start_seq z) = min (off b (start_seq x)) (off b (start_seq y))"
    using cond nr by (simp add: z_def joined_def tcp_sack_extend_def Let_def before_off [OF law, where b = b])
  show en: "off b (end_seq z) = max (off b (end_seq x)) (off b (end_seq y))"
    using cond nr by (simp add: z_def joined_def tcp_sack_extend_def Let_def after_off [OF law, where b = b])
  show "blk_ok b z" using ok st en unfolding blk_ok_def by (simp add: min_def max_def)
  show "iv b z = iv b x \<union> iv b y"
    using ok t unfolding iv_def st en apart_def blk_ok_def by (auto simp: min_def max_def)
qed

lemma joined_apart:
  assumes "seq_law E" "blk_ok b x" "blk_ok b y" "\<not> apart b x y" "blk_ok b c" "apart b c x" "apart b c y"
  shows "apart b c (joined E x (start_seq y) (end_seq y))"
  using joined_spec(1,2) [OF assms(1-4)] assms(2-7) unfolding apart_def blk_ok_def by (auto simp: min_def max_def)

lemma apart_sym: "apart b x y = apart b y x"
  by (auto simp: apart_def)

text \<open>What merging the blocks of a list into a block yields.\<close>

definition merged :: "u32 \<Rightarrow> tcp_sack_block \<Rightarrow> tcp_sack_block list \<Rightarrow> tcp_sack_block list \<Rightarrow> bool" where
  "merged b sp bs out \<longleftrightarrow> out \<noteq> [] \<and> sack_wf b out \<and> covered b out = iv b sp \<union> covered b bs \<and>
     iv b sp \<subseteq> iv b (hd out) \<and>
     (\<forall>c. blk_ok b c \<longrightarrow> apart b c sp \<longrightarrow> (\<forall>x \<in> set bs. apart b c x) \<longrightarrow> (\<forall>x \<in> set out. apart b c x))"

lemma merged_skip:
  assumes m: "merged b sp bs (s # r)" and y: "blk_ok b y" "\<forall>x \<in> set bs. apart b y x" "apart b y sp"
  shows "merged b sp (y # bs) (s # y # r)"
proof -
  have yr: "\<forall>x \<in> set (s # r). apart b y x" using m y unfolding merged_def by blast
  then have "apart b s y" by (simp add: apart_def disj_commute)
  with yr m y(1) have "sack_wf b (s # y # r)" by (simp add: merged_def sack_wf_def)
  with m show ?thesis by (auto simp: merged_def covered_def)
qed

lemma merged_join:
  assumes law: "seq_law E" and m: "merged b (joined E sp (start_seq y) (end_seq y)) bs out"
    and ok: "blk_ok b sp" "blk_ok b y" "\<not> apart b sp y"
  shows "merged b sp (y # bs) out"
proof -
  define z where "z = joined E sp (start_seq y) (end_seq y)"
  have z: "iv b z = iv b sp \<union> iv b y" unfolding z_def by (rule joined_spec(4) [OF law ok])
  have ap: "apart b c z" if "blk_ok b c" "apart b c sp" "apart b c y" for c
    unfolding z_def by (rule joined_apart [OF law ok that])
  note m' = m [folded z_def, unfolded merged_def]
  have "covered b out = iv b sp \<union> covered b (y # bs)"
    using m' z by (simp only: covered_def list.simps image_insert Union_insert Un_assoc simp_thms)
  moreover have "iv b sp \<subseteq> iv b (hd out)" using m' z by blast
  moreover have "\<forall>x \<in> set out. apart b c x" if "blk_ok b c" "apart b c sp" "\<forall>x \<in> set (y # bs). apart b c x" for c
  proof -
    have y: "apart b c y" "\<forall>x \<in> set bs. apart b c x" using that(3) by simp_all
    have "blk_ok b c \<longrightarrow> apart b c z \<longrightarrow> (\<forall>x \<in> set bs. apart b c x) \<longrightarrow> (\<forall>x \<in> set out. apart b c x)"
      using m' by blast
    with that(1) ap [OF that(1,2) y(1)] y(2) show ?thesis by blast
  qed
  ultimately show ?thesis using m' unfolding merged_def by blast
qed

lemma coal_spec:
  assumes law: "seq_law E" and ok: "blk_ok b sp" "sack_wf b bs"
  shows "merged b sp bs (coal E sp bs)"
  using ok
proof (induction bs arbitrary: sp)
  case Nil
  then show ?case by (simp add: merged_def sack_wf_def covered_def)
next
  case (Cons y bs)
  have y: "blk_ok b y" "sack_wf b bs" "\<forall>x \<in> set bs. apart b y x" using Cons.prems by (auto simp: sack_wf_def)
  note t = touches_iff [OF law Cons.prems(1) y(1)]
  show ?case
  proof (cases "apart b sp y")
    case True
    then have ys: "apart b y sp" by (simp add: apart_def disj_commute)
    obtain s r where "coal E sp bs = s # r" using coal_Cons by blast
    moreover from Cons.IH [OF Cons.prems(1) y(2)] this have "merged b sp bs (s # r)" by simp
    ultimately show ?thesis using merged_skip [OF _ y(1,3) ys] True t by simp
  next
    case False
    with Cons.IH [OF joined_spec(3) [OF law Cons.prems(1) y(1) False] y(2)] t show ?thesis
      using merged_join [OF law _ Cons.prems(1) y(1) False] by simp
  qed
qed

text \<open>The blocks after a new segment.\<close>

lemma new_sack_spec:
  assumes law: "seq_law E" and wf: "sack_wf b bs" "length bs \<le> 4"
    and nb: "blk_ok b nb" "nb = \<lparr>start_seq = sq, end_seq = esq\<rparr>"
  shows "sack_wf b (new_sack E sq esq bs) \<and> new_sack E sq esq bs \<noteq> [] \<and> iv b nb \<subseteq> iv b (hd (new_sack E sq esq bs)) \<and>
    covered b (new_sack E sq esq bs) \<subseteq> iv b nb \<union> covered b bs \<and>
    (length bs < 4 \<or> (\<exists>x \<in> set bs. \<not> apart b x nb) \<longrightarrow> covered b (new_sack E sq esq bs) = iv b nb \<union> covered b bs)"
proof -
  have t: "touches E x sq esq \<longleftrightarrow> \<not> apart b x nb" if "x \<in> set bs" for x
    using touches_iff [OF law _ nb(1), of x] that wf(1) by (simp add: nb(2) sack_wf_def)
  show ?thesis
  proof (cases "\<exists>x \<in> set bs. \<not> apart b x nb")
    case False
    then have dw: "dropWhile (\<lambda>x. \<not> touches E x sq esq) bs = []" using t by (simp add: dropWhile_eq_Nil_conv)
    have eq: "new_sack E sq esq bs = nb # take 3 bs"
      by (simp add: new_sack_def Let_def dw nb(2) del: dropWhile_eq_Nil_conv)
    have sub: "set (take 3 bs) \<subseteq> set bs" by (rule set_take_subset)
    have "\<forall>x \<in> set bs. apart b nb x" using False by (auto simp: apart_def)
    then have "sack_wf b (nb # take 3 bs)"
      using wf(1) nb(1) sub by (auto simp: sack_wf_def intro: sorted_wrt_take)
    moreover have "take 3 bs = bs" if "length bs < 4" using that by simp
    ultimately show ?thesis using False sub unfolding eq by (auto simp: covered_def)
  next
    case True
    then obtain x where x: "x \<in> set bs" "touches E x sq esq" using t by blast
    define pre where "pre = takeWhile (\<lambda>x. \<not> touches E x sq esq) bs"
    obtain y post where dw: "dropWhile (\<lambda>x. \<not> touches E x sq esq) bs = y # post"
      using x by (metis dropWhile_eq_Nil_conv neq_Nil_conv)
    have bs: "bs = pre @ y # post" using takeWhile_dropWhile_id [of "\<lambda>x. \<not> touches E x sq esq" bs] by (simp add: pre_def dw)
    have ty: "touches E y sq esq" using hd_dropWhile [of "\<lambda>x. \<not> touches E x sq esq" bs] dw by simp
    have y: "blk_ok b y" "\<not> apart b y nb" using wf(1) t [of y] ty bs by (auto simp: sack_wf_def)
    define z where "z = joined E y sq esq"
    have z: "blk_ok b z" "iv b z = iv b y \<union> iv b nb"
      using joined_spec(3,4) [OF law y(1) nb(1) y(2)] by (simp_all add: z_def nb(2))
    have pp: "sack_wf b (pre @ post)" using wf(1) unfolding bs sack_wf_def by (auto simp: sorted_wrt_append)
    have "new_sack E sq esq bs = coal E z (pre @ post)" by (simp add: new_sack_def dw pre_def z_def)
    moreover have "merged b z (pre @ post) (coal E z (pre @ post))" by (rule coal_spec [OF law z(1) pp])
    moreover have "iv b z \<union> covered b (pre @ post) = iv b nb \<union> covered b bs"
      unfolding bs z(2) by (auto simp: covered_def)
    ultimately show ?thesis using z(2) by (auto simp: merged_def)
  qed
qed

end
