(* ===== verification/Tcp_Sack_Props.thy ===== *)
theory Tcp_Sack_Props
  imports Tcp_Sack_Correct Tcp_Options_Props
begin

text \<open>The properties of the SACK blocks of a receiver.\<close>

definition B0 :: "nat \<times> tcp_sack_block list" where
  "B0 = (1, \<lparr>start_seq = 100, end_seq = 200\<rparr> # replicate 3 \<lparr>start_seq = 0, end_seq = 0\<rparr>)"

lemma B0_ok: "sacks_ok B0" "sack_wf 0 (blocks B0)" "length (blocks B0) = 1"
  by (simp_all add: B0_def sacks_ok_def blocks_def sack_wf_def blk_ok_def off_def)

text \<open>C21.
  Recording a segment that arrived out of order stays inside the array of four blocks and
  keeps the blocks well-formed: non-empty, with missing bytes between any two. The first
  block contains the new segment. Every byte reported was received (it is in the segment or was
  reported before), and all of these bytes are reported unless the array was full and no
  block could be merged.
\<close>

theorem sack_new_correct:
  assumes "seq_law E" "sacks_ok s" "sack_wf b (blocks s)"
    and "blk_ok b \<lparr>start_seq = sq, end_seq = esq\<rparr>"
  shows "\<exists>s'. tcp_sack_new_ofo_skb E sq esq s = Some s' \<and> sacks_ok s' \<and> sack_wf b (blocks s') \<and> blocks s' \<noteq> [] \<and>
    {off b sq ..< off b esq} \<subseteq> iv b (hd (blocks s')) \<and>
    covered b (blocks s') \<subseteq> {off b sq ..< off b esq} \<union> covered b (blocks s) \<and>
    (length (blocks s) < 4 \<or> (\<exists>x \<in> set (blocks s). \<not> apart b x \<lparr>start_seq = sq, end_seq = esq\<rparr>) \<longrightarrow>
       covered b (blocks s') = {off b sq ..< off b esq} \<union> covered b (blocks s))"
proof -
  obtain s' where "tcp_sack_new_ofo_skb E sq esq s = Some s'" "sacks_ok s'"
    "blocks s' = new_sack E sq esq (blocks s)" using new_ofo_spec [OF assms(2)] by blast
  moreover have "length (blocks s) \<le> 4" using assms(2) by (simp add: sacks_ok_def blocks_def)
  ultimately show ?thesis
    using new_sack_spec [OF assms(1,3) _ assms(4) refl] by (simp add: iv_def)
qed

theorem sack_new_correct_witness:
  "\<exists>s'. tcp_sack_new_ofo_skb T0 200 300 B0 = Some s' \<and> covered 0 (blocks s') = {200 ..< 300} \<union> {100 ..< 200}"
proof -
  have nb: "blk_ok 0 \<lparr>start_seq = 200, end_seq = 300\<rparr>" by (simp add: blk_ok_def off_def)
  have c: "covered 0 (blocks B0) = {100 ..< 200}" by (simp add: covered_def blocks_def B0_def iv_def off_def)
  have o: "off 0 200 = 200" "off 0 300 = 300" by (simp_all add: off_def)
  from sack_new_correct [OF T0_laws(1) B0_ok(1,2) nb] B0_ok(3) show ?thesis by (auto simp: c o)
qed

text \<open>C22.
  When the next expected byte moves on, exactly the blocks that still start behind it are kept, in
  order, inside the array; with no segment left out of order, none is kept.
\<close>

theorem sack_remove_correct:
  assumes "sacks_ok s"
  shows "\<exists>s'. tcp_sack_remove E rcv_nxt ofo_empty s = Some s' \<and> sacks_ok s' \<and>
    blocks s' = (if ofo_empty then [] else filter (\<lambda>x. before E rcv_nxt (start_seq x)) (blocks s))"
proof -
  obtain n a where s: "s = (n, a)" "length a = 4" "n \<le> 4" using assms by (cases s) (simp add: sacks_ok_def)
  show ?thesis
  proof (cases ofo_empty)
    case True
    then show ?thesis using s by (simp add: tcp_sack_remove_def sacks_ok_def blocks_def)
  next
    case False
    from remove_loop_spec [OF s(2,3), of 0 E rcv_nxt] obtain n' a' where
      "sack_remove_loop E rcv_nxt 0 n a = Some (n', a')" "length a' = 4" "n' \<le> 4"
      "take n' a' = filter (\<lambda>x. before E rcv_nxt (start_seq x)) (take n a)" by auto
    with False s(1) show ?thesis by (simp add: tcp_sack_remove_def sacks_ok_def blocks_def)
  qed
qed

theorem sack_remove_correct_witness:
  "\<exists>s'. tcp_sack_remove T0 50 False B0 = Some s' \<and> sacks_ok s' \<and>
     blocks s' = filter (\<lambda>x. before T0 50 (start_seq x)) (blocks B0)"
  using sack_remove_correct [OF B0_ok(1), of T0 50 False] by simp

end
