(* ===== verification/Tcp_Minisocks.thy ===== *)
theory Tcp_Minisocks
  imports Request_Queue Tcp_Seq
begin

text \<open>
  \<^verbatim>\<open>net/ipv4/tcp_minisocks.c\<close>: connections in the TIME-WAIT state, and the segments of the hand
  shake that meet a connection request. The functions of other files that a time-wait socket is
  handed to (releasing it, its timers) have no effect on what is read here; the calls are
  recorded, in order. Replies to the peer are recorded the same way. MD5 signatures and
  IPv6 are not configured; statistics are left out.
\<close>

section \<open>Segments and parameters\<close>

text \<open>
  A segment: its sequence numbers (\<^verbatim>\<open>TCP_SKB_CB\<close>), flags, header length in words, the bytes from the
  end of the fixed header on, the window field in host order and the length of the buffer.
\<close>

record segment =
  sg_seq :: u32
  sg_end_seq :: u32
  sg_ack_seq :: u32
  sg_fin :: bool
  sg_syn :: bool
  sg_rst :: bool
  sg_ack :: bool
  sg_doff :: u4
  sg_opts :: "u8 list"
  sg_window :: u16
  sg_len :: u32

record inet_peer =
  tcp_ts_stamp :: u32
  tcp_ts :: u32

text \<open>\<open>stack\<close> is the content of an uninitialised \<^verbatim>\<open>tmp_opt\<close>.\<close>

record menv =
  tcp :: tenv
  stack :: tcp_options_received
  TCP_TIMEWAIT_LEN :: int
  TCP_PAWS_MSL :: u32
  TCP_TIMEOUT_INIT :: u32
  HZ :: u32
  TCP_INIT_CWND :: u32
  TCP_INFINITE_SSTHRESH :: u32
  TCP_ECN_OK :: u8
  tcp_receive_window :: "u32 \<Rightarrow> u32 \<Rightarrow> u32 \<Rightarrow> u32"
  tcp_s_data_size :: u32
  tcp_enable_fack :: "tcp_options_received \<Rightarrow> tcp_options_received"
  sysctl_tw_recycle :: bool
  sysctl_tcp_rfc1337 :: bool
  sysctl_tcp_abort_on_overflow :: bool
  sysctl_tcp_fack :: bool

definition TCP_MSS_DEFAULT :: u32 where "TCP_MSS_DEFAULT = 536"

definition tcp_in_window :: "tenv \<Rightarrow> u32 \<Rightarrow> u32 \<Rightarrow> u32 \<Rightarrow> u32 \<Rightarrow> bool" where
  "tcp_in_window E sq esq s_win e_win \<longleftrightarrow>
     (if sq = s_win then True
      else if after E esq s_win \<and> before E sq e_win then True
      else sq = e_win \<and> sq = esq)"

text \<open>The options of a segment, parsed into an otherwise uninitialised record.\<close>

definition parse_tmp :: "menv \<Rightarrow> segment \<Rightarrow> tcp_options_received option" where
  "parse_tmp M sg = map_option opt_rx
     (tcp_parse_options (tcp M) (sg_doff sg) (sg_syn sg) (sg_opts sg) False
        \<lparr>opt_rx = (stack M)\<lparr>saw_tstamp := False\<rparr>, cb_sacked = 0, hvpp = None\<rparr>)"

section \<open>Time-wait sockets\<close>

record tcp_timewait_sock =
  tw_substate :: tcp_state
  tw_timeout :: int
  tw_transparent :: bool
  tw_rcv_wscale :: u4
  tw_rcv_nxt :: u32
  tw_snd_nxt :: u32
  tw_rcv_wnd :: u32
  tw_ts_recent :: u32
  tw_ts_recent_stamp :: u64

datatype tw_act =
    Tw_put
  | Tw_deschedule
  | Tw_schedule int int
  | Tw_hashdance
  | Peer_put
  | Update_metrics
  | Tcp_done

datatype tcp_tw_status = TCP_TW_SUCCESS | TCP_TW_RST | TCP_TW_ACK | TCP_TW_SYN

text \<open>A time-wait socket, the entry of its peer if there is one, and the calls made so far.\<close>

record tw_state =
  tw_sk :: tcp_timewait_sock
  tw_peer :: "inet_peer option"
  tw_calls :: "tw_act list"

definition tw_call :: "tw_act \<Rightarrow> tw_state \<Rightarrow> tw_state" where
  "tw_call c s = s\<lparr>tw_calls := tw_calls s @ [c]\<rparr>"

text \<open>The timestamp kept for a peer is replaced by a newer one, or when it is too old.\<close>

definition remember_peer :: "menv \<Rightarrow> u32 \<Rightarrow> u64 \<Rightarrow> inet_peer \<Rightarrow> inet_peer" where
  "remember_peer M ts stamp peer =
     (if sint (tcp_ts peer - ts) \<le> 0 \<or>
         (TCP_PAWS_MSL M < ucast (get_seconds (tcp M)) - tcp_ts_stamp peer \<and> tcp_ts_stamp peer \<le> ucast stamp)
      then \<lparr>tcp_ts_stamp = ucast stamp, tcp_ts = ts\<rparr> else peer)"

definition tcp_tw_remember_stamp :: "menv \<Rightarrow> tw_state \<Rightarrow> bool \<times> tw_state" where
  "tcp_tw_remember_stamp M s =
     (case tw_peer s of
        Some peer \<Rightarrow> (True, tw_call Peer_put (s\<lparr>tw_peer := Some (remember_peer M (tw_ts_recent (tw_sk s))
                                                          (tw_ts_recent_stamp (tw_sk s)) peer)\<rparr>))
      | None \<Rightarrow> (False, s))"

definition tw_kill :: "tw_state \<Rightarrow> tcp_tw_status \<times> u32 option \<times> tw_state" where
  "tw_kill s = (TCP_TW_SUCCESS, None, tw_call Tw_put (tw_call Tw_deschedule s))"

definition tw_kill_with_rst :: "tw_state \<Rightarrow> tcp_tw_status \<times> u32 option \<times> tw_state" where
  "tw_kill_with_rst s = (TCP_TW_RST, None, tw_call Tw_put (tw_call Tw_deschedule s))"

definition tw_reschedule :: "menv \<Rightarrow> tw_state \<Rightarrow> tw_state" where
  "tw_reschedule M s = tw_call (Tw_schedule (TCP_TIMEWAIT_LEN M) (TCP_TIMEWAIT_LEN M)) s"

text \<open>A segment for a connection that is still waiting for the FIN of the peer.\<close>

definition tw_fin_wait2 ::
    "menv \<Rightarrow> segment \<Rightarrow> tcp_options_received \<Rightarrow> bool \<Rightarrow> tw_state \<Rightarrow> tcp_tw_status \<times> u32 option \<times> tw_state" where
  "tw_fin_wait2 M sg tmp_opt paws_reject s =
     (let E = tcp M; tw = tw_sk s
      in if paws_reject \<or> \<not> tcp_in_window E (sg_seq sg) (sg_end_seq sg) (tw_rcv_nxt tw) (tw_rcv_nxt tw + tw_rcv_wnd tw)
         then (TCP_TW_ACK, None, s)
         else if sg_rst sg then tw_kill s
         else if sg_syn sg \<and> \<not> before E (sg_seq sg) (tw_rcv_nxt tw) then tw_kill_with_rst s
         else if \<not> sg_ack sg \<or> \<not> after E (sg_end_seq sg) (tw_rcv_nxt tw) \<or> sg_end_seq sg = sg_seq sg
         then (TCP_TW_SUCCESS, None, tw_call Tw_put s)
         else if \<not> sg_fin sg \<or> sg_end_seq sg \<noteq> tw_rcv_nxt tw + 1 then tw_kill_with_rst s
         else let tw1 = tw\<lparr>tw_substate := TCP_TIME_WAIT, tw_rcv_nxt := sg_end_seq sg\<rparr>;
                  tw2 = (if saw_tstamp tmp_opt
                         then tw1\<lparr>tw_ts_recent_stamp := get_seconds E, tw_ts_recent := rcv_tsval tmp_opt\<rparr> else tw1);
                  s1 = s\<lparr>tw_sk := tw2\<rparr>;
                  (ok, s2) = (if sysctl_tw_recycle M \<and> tw_ts_recent_stamp tw2 \<noteq> 0
                              then tcp_tw_remember_stamp M s1 else (False, s1))
              in (TCP_TW_ACK, None,
                  if ok then tw_call (Tw_schedule (tw_timeout tw2) (TCP_TIMEWAIT_LEN M)) s2
                  else tw_reschedule M s2))"

text \<open>The real TIME-WAIT state.\<close>

definition tw_time_wait ::
    "menv \<Rightarrow> segment \<Rightarrow> tcp_options_received \<Rightarrow> bool \<Rightarrow> tw_state \<Rightarrow> tcp_tw_status \<times> u32 option \<times> tw_state" where
  "tw_time_wait M sg tmp_opt paws_reject s =
     (let E = tcp M; tw = tw_sk s
      in if \<not> paws_reject \<and> sg_seq sg = tw_rcv_nxt tw \<and> (sg_seq sg = sg_end_seq sg \<or> sg_rst sg)
         then if sg_rst sg \<and> \<not> sysctl_tcp_rfc1337 M then tw_kill s
              else let s1 = tw_reschedule M s;
                       s2 = (if saw_tstamp tmp_opt
                             then s1\<lparr>tw_sk := (tw_sk s1)\<lparr>tw_ts_recent := rcv_tsval tmp_opt,
                                                        tw_ts_recent_stamp := get_seconds E\<rparr>\<rparr> else s1)
                   in (TCP_TW_SUCCESS, None, tw_call Tw_put s2)
         else if sg_syn sg \<and> \<not> sg_rst sg \<and> \<not> sg_ack sg \<and> \<not> paws_reject \<and>
                 (after E (sg_seq sg) (tw_rcv_nxt tw) \<or>
                  saw_tstamp tmp_opt \<and> sint (tw_ts_recent tw - rcv_tsval tmp_opt) < 0)
         then let isn = tw_snd_nxt tw + 65535 + 2
              in (TCP_TW_SYN, Some (if isn = 0 then isn + 1 else isn), s)
         else if \<not> sg_rst sg
         then (TCP_TW_ACK, None, if paws_reject \<or> sg_ack sg then tw_reschedule M s else s)
         else (TCP_TW_SUCCESS, None, tw_call Tw_put s))"

definition tcp_timewait_state_process ::
    "menv \<Rightarrow> segment \<Rightarrow> tw_state \<Rightarrow> (tcp_tw_status \<times> u32 option \<times> tw_state) option" where
  "tcp_timewait_state_process M sg s = do {
     let tw = tw_sk s;
     tmp_opt \<leftarrow> (if 5 < sg_doff sg \<and> tw_ts_recent_stamp tw \<noteq> 0 then parse_tmp M sg
                else Some ((stack M)\<lparr>saw_tstamp := False\<rparr>));
     let paws_reject = (saw_tstamp tmp_opt \<and>
           tcp_paws_reject (tcp M) (tmp_opt\<lparr>ts_recent := tw_ts_recent tw,
                                           ts_recent_stamp := tw_ts_recent_stamp tw\<rparr>) (sg_rst sg));
     Some (if tw_substate tw = TCP_FIN_WAIT2 then tw_fin_wait2 M sg tmp_opt paws_reject s
           else tw_time_wait M sg tmp_opt paws_reject s) }"

section \<open>Entering the TIME-WAIT state\<close>

text \<open>
  What is read of the socket that closes, with the entry of its peer (and whether the lookup of
  the peer took a reference), the number of time-wait sockets and its limit, and what the
  allocation of a time-wait socket returns.
\<close>

record closing_sock =
  cl_rto :: u32
  cl_rcv_nxt :: u32
  cl_snd_nxt :: u32
  cl_rcv_wup :: u32
  cl_rcv_wnd :: u32
  cl_rx_opt :: tcp_options_received
  cl_transparent :: bool
  cl_peer :: "inet_peer option"
  cl_release_it :: bool
  tw_count :: int
  sysctl_max_tw_buckets :: int
  inet_twsk_alloc :: "tcp_state \<Rightarrow> tcp_timewait_sock option"

text \<open>The new time-wait socket, the entry of the peer and the calls made.\<close>

record time_waited =
  new_tw :: "tcp_timewait_sock option"
  new_peer :: "inet_peer option"
  tw_acts :: "tw_act list"

definition tcp_remember_stamp :: "menv \<Rightarrow> closing_sock \<Rightarrow> bool \<times> inet_peer option \<times> tw_act list" where
  "tcp_remember_stamp M sk =
     (case cl_peer sk of
        Some peer \<Rightarrow> (True, Some (remember_peer M (ts_recent (cl_rx_opt sk)) (ts_recent_stamp (cl_rx_opt sk)) peer),
                      if cl_release_it sk then [Peer_put] else [])
      | None \<Rightarrow> (False, None, []))"

definition tcp_time_wait :: "menv \<Rightarrow> closing_sock \<Rightarrow> tcp_state \<Rightarrow> int \<Rightarrow> time_waited" where
  "tcp_time_wait M sk state timeo =
     (let (recycle_ok, peer, acts) =
            (if sysctl_tw_recycle M \<and> ts_recent_stamp (cl_rx_opt sk) \<noteq> 0 then tcp_remember_stamp M sk
             else (False, cl_peer sk, []));
          tw = (if tw_count sk < sysctl_max_tw_buckets sk then inet_twsk_alloc sk state else None)
      in case tw of
           Some tw0 \<Rightarrow>
             let rto = sint (push_bit 2 (cl_rto sk) - drop_bit 1 (cl_rto sk));
                 tw1 = tw0\<lparr>tw_transparent := cl_transparent sk, tw_rcv_wscale := rcv_wscale (cl_rx_opt sk),
                           tw_rcv_nxt := cl_rcv_nxt sk, tw_snd_nxt := cl_snd_nxt sk,
                           tw_rcv_wnd := tcp_receive_window M (cl_rcv_wup sk) (cl_rcv_wnd sk) (cl_rcv_nxt sk),
                           tw_ts_recent := ts_recent (cl_rx_opt sk),
                           tw_ts_recent_stamp := ts_recent_stamp (cl_rx_opt sk)\<rparr>;
                 timeo1 = (if timeo < rto then rto else timeo);
                 (tw2, timeo2) =
                   (if recycle_ok then (tw1\<lparr>tw_timeout := rto\<rparr>, timeo1)
                    else (tw1\<lparr>tw_timeout := TCP_TIMEWAIT_LEN M\<rparr>,
                          if state = TCP_TIME_WAIT then TCP_TIMEWAIT_LEN M else timeo1))
             in \<lparr>new_tw = Some tw2, new_peer = peer,
                 tw_acts = acts @ [Tw_hashdance, Tw_schedule timeo2 (TCP_TIMEWAIT_LEN M), Tw_put,
                                   Update_metrics, Tcp_done]\<rparr>
         | None \<Rightarrow> \<lparr>new_tw = None, new_peer = peer, tw_acts = acts @ [Update_metrics, Tcp_done]\<rparr>)"

section \<open>The child of a connection request\<close>

record tcp_child =
  c_state :: tcp_state
  c_bind_hash :: ptr
  c_dport :: be16
  c_num :: u16
  c_sport :: be16
  c_retransmits :: u8
  c_backoff :: u8
  c_probes_out :: u8
  c_cookie_desired :: "u8 option"
  c_pred_flags :: be32
  c_rcv_wup :: u32
  c_copied_seq :: u32
  c_rcv_nxt :: u32
  c_snd_sml :: u32
  c_snd_una :: u32
  c_snd_nxt :: u32
  c_snd_up :: u32
  c_srtt :: u32
  c_mdev :: u32
  c_rto :: u32
  c_packets_out :: u32
  c_retrans_out :: u32
  c_sacked_out :: u32
  c_fackets_out :: u32
  c_snd_ssthresh :: u32
  c_snd_cwnd :: u32
  c_snd_cwnd_cnt :: u32
  c_bytes_acked :: u32
  c_frto_counter :: u8
  c_frto_highmark :: u32
  c_out_of_order_queue :: "ptr list"
  c_write_seq :: u32
  c_pushed_seq :: u32
  c_rx_opt :: tcp_options_received
  c_urg_data :: u16
  c_keepopen :: bool
  c_keepalive :: "u32 option"
  c_window_clamp :: u32
  c_rcv_ssthresh :: u32
  c_rcv_wnd :: u32
  c_snd_wnd :: u32
  c_max_window :: u32
  c_tcp_header_len :: u16
  c_last_seg_size :: u16
  c_ecn_flags :: u8

text \<open>
  The functions of other files: cloning the listening socket (null when there is no memory), the
  allocation of cookie values, the initialisation of the prequeue, of the window update
  sequence, of the congestion state and of the timers.
\<close>

record cenv =
  sk_clone :: "tcp_child option"
  ntohs_port :: "be16 \<Rightarrow> u16"
  kzalloc_cookie :: bool
  tcp_prequeue_init :: "tcp_child \<Rightarrow> tcp_child"
  tcp_init_wl :: "u32 \<Rightarrow> tcp_child \<Rightarrow> tcp_child"
  tcp_set_ca_open :: "tcp_child \<Rightarrow> tcp_child"
  tcp_init_xmit_timers :: "tcp_child \<Rightarrow> tcp_child"
  keepalive_time_when :: "tcp_child \<Rightarrow> u32"

definition inet_csk_clone :: "cenv \<Rightarrow> tcp_request_sock \<Rightarrow> tcp_child option" where
  "inet_csk_clone C req = map_option (\<lambda>c. c\<lparr>c_state := TCP_SYN_RECV, c_bind_hash := NULL,
      c_dport := rmt_port req, c_num := ntohs_port C (loc_port req), c_sport := loc_port req,
      c_retransmits := 0, c_backoff := 0, c_probes_out := 0\<rparr>) (sk_clone C)"

definition TCP_ECN_openreq_child :: "menv \<Rightarrow> tcp_request_sock \<Rightarrow> tcp_child \<Rightarrow> tcp_child" where
  "TCP_ECN_openreq_child M req c = c\<lparr>c_ecn_flags := (if ireq_ecn_ok req then TCP_ECN_OK M else 0)\<rparr>"

text \<open>The sequence numbers and counters of the new connection.\<close>

definition child_seqs :: "menv \<Rightarrow> cenv \<Rightarrow> tcp_request_sock \<Rightarrow> tcp_child \<Rightarrow> tcp_child" where
  "child_seqs M C req c =
     (let nxt = rcv_isn req + 1;
          una = snt_isn req + 1 + tcp_s_data_size M;
          c1 = c\<lparr>c_pred_flags := 0, c_rcv_wup := nxt, c_copied_seq := nxt, c_rcv_nxt := nxt,
                c_snd_sml := una, c_snd_una := una, c_snd_nxt := una, c_snd_up := una\<rparr>;
          c2 = tcp_init_wl C (rcv_isn req) (tcp_prequeue_init C c1);
          c3 = c2\<lparr>c_srtt := 0, c_mdev := TCP_TIMEOUT_INIT M, c_rto := TCP_TIMEOUT_INIT M,
                 c_packets_out := 0, c_retrans_out := 0, c_sacked_out := 0, c_fackets_out := 0,
                 c_snd_ssthresh := TCP_INFINITE_SSTHRESH M, c_snd_cwnd := TCP_INIT_CWND M,
                 c_snd_cwnd_cnt := 0, c_bytes_acked := 0, c_frto_counter := 0, c_frto_highmark := 0\<rparr>;
          c4 = tcp_init_xmit_timers C (tcp_set_ca_open C c3)
      in c4\<lparr>c_out_of_order_queue := [], c_write_seq := una, c_pushed_seq := una,
            c_rx_opt := (c_rx_opt c4)\<lparr>saw_tstamp := False, dsack := False, num_sacks := 0\<rparr>,
            c_urg_data := 0\<rparr>)"

text \<open>The options agreed upon.\<close>

definition child_options :: "menv \<Rightarrow> cenv \<Rightarrow> tcp_request_sock \<Rightarrow> segment \<Rightarrow> tcp_child \<Rightarrow> tcp_child" where
  "child_options M C req sg c =
     (let c1 = (if c_keepopen c then c\<lparr>c_keepalive := Some (keepalive_time_when C c)\<rparr> else c);
          rx1 = (c_rx_opt c1)\<lparr>tstamp_ok := ireq_tstamp_ok req, sack_ok := (if ireq_sack_ok req then 1 else 0)\<rparr>;
          rx2 = (if ireq_sack_ok req \<and> sysctl_tcp_fack M then tcp_enable_fack M rx1 else rx1);
          c2 = c1\<lparr>c_window_clamp := req_window_clamp req, c_rcv_ssthresh := req_rcv_wnd req,
                 c_rcv_wnd := req_rcv_wnd req\<rparr>;
          (rx3, c3) =
            (if ireq_wscale_ok req
             then (rx2\<lparr>wscale_ok := True, snd_wscale := ucast (ireq_snd_wscale req),
                       rcv_wscale := ucast (ireq_rcv_wscale req)\<rparr>, c2)
             else (rx2\<lparr>wscale_ok := False, snd_wscale := 0, rcv_wscale := 0\<rparr>,
                   c2\<lparr>c_window_clamp := min (c_window_clamp c2) 65535\<rparr>));
          wnd = push_bit (unat (snd_wscale rx3)) (ucast (sg_window sg));
          c4 = c3\<lparr>c_snd_wnd := wnd, c_max_window := wnd\<rparr>;
          (rx4, c5) =
            (if tstamp_ok rx3
             then (rx3\<lparr>ts_recent := req_ts_recent req, ts_recent_stamp := get_seconds (tcp M)\<rparr>,
                   c4\<lparr>c_tcp_header_len := of_int (20 + TCPOLEN_TSTAMP_ALIGNED (tcp M))\<rparr>)
             else (rx3\<lparr>ts_recent_stamp := 0\<rparr>, c4\<lparr>c_tcp_header_len := 20\<rparr>));
          hlen = ucast (c_tcp_header_len c5);
          c6 = (if TCP_MSS_DEFAULT + hlen \<le> sg_len sg
                then c5\<lparr>c_last_seg_size := ucast (sg_len sg - hlen)\<rparr> else c5)
      in TCP_ECN_openreq_child M req (c6\<lparr>c_rx_opt := rx4\<lparr>mss_clamp := req_mss req\<rparr>\<rparr>))"

definition tcp_create_openreq_child ::
    "menv \<Rightarrow> cenv \<Rightarrow> u8 option \<Rightarrow> tcp_request_sock \<Rightarrow> segment \<Rightarrow> tcp_child option" where
  "tcp_create_openreq_child M C oldcvp req sg =
     map_option (\<lambda>c. child_options M C req sg (child_seqs M C req
         (case oldcvp of Some desired \<Rightarrow> c\<lparr>c_cookie_desired := (if kzalloc_cookie C then Some desired else None)\<rparr>
                       | None \<Rightarrow> c)))
       (inet_csk_clone C req)"

section \<open>A segment for a connection request\<close>

text \<open>
  The answers sent to the peer through the function pointers of the request, and what
  \<open>tcp_check_req\<close> returns: null (the segment is dropped), the listening socket, or the child.
\<close>

datatype reply = Rtx_syn_ack ptr | Send_ack ptr | Send_reset

datatype check_result = Dropped | Parent | Child ptr

definition check_req_options :: "menv \<Rightarrow> tcp_request_sock \<Rightarrow> segment \<Rightarrow> (tcp_options_received \<times> bool) option" where
  "check_req_options M r sg =
     (if 5 < sg_doff sg then do {
        tmp_opt \<leftarrow> parse_tmp M sg;
        Some (if saw_tstamp tmp_opt then
                (let tmp1 = tmp_opt\<lparr>ts_recent := req_ts_recent r,
                       ts_recent_stamp := get_seconds (tcp M) -
                         ucast (push_bit (unat (req_retrans r)) (TCP_TIMEOUT_INIT M div HZ M))\<rparr>
                 in (tmp1, tcp_paws_reject (tcp M) tmp1 (sg_rst sg)))
              else (tmp_opt, False)) }
      else Some ((stack M)\<lparr>saw_tstamp := False\<rparr>, False))"

definition embryonic_reset :: "bool \<Rightarrow> ptr \<Rightarrow> link \<Rightarrow> listener \<Rightarrow> (check_result \<times> reply list \<times> listener) option" where
  "embryonic_reset rst req prev s = do {
     s1 \<leftarrow> inet_csk_reqsk_queue_drop req prev s;
     Some (Dropped, if rst then [] else [Send_reset], s1) }"

text \<open>
  The acknowledgement is valid: the function \<open>syn_recv_sock\<close> of the address family makes the
  child, and the request moves from the table to the accept queue.
\<close>

definition check_req_open ::
    "menv \<Rightarrow> (ptr \<Rightarrow> listener \<Rightarrow> ptr) \<Rightarrow> ptr \<Rightarrow> link \<Rightarrow> listener \<Rightarrow> (check_result \<times> reply list \<times> listener) option" where
  "check_req_open M syn_recv_sock req prev s =
     (let child = syn_recv_sock req s
      in if child = NULL then
           (if \<not> sysctl_tcp_abort_on_overflow M
            then do { s1 \<leftarrow> upd_req req (\<lambda>r. r\<lparr>acked := True\<rparr>) s; Some (Dropped, [], s1) }
            else embryonic_reset False req prev s)
         else do {
           s1 \<leftarrow> reqsk_queue_unlink req prev s;
           s2 \<leftarrow> inet_csk_reqsk_queue_removed req s1;
           s3 \<leftarrow> reqsk_queue_add req child s2;
           Some (Child child, [], s3) })"

definition tcp_check_req ::
    "menv \<Rightarrow> (ptr \<Rightarrow> listener \<Rightarrow> ptr) \<Rightarrow> segment \<Rightarrow> ptr \<Rightarrow> link \<Rightarrow> listener \<Rightarrow>
     (check_result \<times> reply list \<times> listener) option" where
  "tcp_check_req M syn_recv_sock sg req prev s = do {
     r \<leftarrow> reqs s req;
     (tmp_opt, paws_reject) \<leftarrow> check_req_options M r sg;
     if sg_seq sg = rcv_isn r \<and> (sg_syn sg \<and> \<not> sg_rst sg \<and> \<not> sg_ack sg) \<and> \<not> paws_reject
     then Some (Dropped, [Rtx_syn_ack req], s)
     else if sg_ack sg \<and> sg_ack_seq sg \<noteq> snt_isn r + 1 + tcp_s_data_size M then Some (Parent, [], s)
     else if paws_reject \<or> \<not> tcp_in_window (tcp M) (sg_seq sg) (sg_end_seq sg) (rcv_isn r + 1)
                                 (rcv_isn r + 1 + req_rcv_wnd r)
     then Some (Dropped, if sg_rst sg then [] else [Send_ack req], s)
     else do {
       s1 \<leftarrow> (if saw_tstamp tmp_opt \<and> \<not> after (tcp M) (sg_seq sg) (rcv_isn r + 1)
              then upd_req req (\<lambda>r. r\<lparr>req_ts_recent := rcv_tsval tmp_opt\<rparr>) s else Some s);
       if sg_rst sg \<or> (sg_syn sg \<and> sg_seq sg \<noteq> rcv_isn r) then embryonic_reset (sg_rst sg) req prev s1
       else if \<not> sg_ack sg then Some (Dropped, [], s1)
       else if req_retrans r < rskq_defer_accept s1 \<and> sg_end_seq sg = rcv_isn r + 1
       then do { s2 \<leftarrow> upd_req req (\<lambda>r. r\<lparr>acked := True\<rparr>) s1; Some (Dropped, [], s2) }
       else do {
         s2 \<leftarrow> (if saw_tstamp tmp_opt \<and> rcv_tsecr tmp_opt \<noteq> 0
                then upd_req req (\<lambda>r. r\<lparr>snt_synack := rcv_tsecr tmp_opt\<rparr>) s1
                else if req_retrans r \<noteq> 0 then upd_req req (\<lambda>r. r\<lparr>snt_synack := 0\<rparr>) s1
                else Some s1);
         check_req_open M syn_recv_sock req prev s2 } } }"

section \<open>The first segment of the child\<close>

datatype child_act = Wake_parent | Add_backlog | Put_child

definition tcp_child_process ::
    "(tcp_child \<Rightarrow> int \<times> tcp_child) \<Rightarrow> bool \<Rightarrow> tcp_child \<Rightarrow> int \<times> tcp_child \<times> child_act list" where
  "tcp_child_process rcv_state_process owned_by_user child =
     (let state = c_state child
      in if \<not> owned_by_user then
           (case rcv_state_process child of (ret, child1) \<Rightarrow>
              (ret, child1, (if state = TCP_SYN_RECV \<and> c_state child1 \<noteq> state then [Wake_parent] else []) @ [Put_child]))
         else (0, child, [Add_backlog, Put_child]))"

end
