(* ===== verification/Tcp_Minisocks_Correct.thy ===== *)
theory Tcp_Minisocks_Correct
  imports Tcp_Minisocks Accept_Queue Tcp_Options_Correct
begin

text \<open>
  What the segments of the hand shake do to the request queue of a listening socket, over the
  invariant \<open>rq_rel\<close> of \<open>Request_Queue_Correct\<close>, and the bookkeeping of a time-wait socket.
\<close>

section \<open>Requests that are changed, dropped or moved\<close>

text \<open>A request of the table is left out of it.\<close>

definition taken_out :: "ptr list list \<Rightarrow> ptr \<Rightarrow> ptr list list \<Rightarrow> bool" where
  "taken_out tbl x tbl' \<longleftrightarrow> set (concat tbl') = set (concat tbl) - {x}"

lemma taken_outI:
  assumes "rq_rel K s aq tbl" "i < length tbl" "tbl ! i = as @ x # bs"
  shows "taken_out tbl x (tbl[i := as @ bs])"
  using mset_slot(3,4) [OF assms(2)] mset_slot(3) [of i "tbl[i := as @ bs]"] assms
  by (auto simp: taken_out_def rq_rel_def)

lemma upd_req_spec:
  assumes rel: "rq_rel K s aq tbl" and i: "i < length tbl" "x \<in> set (tbl ! i)" and r: "reqs s x = Some r"
    and f: "dl_next (f r) = dl_next r" "rmt_addr (f r) = rmt_addr r" "rmt_port (f r) = rmt_port r"
      "req_retrans (f r) = req_retrans r"
  shows "\<exists>s'. upd_req x f s = Some s' \<and> rq_rel K s' aq tbl \<and> reqs s' x = Some (f r)"
proof -
  obtain lopt where lopt: "listen_opt s = Some lopt" using rel by (auto simp: rq_rel_def)
  have "lopt = lopt\<lparr>qlen_young := qlen_young lopt - (if req_retrans r = 0 then 1 else 0)
                                     + (if req_retrans (f r) = 0 then 1 else 0)\<rparr>"
    by (simp add: f(4))
  from rq_rel_touch [OF rel i lopt r f(1-3) this]
  have "rq_rel K (s\<lparr>listen_opt := Some lopt, reqs := (reqs s)(x \<mapsto> f r)\<rparr>) aq tbl" .
  moreover have "s\<lparr>listen_opt := Some lopt, reqs := (reqs s)(x \<mapsto> f r)\<rparr> = s\<lparr>reqs := (reqs s)(x \<mapsto> f r)\<rparr>"
    using lopt by (cases s) simp
  ultimately show ?thesis by (simp add: upd_req_def r)
qed

lemma csk_unlink_spec:
  assumes rel: "rq_rel K s aq tbl" and i: "i < length tbl" and split: "tbl ! i = as @ x # bs"
  shows "\<exists>s1 s2. reqsk_queue_unlink x (link_after i as) s = Some s1 \<and>
           inet_csk_reqsk_queue_removed x s1 = Some s2 \<and> rq_rel K s2 aq (tbl[i := as @ bs]) \<and>
           content s2 = content s \<and> reqs s2 x \<noteq> None \<and> x \<notin> set (aq @ concat (tbl[i := as @ bs]))"
proof -
  from unlink_removed_spec [OF rel i split] obtain s1 s2
    where s1: "reqsk_queue_unlink x (link_after i as) s = Some s1"
      and s2: "reqsk_queue_removed x s1 = Some (int (length (concat tbl)) - 1, s2)"
        "rq_rel K s2 aq (tbl[i := as @ bs])" "reqs s2 x \<noteq> None" "content s2 = content s"
        "x \<notin> set (aq @ concat (tbl[i := as @ bs]))" by blast
  define s3 where "s3 = (if int (length (concat tbl)) - 1 = 0 then inet_csk_delete_keepalive_timer s2 else s2)"
  have s3: "reqs s3 = reqs s2" "rq_rel K s3 aq (tbl[i := as @ bs])"
    using s2(2) by (simp_all add: s3_def inet_csk_delete_keepalive_timer_def rq_rel_def acceptq_rel_def)
  have "content s3 = content s" unfolding s2(4) [symmetric] by (rule ext) (simp add: content_def s3(1))
  moreover have "inet_csk_reqsk_queue_removed x s1 = Some s3"
    by (simp add: inet_csk_reqsk_queue_removed_def s2(1) s3_def)
  ultimately show ?thesis using s1 s3 s2(3,5) by metis
qed

lemma csk_drop_spec:
  assumes "rq_rel K s aq tbl" "i < length tbl" "tbl ! i = as @ x # bs"
  shows "\<exists>s'. inet_csk_reqsk_queue_drop x (link_after i as) s = Some s' \<and>
           rq_rel K s' aq (tbl[i := as @ bs]) \<and> reqs s' x = None"
proof -
  from csk_unlink_spec [OF assms] obtain s1 s2
    where s: "reqsk_queue_unlink x (link_after i as) s = Some s1" "inet_csk_reqsk_queue_removed x s1 = Some s2"
      "rq_rel K s2 aq (tbl[i := as @ bs])" "reqs s2 x \<noteq> None" "x \<notin> set (aq @ concat (tbl[i := as @ bs]))"
    by blast
  note free = rq_rel_free [OF s(3,5,4)]
  show ?thesis
    by (rule exI [of _ "s2\<lparr>reqs := (reqs s2)(x := None)\<rparr>"])
      (simp add: inet_csk_reqsk_queue_drop_def s(1,2) free)
qed

lemma csk_move_spec:
  assumes rel: "rq_rel K s aq tbl" and i: "i < length tbl" and split: "tbl ! i = as @ x # bs" and x: "x \<noteq> NULL"
  shows "\<exists>s1 s2 s3. reqsk_queue_unlink x (link_after i as) s = Some s1 \<and>
           inet_csk_reqsk_queue_removed x s1 = Some s2 \<and> reqsk_queue_add x child s2 = Some s3 \<and>
           rq_rel K s3 (aq @ [x]) (tbl[i := as @ bs]) \<and> map_option req_sk (reqs s3 x) = Some child"
proof -
  from csk_unlink_spec [OF rel i split] obtain s1 s2
    where s: "reqsk_queue_unlink x (link_after i as) s = Some s1" "inet_csk_reqsk_queue_removed x s1 = Some s2"
      "rq_rel K s2 aq (tbl[i := as @ bs])" "reqs s2 x \<noteq> None" "x \<notin> set (aq @ concat (tbl[i := as @ bs]))"
    by blast
  from s(4) obtain r where r: "reqs s2 x = Some r" by blast
  from reqsk_queue_add_spec [OF s(3,5) x r, of child] obtain s3
    where s3: "reqsk_queue_add x child s2 = Some s3" "rq_rel K s3 (aq @ [x]) (tbl[i := as @ bs])"
      "content s3 x = Some (r\<lparr>req_sk := child, dl_next := NULL\<rparr>)" by blast
  from s3(3) have "map_option req_sk (reqs s3 x) = Some child"
    by (auto simp: content_def dest: arg_cong [where f = req_sk])
  with s(1,2) s3(1,2) show ?thesis by blast
qed

section \<open>The outcome of a segment\<close>

text \<open>
  The request queue after \<open>tcp_check_req\<close>: untouched apart from fields of the request, without the
  request, or with the request at the end of the accept queue.
\<close>

definition req_dropped :: "kenv \<Rightarrow> ptr list \<Rightarrow> ptr list list \<Rightarrow> ptr \<Rightarrow> listener \<Rightarrow> bool" where
  "req_dropped K aq tbl x s' \<longleftrightarrow>
     rq_rel K s' aq tbl \<or> (reqs s' x = None \<and> (\<exists>tbl'. rq_rel K s' aq tbl' \<and> taken_out tbl x tbl'))"

definition req_moved :: "kenv \<Rightarrow> ptr list \<Rightarrow> ptr list list \<Rightarrow> ptr \<Rightarrow> ptr \<Rightarrow> listener \<Rightarrow> bool" where
  "req_moved K aq tbl x child s' \<longleftrightarrow>
     child \<noteq> NULL \<and> map_option req_sk (reqs s' x) = Some child \<and>
     (\<exists>tbl'. rq_rel K s' (aq @ [x]) tbl' \<and> taken_out tbl x tbl')"

lemma embryonic_reset_spec:
  assumes "rq_rel K s aq tbl" "i < length tbl" "tbl ! i = as @ x # bs"
  shows "\<exists>acts s'. embryonic_reset rst x (link_after i as) s = Some (Dropped, acts, s') \<and>
           req_dropped K aq tbl x s' \<and> reqs s' x = None \<and> acts = (if rst then [] else [Send_reset])"
proof -
  from csk_drop_spec [OF assms] obtain s' where s': "inet_csk_reqsk_queue_drop x (link_after i as) s = Some s'"
    "rq_rel K s' aq (tbl[i := as @ bs])" "reqs s' x = None" by blast
  with taken_outI [OF assms] have "req_dropped K aq tbl x s'" unfolding req_dropped_def by blast
  with s' show ?thesis by (simp add: embryonic_reset_def)
qed

lemma check_req_open_spec:
  assumes rel: "rq_rel K s aq tbl" and i: "i < length tbl" and split: "tbl ! i = as @ x # bs"
    and r: "reqs s x = Some r" and x: "x \<noteq> NULL"
  shows "\<exists>res acts s'. check_req_open M f x (link_after i as) s = Some (res, acts, s') \<and>
           (case res of Dropped \<Rightarrow> f x s = NULL \<and> req_dropped K aq tbl x s' | Parent \<Rightarrow> False
            | Child c \<Rightarrow> c = f x s \<and> req_moved K aq tbl x c s')"
proof (cases "f x s = NULL")
  case null: True
  show ?thesis
  proof (cases "sysctl_tcp_abort_on_overflow M")
    case True
    with embryonic_reset_spec [OF rel i split, of False] null show ?thesis
      by (fastforce simp: check_req_open_def)
  next
    case False
    have "x \<in> set (tbl ! i)" by (simp add: split)
    from upd_req_spec [OF rel i this r, of "\<lambda>r. r\<lparr>acked := True\<rparr>"] obtain s'
      where "upd_req x (\<lambda>r. r\<lparr>acked := True\<rparr>) s = Some s'" "rq_rel K s' aq tbl" by auto
    with False null show ?thesis by (simp add: check_req_open_def req_dropped_def)
  qed
next
  case False
  from csk_move_spec [OF rel i split x, of "f x s"] obtain s1 s2 s3
    where s: "reqsk_queue_unlink x (link_after i as) s = Some s1" "inet_csk_reqsk_queue_removed x s1 = Some s2"
      "reqsk_queue_add x (f x s) s2 = Some s3" "rq_rel K s3 (aq @ [x]) (tbl[i := as @ bs])"
      "map_option req_sk (reqs s3 x) = Some (f x s)" by blast
  have "req_moved K aq tbl x (f x s) s3"
    unfolding req_moved_def using s(4,5) False taken_outI [OF rel i split] by blast
  with s(1-3) False show ?thesis by (simp add: check_req_open_def)
qed

text \<open>The segment is the third one of the hand shake.\<close>

definition hand_shake_ack :: "menv \<Rightarrow> tcp_request_sock \<Rightarrow> segment \<Rightarrow> bool" where
  "hand_shake_ack M r sg \<longleftrightarrow>
     sg_ack sg \<and> sg_ack_seq sg = snt_isn r + 1 + tcp_s_data_size M \<and> \<not> sg_rst sg \<and>
     (sg_syn sg \<longrightarrow> sg_seq sg = rcv_isn r) \<and>
     tcp_in_window (tcp M) (sg_seq sg) (sg_end_seq sg) (rcv_isn r + 1) (rcv_isn r + 1 + req_rcv_wnd r)"

definition req_outcome ::
    "menv \<Rightarrow> (ptr \<Rightarrow> listener \<Rightarrow> ptr) \<Rightarrow> kenv \<Rightarrow> ptr list \<Rightarrow> ptr list list \<Rightarrow> ptr \<Rightarrow> tcp_request_sock \<Rightarrow> segment \<Rightarrow> listener \<Rightarrow>
     check_result \<times> reply list \<times> listener \<Rightarrow> bool" where
  "req_outcome M f K aq tbl x r sg s = (\<lambda>(res, acts, s').
     case res of
       Dropped \<Rightarrow> req_dropped K aq tbl x s'
     | Parent \<Rightarrow> s' = s \<and> acts = [] \<and> sg_ack sg \<and> sg_ack_seq sg \<noteq> snt_isn r + 1 + tcp_s_data_size M
     | Child c \<Rightarrow> req_moved K aq tbl x c s' \<and> (\<exists>s1. c = f x s1) \<and> hand_shake_ack M r sg)"

text \<open>The last part of the function, from the update of the round trip sample on.\<close>

lemma check_req_tail:
  assumes rel: "rq_rel K s aq tbl" and i: "i < length tbl" and split: "tbl ! i = as @ x # bs"
    and r: "reqs s x = Some r" and x: "x \<noteq> NULL" and ack: "hand_shake_ack M r0 sg"
  shows "\<exists>out. do { s2 \<leftarrow> (if b1 then upd_req x (\<lambda>r. r\<lparr>snt_synack := v\<rparr>) s
                else if b2 then upd_req x (\<lambda>r. r\<lparr>snt_synack := 0\<rparr>) s else Some s);
           check_req_open M f x (link_after i as) s2 } = Some out \<and> req_outcome M f K aq tbl x r0 sg s0 out \<and>
         ((\<forall>s. f x s \<noteq> NULL) \<longrightarrow> (\<exists>c. fst out = Child c))"
proof -
  have x_in: "x \<in> set (tbl ! i)" by (simp add: split)
  have "\<exists>s2 r2. (if b1 then upd_req x (\<lambda>r. r\<lparr>snt_synack := v\<rparr>) s
                else if b2 then upd_req x (\<lambda>r. r\<lparr>snt_synack := 0\<rparr>) s else Some s) = Some s2 \<and>
          rq_rel K s2 aq tbl \<and> reqs s2 x = Some r2"
    using upd_req_spec [OF rel i x_in r, of "\<lambda>r. r\<lparr>snt_synack := v\<rparr>"]
      upd_req_spec [OF rel i x_in r, of "\<lambda>r. r\<lparr>snt_synack := 0\<rparr>"] rel r by auto
  then obtain s2 r2 where s2: "(if b1 then upd_req x (\<lambda>r. r\<lparr>snt_synack := v\<rparr>) s
                else if b2 then upd_req x (\<lambda>r. r\<lparr>snt_synack := 0\<rparr>) s else Some s) = Some s2"
    "rq_rel K s2 aq tbl" "reqs s2 x = Some r2" by blast
  from check_req_open_spec [OF s2(2) i split s2(3) x, of M f] obtain res acts s'
    where o: "check_req_open M f x (link_after i as) s2 = Some (res, acts, s')"
      "case res of Dropped \<Rightarrow> f x s2 = NULL \<and> req_dropped K aq tbl x s' | Parent \<Rightarrow> False
       | Child c \<Rightarrow> c = f x s2 \<and> req_moved K aq tbl x c s'" by blast
  have "req_outcome M f K aq tbl x r0 sg s0 (res, acts, s')"
    using o(2) ack by (cases res) (auto simp: req_outcome_def)
  moreover have "\<exists>c. res = Child c" if "\<forall>s. f x s \<noteq> NULL"
    using o(2) that by (cases res) simp_all
  ultimately show ?thesis unfolding s2(1) by (simp add: o(1))
qed

lemma check_req_spec:
  assumes rel: "rq_rel K s aq tbl" and i: "i < length tbl" and split: "tbl ! i = as @ x # bs"
    and r: "reqs s x = Some r" and x: "x \<noteq> NULL" and opt: "check_req_options M r sg = Some (tmp, paws)"
  shows "\<exists>out. tcp_check_req M f sg x (link_after i as) s = Some out \<and> req_outcome M f K aq tbl x r sg s out \<and>
           (hand_shake_ack M r sg \<and> \<not> paws \<and> (\<forall>s. f x s \<noteq> NULL) \<and>
            \<not> (req_retrans r < rskq_defer_accept s \<and> sg_end_seq sg = rcv_isn r + 1) \<longrightarrow> (\<exists>c. fst out = Child c))"
    (is "\<exists>out. ?run = Some out \<and> _ \<and> (?good \<longrightarrow> _)")
proof -
  have x_in: "x \<in> set (tbl ! i)" by (simp add: split)
  define win where "win \<longleftrightarrow> tcp_in_window (tcp M) (sg_seq sg) (sg_end_seq sg) (rcv_isn r + 1) (rcv_isn r + 1 + req_rcv_wnd r)"
  have kept: "req_outcome M f K aq tbl x r sg s (Dropped, acts, s')" if "rq_rel K s' aq tbl" for s' acts
    using that by (simp add: req_outcome_def req_dropped_def)
  have reset: "\<exists>out. embryonic_reset b x (link_after i as) s' = Some out \<and> req_outcome M f K aq tbl x r sg s out"
    if "rq_rel K s' aq tbl" for b s'
    using embryonic_reset_spec [OF that i split, of b] by (fastforce simp: req_outcome_def)
  let ?ts = "saw_tstamp tmp \<and> \<not> after (tcp M) (sg_seq sg) (rcv_isn r + 1)"
  have "\<exists>s1 r1. (if ?ts then upd_req x (\<lambda>r. r\<lparr>req_ts_recent := rcv_tsval tmp\<rparr>) s else Some s) = Some s1 \<and>
          rq_rel K s1 aq tbl \<and> reqs s1 x = Some r1 \<and> rskq_defer_accept s1 = rskq_defer_accept s"
    using upd_req_spec [OF rel i x_in r, of "\<lambda>r. r\<lparr>req_ts_recent := rcv_tsval tmp\<rparr>"] rel r
    by (auto simp: upd_req_def)
  then obtain s1 r1 where s1: "(if ?ts then upd_req x (\<lambda>r. r\<lparr>req_ts_recent := rcv_tsval tmp\<rparr>) s else Some s) = Some s1"
    "rq_rel K s1 aq tbl" "reqs s1 x = Some r1" "rskq_defer_accept s1 = rskq_defer_accept s" by blast
  from upd_req_spec [OF s1(2) i x_in s1(3), of "\<lambda>r. r\<lparr>acked := True\<rparr>"] obtain s2
    where s2: "upd_req x (\<lambda>r. r\<lparr>acked := True\<rparr>) s1 = Some s2" "rq_rel K s2 aq tbl" by auto
  note run = tcp_check_req_def r opt s1(1) [simplified] s1(4)
  consider (syn) "sg_seq sg = rcv_isn r \<and> (sg_syn sg \<and> \<not> sg_rst sg \<and> \<not> sg_ack sg) \<and> \<not> paws"
    | (bad) "sg_ack sg" "sg_ack_seq sg \<noteq> snt_isn r + 1 + tcp_s_data_size M"
    | (out) "\<not> (sg_seq sg = rcv_isn r \<and> (sg_syn sg \<and> \<not> sg_rst sg \<and> \<not> sg_ack sg) \<and> \<not> paws)"
        "\<not> (sg_ack sg \<and> sg_ack_seq sg \<noteq> snt_isn r + 1 + tcp_s_data_size M)" "paws \<or> \<not> win"
    | (inw) "\<not> (sg_seq sg = rcv_isn r \<and> (sg_syn sg \<and> \<not> sg_rst sg \<and> \<not> sg_ack sg) \<and> \<not> paws)"
        "\<not> (sg_ack sg \<and> sg_ack_seq sg \<noteq> snt_isn r + 1 + tcp_s_data_size M)" "\<not> paws" "win"
    by blast
  then show ?thesis
  proof cases
    case syn
    then have "?run = Some (Dropped, [Rtx_syn_ack x], s)" by (simp add: run)
    with kept [OF rel] syn show ?thesis by (auto simp: hand_shake_ack_def)
  next
    case bad
    then have "?run = Some (Parent, [], s)" by (simp add: run)
    with bad show ?thesis by (auto simp: req_outcome_def hand_shake_ack_def)
  next
    case out
    then have "?run = Some (Dropped, if sg_rst sg then [] else [Send_ack x], s)"
      unfolding tcp_check_req_def by (simp add: r opt win_def if_not_P)
    with kept [OF rel] out show ?thesis by (auto simp: hand_shake_ack_def win_def)
  next
    case inw
    define go where "go = do {
         s2 \<leftarrow> (if saw_tstamp tmp \<and> rcv_tsecr tmp \<noteq> 0
                then upd_req x (\<lambda>r. r\<lparr>snt_synack := rcv_tsecr tmp\<rparr>) s1
                else if req_retrans r \<noteq> 0 then upd_req x (\<lambda>r. r\<lparr>snt_synack := 0\<rparr>) s1
                else Some s1);
         check_req_open M f x (link_after i as) s2 }"
    have run: "?run = (
       if sg_rst sg \<or> (sg_syn sg \<and> sg_seq sg \<noteq> rcv_isn r) then embryonic_reset (sg_rst sg) x (link_after i as) s1
       else if \<not> sg_ack sg then Some (Dropped, [], s1)
       else if req_retrans r < rskq_defer_accept s1 \<and> sg_end_seq sg = rcv_isn r + 1
       then do { s2 \<leftarrow> upd_req x (\<lambda>r. r\<lparr>acked := True\<rparr>) s1; Some (Dropped, [], s2) } else go)"
      unfolding tcp_check_req_def go_def using inw by (simp add: r opt win_def if_not_P s1(1))
    show ?thesis
    proof (cases "sg_rst sg \<or> (sg_syn sg \<and> sg_seq sg \<noteq> rcv_isn r) \<or> \<not> sg_ack sg \<or>
        (req_retrans r < rskq_defer_accept s1 \<and> sg_end_seq sg = rcv_isn r + 1)")
      case True
      with reset [OF s1(2), of "sg_rst sg"] kept [OF s1(2), of "[]"] kept [OF s2(2), of "[]"]
      have "\<exists>out. ?run = Some out \<and> req_outcome M f K aq tbl x r sg s out"
        unfolding run s2(1) by (auto split: if_split)
      with True show ?thesis by (auto simp: hand_shake_ack_def s1(4))
    next
      case False
      then have ack: "hand_shake_ack M r sg" using inw unfolding hand_shake_ack_def win_def by blast
      from False have "?run = go" unfolding run by (simp add: if_not_P)
      with check_req_tail [OF s1(2) i split s1(3) x ack, where ?s0.0 = s, folded go_def] show ?thesis
        unfolding go_def by metis
    qed
  qed
qed

section \<open>Options of a segment\<close>

text \<open>One byte behind the options can be read (the parser looks at it).\<close>

definition readable :: "menv \<Rightarrow> segment \<Rightarrow> bool" where
  "readable M sg \<longleftrightarrow> option_law (tcp M) \<and> uint (sg_doff sg) * 4 - 20 < int (length (sg_opts sg))"

lemma parse_tmp_total: "readable M sg \<Longrightarrow> \<exists>rx. parse_tmp M sg = Some rx"
proof -
  assume "readable M sg"
  then have "\<exists>st'. parse_loop (tcp M) (sg_syn sg) False (sg_opts sg) 0 (uint (sg_doff sg) * 4 - 20) st = Some st'" for st
    using parse_loop_total [of "tcp M" 0 "uint (sg_doff sg) * 4 - 20" "sg_opts sg"] by (simp add: readable_def)
  then show ?thesis by (auto simp: parse_tmp_def tcp_parse_options_def)
qed

lemma check_req_options_total: "readable M sg \<Longrightarrow> \<exists>tmp paws. check_req_options M r sg = Some (tmp, paws)"
  using parse_tmp_total [of M sg] by (auto simp: check_req_options_def Let_def)

section \<open>Time-wait sockets\<close>

text \<open>
  The calls a segment leads to: the reference of the time-wait socket is given up exactly when the
  caller gets no use of it, and its timer is stopped only then and not started again.
\<close>

definition tw_calls_ok :: "tcp_tw_status \<Rightarrow> tw_act list \<Rightarrow> bool" where
  "tw_calls_ok st cs \<longleftrightarrow>
     count_list cs Tw_put = (if st = TCP_TW_SUCCESS \<or> st = TCP_TW_RST then 1 else 0) \<and>
     (Tw_deschedule \<in> set cs \<longrightarrow> cs = [Tw_deschedule, Tw_put])"

lemma tw_call_simps [simp]:
  "tw_calls (tw_call c s) = tw_calls s @ [c]" "tw_sk (tw_call c s) = tw_sk s" "tw_peer (tw_call c s) = tw_peer s"
  by (simp_all add: tw_call_def)

lemma remember_stamp_calls:
  "tcp_tw_remember_stamp M s = (ok, s') \<Longrightarrow>
     tw_calls s' = tw_calls s @ (if ok then [Peer_put] else []) \<and> tw_sk s' = tw_sk s"
  by (auto simp: tcp_tw_remember_stamp_def split: option.splits)

definition tw_result_ok :: "tw_state \<Rightarrow> tcp_tw_status \<times> u32 option \<times> tw_state \<Rightarrow> bool" where
  "tw_result_ok s = (\<lambda>(st, isn, s').
     (\<exists>cs. tw_calls s' = tw_calls s @ cs \<and> tw_calls_ok st cs) \<and> (isn \<noteq> None \<longleftrightarrow> st = TCP_TW_SYN))"

lemma fin_wait2_calls: "tw_result_ok s (tw_fin_wait2 M sg tmp_opt paws s)"
  by (auto simp: tw_fin_wait2_def tw_kill_def tw_kill_with_rst_def tw_reschedule_def tw_result_ok_def
      tw_calls_ok_def Let_def dest!: remember_stamp_calls split: prod.splits if_splits)

lemma time_wait_calls: "tw_result_ok s (tw_time_wait M sg tmp_opt paws s)"
  by (auto simp: tw_time_wait_def tw_kill_def tw_reschedule_def tw_result_ok_def tw_calls_ok_def Let_def)

text \<open>What the segment and the paws test decide, and the parsed options.\<close>

lemma timewait_process_cases:
  assumes "readable M sg"
  obtains tmp_opt paws where "tcp_timewait_state_process M sg s =
      Some (if tw_substate (tw_sk s) = TCP_FIN_WAIT2 then tw_fin_wait2 M sg tmp_opt paws s
            else tw_time_wait M sg tmp_opt paws s)"
    "paws \<longleftrightarrow> saw_tstamp tmp_opt \<and> tcp_paws_reject (tcp M) (tmp_opt\<lparr>ts_recent := tw_ts_recent (tw_sk s),
         ts_recent_stamp := tw_ts_recent_stamp (tw_sk s)\<rparr>) (sg_rst sg)"
    "saw_tstamp tmp_opt \<longrightarrow> 5 < sg_doff sg \<and> parse_tmp M sg = Some tmp_opt"
proof -
  define opt where "opt = (if 5 < sg_doff sg \<and> tw_ts_recent_stamp (tw_sk s) \<noteq> 0 then parse_tmp M sg
        else Some ((stack M)\<lparr>saw_tstamp := False\<rparr>))"
  have "opt \<noteq> None" using parse_tmp_total [OF assms] by (auto simp: opt_def)
  then obtain tmp where tmp: "opt = Some tmp" by blast
  then have "saw_tstamp tmp \<longrightarrow> 5 < sg_doff sg \<and> parse_tmp M sg = Some tmp" by (auto simp: opt_def split: if_splits)
  then show ?thesis
    using that [where tmp_opt = tmp] tmp [unfolded opt_def]
    unfolding tcp_timewait_state_process_def Let_def by simp
qed

lemma time_wait_new:
  assumes "tw_count sk < sysctl_max_tw_buckets sk" "inet_twsk_alloc sk state = Some tw"
  shows "\<exists>tw1. new_tw (tcp_time_wait M sk state timeo) = Some tw1 \<and> tw_substate tw1 = tw_substate tw \<and>
     tw_rcv_nxt tw1 = cl_rcv_nxt sk \<and> tw_snd_nxt tw1 = cl_snd_nxt sk \<and>
     last (tw_acts (tcp_time_wait M sk state timeo)) = Tcp_done"
proof -
  obtain ok peer acts where "(if sysctl_tw_recycle M \<and> ts_recent_stamp (cl_rx_opt sk) \<noteq> 0 then tcp_remember_stamp M sk
      else (False, cl_peer sk, [])) = (ok, peer, acts)" by (rule prod_cases3)
  with assms show ?thesis by (cases ok) (simp_all add: tcp_time_wait_def Let_def)
qed

section \<open>The child of a request\<close>

text \<open>
  The functions of \<^verbatim>\<open>net/tcp.h\<close> and \<^verbatim>\<open>tcp_timer.c\<close> that are called on the child write fields of
  it that are not part of the record; enabling forward acknowledgements only changes \<open>sack_ok\<close>.
\<close>

definition child_law :: "cenv \<Rightarrow> bool" where
  "child_law C \<longleftrightarrow> (\<forall>c q. tcp_prequeue_init C c = c \<and> tcp_init_wl C q c = c \<and> tcp_set_ca_open C c = c \<and>
     tcp_init_xmit_timers C c = c)"

definition fack_law :: "menv \<Rightarrow> bool" where
  "fack_law M \<longleftrightarrow> (\<forall>rx. \<exists>k. tcp_enable_fack M rx = rx\<lparr>sack_ok := k\<rparr>)"

text \<open>A connection on which nothing but the two SYNs has been exchanged.\<close>

definition fresh :: "menv \<Rightarrow> tcp_request_sock \<Rightarrow> tcp_child \<Rightarrow> bool" where
  "fresh M req c \<longleftrightarrow>
     c_state c = TCP_SYN_RECV \<and> c_bind_hash c = NULL \<and> c_sport c = loc_port req \<and> c_dport c = rmt_port req \<and>
     c_rcv_nxt c = rcv_isn req + 1 \<and> c_copied_seq c = c_rcv_nxt c \<and> c_rcv_wup c = c_rcv_nxt c \<and>
     c_snd_una c = snt_isn req + 1 + tcp_s_data_size M \<and> c_snd_nxt c = c_snd_una c \<and> c_write_seq c = c_snd_una c \<and>
     c_packets_out c = 0 \<and> c_retrans_out c = 0 \<and> c_sacked_out c = 0 \<and> c_out_of_order_queue c = [] \<and>
     num_sacks (c_rx_opt c) = 0 \<and> \<not> dsack (c_rx_opt c) \<and> c_rcv_wnd c = req_rcv_wnd req"

text \<open>The options the two ends agreed on.\<close>

definition agreed :: "menv \<Rightarrow> tcp_request_sock \<Rightarrow> segment \<Rightarrow> tcp_child \<Rightarrow> bool" where
  "agreed M req sg c \<longleftrightarrow>
     tstamp_ok (c_rx_opt c) = ireq_tstamp_ok req \<and> wscale_ok (c_rx_opt c) = ireq_wscale_ok req \<and>
     mss_clamp (c_rx_opt c) = req_mss req \<and>
     (if ireq_wscale_ok req then c_window_clamp c = req_window_clamp req
      else c_window_clamp c = min (req_window_clamp req) 65535 \<and> c_snd_wnd c = ucast (sg_window sg)) \<and>
     (if ireq_tstamp_ok req then ts_recent (c_rx_opt c) = req_ts_recent req \<and> c_tcp_header_len c = 32
      else ts_recent_stamp (c_rx_opt c) = 0 \<and> c_tcp_header_len c = 20)"

lemma child_seqs_fresh:
  assumes "child_law C" "c_state c = TCP_SYN_RECV" "c_bind_hash c = NULL" "c_sport c = loc_port req" "c_dport c = rmt_port req"
  shows "fresh M req ((child_seqs M C req c)\<lparr>c_rcv_wnd := req_rcv_wnd req\<rparr>)"
  using assms by (simp add: child_law_def fresh_def child_seqs_def Let_def)

lemma child_options_fresh:
  assumes "fack_law M" "fresh M req (c\<lparr>c_rcv_wnd := req_rcv_wnd req\<rparr>)"
  shows "fresh M req (child_options M C req sg c)"
proof -
  obtain k where "\<forall>rx. tcp_enable_fack M rx = rx\<lparr>sack_ok := k rx\<rparr>"
    using assms(1) unfolding fack_law_def by metis
  with assms(2) show ?thesis
    by (simp add: fresh_def child_options_def TCP_ECN_openreq_child_def Let_def)
qed

lemma child_options_agreed:
  assumes "fack_law M" "option_law (tcp M)"
  shows "agreed M req sg (child_options M C req sg c)"
proof -
  obtain k where "\<forall>rx. tcp_enable_fack M rx = rx\<lparr>sack_ok := k rx\<rparr>"
    using assms(1) unfolding fack_law_def by metis
  moreover have "TCPOLEN_TSTAMP_ALIGNED (tcp M) = 12" using assms(2) by (simp add: option_law_def)
  ultimately show ?thesis
    by (simp add: agreed_def child_options_def TCP_ECN_openreq_child_def Let_def)
qed

end
