(* ===== verification/Tcp_Minisocks_Props.thy ===== *)
theory Tcp_Minisocks_Props
  imports Tcp_Minisocks_Correct Request_Queue_Props Tcp_Options_Props
begin

text \<open>
  The properties of the hand shake and of time-wait sockets, each applied to a concrete
  environment, request and time-wait socket.
\<close>

section \<open>A concrete environment\<close>

definition M0 :: menv where
  "M0 = \<lparr>tcp = T0, stack = rx0, TCP_TIMEWAIT_LEN = 60000, TCP_PAWS_MSL = 60, TCP_TIMEOUT_INIT = 3000, HZ = 1000,
     TCP_INIT_CWND = 10, TCP_INFINITE_SSTHRESH = 0x7fffffff, TCP_ECN_OK = 1,
     tcp_receive_window = (\<lambda>wup wnd nxt. wup + wnd - nxt), tcp_s_data_size = 0,
     tcp_enable_fack = (\<lambda>rx. rx\<lparr>sack_ok := sack_ok rx OR 2\<rparr>), sysctl_tw_recycle = False,
     sysctl_tcp_rfc1337 = True, sysctl_tcp_abort_on_overflow = False, sysctl_tcp_fack = True\<rparr>"

lemma M0_simps [simp]: "tcp M0 = T0" "tcp_s_data_size M0 = 0" "TCP_TIMEWAIT_LEN M0 = 60000"
  "sysctl_tcp_rfc1337 M0" "\<not> sysctl_tw_recycle M0" "stack M0 = rx0"
  by (simp_all add: M0_def)

text \<open>A segment without options, one byte of data behind the header.\<close>

definition sg0 :: segment where
  "sg0 = \<lparr>sg_seq = 101, sg_end_seq = 101, sg_ack_seq = 501, sg_fin = False, sg_syn = False, sg_rst = False,
     sg_ack = True, sg_doff = 5, sg_opts = [0], sg_window = 1000, sg_len = 20\<rparr>"

lemma sg0_readable: "sg_doff sg = 5 \<Longrightarrow> sg_opts sg = [0] \<Longrightarrow> readable M0 sg"
  by (simp add: readable_def T0_laws)

definition tw0 :: tw_state where
  "tw0 = \<lparr>tw_sk = \<lparr>tw_substate = TCP_TIME_WAIT, tw_timeout = 60000, tw_transparent = False, tw_rcv_wscale = 0,
       tw_rcv_nxt = 101, tw_snd_nxt = 500, tw_rcv_wnd = 1000, tw_ts_recent = 0, tw_ts_recent_stamp = 0\<rparr>,
     tw_peer = None, tw_calls = []\<rparr>"

section \<open>The hand shake\<close>

text \<open>C23.
  For the request and the place a lookup returned, \<open>tcp_check_req\<close> never faults and keeps the request
  queue well formed. A child comes back only for the third segment of the hand shake (it
  acknowledges exactly the SYN-ACK, is in the window and carries no RST), and then the
  request has left the table and is the last one of the accept queue, with the child in it. A
  segment that acknowledges anything else goes to the listening socket, with nothing changed;
  in every other case the request stays where it is or is freed. And the third segment
  does give a child when no deferral is pending, its timestamp is acceptable and a socket can be made.
\<close>

theorem check_req_hand_shake:
  assumes "rq_rel K s aq tbl" "inet_csk_search_req K rport raddr laddr s = Some (Some (x, L))"
    and "reqs s x = Some r" "readable M sg"
  shows "\<exists>out tmp paws. tcp_check_req M syn_recv_sock sg x L s = Some out \<and> req_outcome M syn_recv_sock K aq tbl x r sg s out \<and>
     check_req_options M r sg = Some (tmp, paws) \<and>
     (hand_shake_ack M r sg \<and> \<not> paws \<and> (\<forall>s. syn_recv_sock x s \<noteq> NULL) \<and>
      \<not> (req_retrans r < rskq_defer_accept s \<and> sg_end_seq sg = rcv_isn r + 1) \<longrightarrow> (\<exists>c. fst out = Child c))"
proof -
  obtain i as bs where i: "i < length tbl" "tbl ! i = as @ x # bs" and L: "L = link_after i as"
    using search_place [OF assms(1,2)] .
  obtain tmp paws where opt: "check_req_options M r sg = Some (tmp, paws)"
    using check_req_options_total [OF assms(4)] by blast
  have "x \<noteq> NULL"
  proof -
    have "x \<in> set (tbl ! i)" using i by simp
    moreover obtain lopt where "listen_opt s = Some lopt" "i < length (syn_table lopt)"
      "chain (reqs s) (syn_table lopt ! i) (tbl ! i)" "table_rel K lopt (reqs s) tbl"
      using rq_rel_chain [OF assms(1) i(1)] .
    ultimately show ?thesis using chain_mem by blast
  qed
  from check_req_spec [OF assms(1) i assms(3) this opt, of syn_recv_sock] opt show ?thesis
    unfolding L by blast
qed

theorem check_req_hand_shake_witness:
  "\<exists>L s' acts. inet_csk_search_req K0 1024 1 7 lsk2 = Some (Some (1, L)) \<and>
     tcp_check_req M0 (\<lambda>req s. 77) sg0 1 L lsk2 = Some (Child 77, acts, s') \<and>
     (\<exists>tbl'. rq_rel K0 s' [1] tbl' \<and> concat tbl' = [])"
proof -
  obtain L where L: "inet_csk_search_req K0 1024 1 7 lsk2 = Some (Some (1, L))" using lsk2_found by blast
  obtain r where r: "reqs lsk2 1 = Some r" "r\<lparr>dl_next := 0\<rparr> = req0\<lparr>req_expires := 1300\<rparr>"
    using lsk2(3) by (auto simp: content_def)
  have fields: "f r = f (req0\<lparr>req_expires := 1300\<rparr>)" if "\<And>r q. f (r\<lparr>dl_next := q\<rparr>) = f r" for f :: "tcp_request_sock \<Rightarrow> u32"
    using that r(2) by metis
  have isn: "rcv_isn r = 100" "snt_isn r = 500" "req_rcv_wnd r = 5840"
    by (simp_all add: fields req0_def)
  have dfr: "rskq_defer_accept lsk2 = 0" "readable M0 sg0"
    by (simp add: lsk2_def inet_csk_reqsk_queue_hash_add_def reqsk_queue_hash_req_def lsk1_def lsk0_def
        Let_def inet_synq_hash_def upd_req_def inet_csk_reqsk_queue_added_def reqsk_queue_added_def
        inet_csk_reset_keepalive_timer_def req0_def)
      (rule sg0_readable, simp_all add: sg0_def)
  have "hand_shake_ack M0 r sg0" by (simp add: hand_shake_ack_def sg0_def isn tcp_in_window_def)
  moreover have "check_req_options M0 r sg0 = Some (rx0\<lparr>saw_tstamp := False\<rparr>, False)"
    by (simp add: check_req_options_def sg0_def)
  ultimately obtain out c where out: "tcp_check_req M0 (\<lambda>req s. 77) sg0 1 L lsk2 = Some out" "fst out = Child c"
    "req_outcome M0 (\<lambda>req s. 77) K0 [] ((replicate 16 [])[1 := [1]]) 1 r sg0 lsk2 out"
    using check_req_hand_shake [OF lsk2(2) L r(1) dfr(2), of "\<lambda>req s. 77"] dfr(1) by auto
  obtain acts s' where s': "out = (Child c, acts, s')" using out(2) by (cases out) auto
  have set: "set (concat ((replicate 16 [])[1 := [1 :: nat]])) = {1}"
    by (subst concat_split(2)) simp_all
  have "c = 77" "\<exists>tbl'. rq_rel K0 s' [1] tbl' \<and> set (concat tbl') = {}"
    using out(3) unfolding s' req_outcome_def req_moved_def taken_out_def set by auto
  with L out(1) show ?thesis unfolding s' set_empty by blast
qed

section \<open>Time-wait sockets\<close>

text \<open>C24.
  Every segment for a time-wait socket is processed without fault, and the reference the caller
  holds is given up exactly once when the answer is to drop the segment or to reset, and kept
  when the caller is to acknowledge it or to open a new connection. The
  timer of the socket is stopped only together with that and nothing else then happens; an initial
  sequence number is proposed exactly for a new connection.
\<close>

theorem timewait_references:
  assumes "readable M sg"
  shows "\<exists>out. tcp_timewait_state_process M sg s = Some out \<and> tw_result_ok s out"
proof -
  obtain tmp_opt paws where "tcp_timewait_state_process M sg s =
      Some (if tw_substate (tw_sk s) = TCP_FIN_WAIT2 then tw_fin_wait2 M sg tmp_opt paws s
            else tw_time_wait M sg tmp_opt paws s)"
    using timewait_process_cases [OF assms] .
  then show ?thesis using fin_wait2_calls time_wait_calls by auto
qed

theorem timewait_references_witness:
  "\<exists>st isn s'. tcp_timewait_state_process M0 sg0 tw0 = Some (st, isn, s') \<and>
     (\<exists>cs. tw_calls s' = cs \<and> tw_calls_ok st cs)"
proof -
  have "readable M0 sg0" by (rule sg0_readable) (simp_all add: sg0_def)
  from timewait_references [OF this, of tw0] show ?thesis
    by (auto simp: tw_result_ok_def tw0_def)
qed


text \<open>C25.
  The substate and the next expected sequence number of a time-wait socket change in one way only: a
  socket in FIN-WAIT-2 that gets the FIN of the peer, acknowledged and exactly next in
  sequence, goes to TIME-WAIT, counts the FIN and tells the caller to acknowledge. The next
  sequence number to send never changes.
\<close>

theorem timewait_fin:
  assumes "readable M sg"
  shows "\<exists>st isn s'. tcp_timewait_state_process M sg s = Some (st, isn, s') \<and>
     tw_snd_nxt (tw_sk s') = tw_snd_nxt (tw_sk s) \<and>
     ((tw_substate (tw_sk s'), tw_rcv_nxt (tw_sk s')) = (tw_substate (tw_sk s), tw_rcv_nxt (tw_sk s)) \<or>
      tw_substate (tw_sk s) = TCP_FIN_WAIT2 \<and> tw_substate (tw_sk s') = TCP_TIME_WAIT \<and>
      tw_rcv_nxt (tw_sk s') = tw_rcv_nxt (tw_sk s) + 1 \<and> sg_fin sg \<and> sg_ack sg \<and> \<not> sg_rst sg \<and>
      sg_end_seq sg = tw_rcv_nxt (tw_sk s) + 1 \<and> st = TCP_TW_ACK)"
proof -
  obtain tmp_opt paws where run: "tcp_timewait_state_process M sg s =
      Some (if tw_substate (tw_sk s) = TCP_FIN_WAIT2 then tw_fin_wait2 M sg tmp_opt paws s
            else tw_time_wait M sg tmp_opt paws s)"
    using timewait_process_cases [OF assms] .
  show ?thesis
  proof (cases "tw_substate (tw_sk s) = TCP_FIN_WAIT2")
    case True
    then show ?thesis unfolding run
      by (auto simp: tw_fin_wait2_def tw_kill_def tw_kill_with_rst_def tw_reschedule_def Let_def
          dest!: remember_stamp_calls split: prod.splits if_splits)
  next
    case False
    then show ?thesis unfolding run
      by (auto simp: tw_time_wait_def tw_kill_def tw_reschedule_def Let_def)
  qed
qed

theorem timewait_fin_witness:
  "\<exists>st isn s'. tcp_timewait_state_process M0 (sg0\<lparr>sg_fin := True, sg_end_seq := 102\<rparr>) tw0 = Some (st, isn, s') \<and>
     tw_substate (tw_sk s') = TCP_TIME_WAIT \<and> tw_snd_nxt (tw_sk s') = 500"
proof -
  have "readable M0 (sg0\<lparr>sg_fin := True, sg_end_seq := 102\<rparr>)" by (rule sg0_readable) (simp_all add: sg0_def)
  from timewait_fin [OF this, of tw0] show ?thesis by (auto simp: tw0_def)
qed

text \<open>C26.
  The hazards of TIME-WAIT (RFC 1337). A connection is reopened only by a SYN without ACK or RST
  that is newer by its sequence number or by its timestamp, from the real TIME-WAIT
  state and with the socket unchanged; the sequence number proposed is not zero and lies 65537 or
  65538 behind everything the old connection has sent. A reset for a socket in TIME-WAIT stops its
  timer only at the exact sequence number expected, and never when \<open>sysctl_tcp_rfc1337\<close> is set.
\<close>

theorem timewait_hazards:
  assumes "readable M sg"
  shows "\<exists>st isn s'. tcp_timewait_state_process M sg s = Some (st, isn, s') \<and>
     (st = TCP_TW_SYN \<longrightarrow> tw_substate (tw_sk s) \<noteq> TCP_FIN_WAIT2 \<and> s' = s \<and> sg_syn sg \<and> \<not> sg_ack sg \<and> \<not> sg_rst sg \<and>
        (after (tcp M) (sg_seq sg) (tw_rcv_nxt (tw_sk s)) \<or>
         (\<exists>rx. parse_tmp M sg = Some rx \<and> saw_tstamp rx \<and> sint (tw_ts_recent (tw_sk s) - rcv_tsval rx) < 0)) \<and>
        (\<exists>v. isn = Some v \<and> v \<noteq> 0 \<and> off (tw_snd_nxt (tw_sk s)) v \<in> {65537, 65538})) \<and>
     (sg_rst sg \<and> tw_substate (tw_sk s) \<noteq> TCP_FIN_WAIT2 \<and> tw_calls s' = tw_calls s @ [Tw_deschedule, Tw_put] \<longrightarrow>
        \<not> sysctl_tcp_rfc1337 M \<and> sg_seq sg = tw_rcv_nxt (tw_sk s))"
proof -
  obtain tmp_opt paws where run: "tcp_timewait_state_process M sg s =
      Some (if tw_substate (tw_sk s) = TCP_FIN_WAIT2 then tw_fin_wait2 M sg tmp_opt paws s
            else tw_time_wait M sg tmp_opt paws s)" and opt: "saw_tstamp tmp_opt \<longrightarrow> 5 < sg_doff sg \<and> parse_tmp M sg = Some tmp_opt"
    using timewait_process_cases [OF assms, of s] by metis
  show ?thesis
  proof (cases "tw_substate (tw_sk s) = TCP_FIN_WAIT2")
    case True
    then show ?thesis unfolding run
      by (auto simp: tw_fin_wait2_def tw_kill_def tw_kill_with_rst_def Let_def split: prod.splits)
  next
    case False
    have isn: "off q (65537 + q) = 65537" "65537 + q = 0 \<Longrightarrow> off q 1 = 65538" for q :: u32
    proof -
      show "off q (65537 + q) = 65537" by (simp add: off_def)
      assume "65537 + q = 0"
      then have "q = - 65537" by (simp add: eq_neg_iff_add_eq_0 add.commute)
      then show "off q 1 = 65538" by (simp add: off_def)
    qed
    from False show ?thesis unfolding run
      using opt by (auto simp: tw_time_wait_def tw_kill_def tw_reschedule_def Let_def isn)
  qed
qed

theorem timewait_hazards_witness:
  "\<exists>st isn s'. tcp_timewait_state_process M0 (sg0\<lparr>sg_syn := True, sg_ack := False, sg_seq := 5000, sg_end_seq := 5001\<rparr>) tw0
       = Some (st, isn, s') \<and>
     (st = TCP_TW_SYN \<longrightarrow> s' = tw0 \<and> (\<exists>v. isn = Some v \<and> off 500 v \<in> {65537, 65538}))"
proof -
  have "readable M0 (sg0\<lparr>sg_syn := True, sg_ack := False, sg_seq := 5000, sg_end_seq := 5001\<rparr>)"
    by (rule sg0_readable) (simp_all add: sg0_def)
  from timewait_hazards [OF this, of tw0] show ?thesis
    by (auto simp: tw0_def)
qed


definition closing0 :: closing_sock where
  "closing0 = \<lparr>cl_rto = 200, cl_rcv_nxt = 101, cl_snd_nxt = 500, cl_rcv_wup = 101, cl_rcv_wnd = 1000, cl_rx_opt = rx0,
     cl_transparent = False, cl_peer = None, cl_release_it = False, tw_count = 0, sysctl_max_tw_buckets = 10,
     inet_twsk_alloc = (\<lambda>st. Some ((tw_sk tw0)\<lparr>tw_substate := st\<rparr>))\<rparr>"


section \<open>The child socket\<close>


definition child0 :: tcp_child where
  "child0 = \<lparr>
     c_state = TCP_LISTEN, c_bind_hash = 0, c_dport = 0, c_num = 0, c_sport = 0, c_retransmits = 0, c_backoff
     = 0, c_probes_out = 0, c_cookie_desired = None, c_pred_flags = 0, c_rcv_wup = 0, c_copied_seq = 0,
     c_rcv_nxt = 0, c_snd_sml = 0, c_snd_una = 0, c_snd_nxt = 0, c_snd_up = 0, c_srtt = 0, c_mdev = 0, c_rto =
     0, c_packets_out = 0, c_retrans_out = 0, c_sacked_out = 0, c_fackets_out = 0, c_snd_ssthresh = 0,
     c_snd_cwnd = 0, c_snd_cwnd_cnt = 0, c_bytes_acked = 0, c_frto_counter = 0, c_frto_highmark = 0,
     c_out_of_order_queue = [], c_write_seq = 0, c_pushed_seq = 0, c_rx_opt = rx0, c_urg_data = 0, c_keepopen
     = False, c_keepalive = None, c_window_clamp = 0, c_rcv_ssthresh = 0, c_rcv_wnd = 0, c_snd_wnd = 0,
     c_max_window = 0, c_tcp_header_len = 0, c_last_seg_size = 0, c_ecn_flags = 0\<rparr>"

definition C0 :: cenv where
  "C0 = \<lparr>sk_clone = Some child0, ntohs_port = (\<lambda>p. p), kzalloc_cookie = True, tcp_prequeue_init = (\<lambda>c. c),
     tcp_init_wl = (\<lambda>q c. c), tcp_set_ca_open = (\<lambda>c. c), tcp_init_xmit_timers = (\<lambda>c. c), keepalive_time_when = (\<lambda>c. 7200)\<rparr>"


end
