(* ===== verification/Tcp_Sock.thy ===== *)
theory Tcp_Sock
  imports Tcp_Minisocks Tcp_Sack
begin

text \<open>
  The state of a TCP connection as \<^verbatim>\<open>net/ipv4/tcp_input.c\<close> reads and writes it (\<^verbatim>\<open>struct sock\<close>,
  \<^verbatim>\<open>struct inet_connection_sock\<close>, \<^verbatim>\<open>struct tcp_sock\<close>, each the beginning of the next one), received
  buffers, and the parameters of the input path. Queues of buffers (\<^verbatim>\<open>struct sk_buff_head\<close>) are lists.
  Calls of functions of other files that do not change this state (wake-ups, signals) are
  recorded in order in \<open>sk_events\<close>; the others are functions of the parameter record
  \<open>ienv\<close>. Statistics, debug output, locks and memory barriers are left out.
\<close>

section \<open>Received buffers\<close>

text \<open>
  A received segment with its buffer: \<open>sg_bytes\<close> is what lies between \<^verbatim>\<open>skb->data\<close> and the end,
  \<open>sg_pulled\<close> how far \<^verbatim>\<open>data\<close> has moved from the start of the TCP header, \<open>sg_flag_word\<close> the fourth
  word of the header as it is in memory.
\<close>

record skb = segment +
  sg_psh :: bool
  sg_urg :: bool
  sg_ece :: bool
  sg_cwr :: bool
  sg_urg_ptr :: u16
  sg_flag_word :: be32
  sg_truesize :: u32
  sg_gso_size :: u16
  sg_dsfield :: u8
  sg_pulled :: u32
  sg_sacked :: u8
  sg_bytes :: "u8 list"

text \<open>Masks of the fourth word of the header, as they are in memory.\<close>

definition TCP_FLAG_PSH :: be32 where "TCP_FLAG_PSH = 0x00000800"
definition TCP_RESERVED_BITS :: be32 where "TCP_RESERVED_BITS = 0x0000000F"

section \<open>Segments to send, and routes\<close>

text \<open>
  A segment of the write queue with its control block (\<^verbatim>\<open>struct tcp_skb_cb\<close>). The socket holds pointers to
  such segments, so they have an address, \<open>w_addr\<close>.
\<close>

record wskb =
  w_addr :: ptr
  w_seq :: u32
  w_end_seq :: u32
  w_len :: u32
  w_when :: u32
  w_tcp_flags :: u8
  w_sacked :: u8
  w_ack_seq :: u32
  w_gso_segs :: u16
  w_gso_size :: u16
  w_truesize :: u32
  w_tstamp :: int

datatype rtax = RTAX_RTT | RTAX_RTTVAR | RTAX_SSTHRESH | RTAX_CWND | RTAX_REORDERING | RTAX_INITCWND

record dst_entry =
  dst_host :: bool
  dst_metric :: "rtax \<Rightarrow> u32"
  dst_metric_locked :: "rtax \<Rightarrow> bool"

record cookie_values =
  cookie_pair :: "u8 list"
  cookie_pair_size :: u8
  cookie_desired :: u8

section \<open>Sockets\<close>

datatype poll_band = POLL_IN | POLL_OUT | POLL_HUP

datatype event =
    Send_ack_now
  | Send_delayed_ack
  | Send_synack
  | State_change
  | Data_ready
  | Write_space
  | Error_report
  | Wake_async poll_band
  | Sigurg
  | Time_wait time_waited

text \<open>The states of congestion control, in the order of the enumeration.\<close>

datatype tcp_ca_state = TCP_CA_Open | TCP_CA_Disorder | TCP_CA_CWR | TCP_CA_Recovery | TCP_CA_Loss

record icsk_ack =
  ack_pending :: u8
  ack_quick :: u8
  ack_pingpong :: u8
  ack_blocked :: u8
  ack_ato :: u32
  ack_timeout :: u64
  ack_lrcvtime :: u32
  ack_last_seg_size :: u16
  ack_rcv_mss :: u16

record rcv_rtt_est =
  est_rtt :: u32
  est_seq :: u32
  est_time :: u32

record rcvq_space =
  rcvq_bytes :: int
  rcvq_seq :: u32
  rcvq_time :: u32

record sock =
  sk_state :: tcp_state
  sk_shutdown :: u8
  sk_err :: int
  sk_err_soft :: int
  sk_dead :: bool
  sk_done :: bool
  sk_urginline :: bool
  sk_keepopen :: bool
  sk_queue_shrunk :: bool
  sk_socket :: bool
  sk_nospace :: bool
  sk_owned :: bool
  sk_rcvbuf :: int
  sk_sndbuf :: int
  sk_rmem_alloc :: int
  sk_forward_alloc :: int
  sk_rcvbuf_lock :: bool
  sk_sndbuf_lock :: bool
  sk_write_pending :: bool
  sk_wmem_queued :: int
  sk_dst :: "dst_entry option"
  sk_receive_queue :: "skb list"
  sk_write_queue :: "wskb list"
  sk_send_queue :: "wskb list"
  sk_events :: "event list"

record inet_connection_sock = sock +
  icsk_timeout :: u64
  icsk_rto :: u32
  icsk_pmtu_cookie :: u32
  icsk_pending :: u8
  icsk_backoff :: u8
  icsk_probes_out :: u8
  icsk_retransmits :: u8
  icsk_ca_state :: tcp_ca_state
  icsk_defer_accept :: u8
  icsk_ack :: icsk_ack
  icsk_keepalive :: "u64 option"
  mtup_search_high :: int
  mtup_search_low :: int
  mtup_probe_size :: int

text \<open>
  \<open>ucopy_current\<close>: the process that is running waits in \<^verbatim>\<open>tcp_recvmsg\<close> for data of this socket and has
  room for \<open>ucopy_len\<close> more bytes; \<open>ucopy_done\<close> are the bytes copied to it. The queue of
  segments to send is split at \<^verbatim>\<open>sk_send_head\<close>: \<open>sk_write_queue\<close> are the ones sent and not yet acknowledged,
  \<open>sk_send_queue\<close> the ones not sent yet, the first of them being \<^verbatim>\<open>sk_send_head\<close>.
\<close>

record tcp_sock = inet_connection_sock +
  tcp_header_len :: u16
  pred_flags :: be32
  rcv_nxt :: u32
  copied_seq :: u32
  rcv_wup :: u32
  snd_nxt :: u32
  snd_una :: u32
  rcv_tstamp :: u32
  lsndtime :: u32
  ucopy_current :: bool
  ucopy_len :: int
  ucopy_done :: "u8 list"
  snd_wl1 :: u32
  snd_wnd :: u32
  max_window :: u32
  mss_cache :: u32
  window_clamp :: u32
  rcv_ssthresh :: u32
  advmss :: u16
  srtt :: u32
  mdev :: u32
  mdev_max :: u32
  rttvar :: u32
  rtt_seq :: u32
  packets_out :: u32
  sacked_out :: u32
  fackets_out :: u32
  frto_counter :: u8
  frto_highmark :: u32
  bytes_acked :: u32
  urg_data :: u16
  ecn_flags :: u8
  reordering :: u8
  rx_opt :: tcp_options_received
  snd_ssthresh :: u32
  snd_cwnd :: u32
  snd_cwnd_stamp :: u32
  rcv_wnd :: u32
  write_seq :: u32
  out_of_order_queue :: "skb list"
  duplicate_sack :: tcp_sack_block
  selective_acks :: "tcp_sack_block list"
  retrans_stamp :: u32
  urg_seq :: u32
  linger2 :: int
  retrans_out :: u32
  lost_out :: u32
  snd_up :: u32
  thin_dupack :: bool
  snd_cwnd_cnt :: u32
  snd_cwnd_clamp :: u32
  snd_cwnd_used :: u32
  prior_cwnd :: u32
  prr_delivered :: u32
  prr_out :: u32
  lost_skb_hint :: "ptr option"
  scoreboard_skb_hint :: "ptr option"
  retransmit_skb_hint :: "ptr option"
  recv_sack_cache :: "tcp_sack_block list"
  highest_sack :: "ptr option"
  lost_cnt_hint :: int
  retransmit_high :: u32
  lost_retrans_low :: u32
  prior_ssthresh :: u32
  high_seq :: u32
  undo_marker :: u32
  undo_retrans :: int
  total_retrans :: u32
  probe_seq_start :: u32
  probe_seq_end :: u32
  cookie_values :: "cookie_values option"
  rcv_rtt_est :: rcv_rtt_est
  rcvq_space :: rcvq_space

definition sk_event :: "event \<Rightarrow> tcp_sock \<Rightarrow> tcp_sock" where
  "sk_event e s = s\<lparr>sk_events := sk_events s @ [e]\<rparr>"

section \<open>Parameters\<close>

record ienv =
  mv :: menv
  TCP_MIN_MSS :: u32
  TCP_MAX_QUICKACKS :: u32
  TCP_ATO_MIN :: u32
  TCP_DELACK_MAX :: u64
  TCP_RTO_MAX :: u32
  TCP_PAWS_WINDOW :: int
  TCP_ECN_QUEUE_CWR :: u8
  TCP_ECN_DEMAND_CWR :: u8
  TCP_ECN_SEEN :: u8
  INET_ECN_MASK :: u8
  INET_ECN_NOT_ECT :: u8
  INET_ECN_CE :: u8
  TCP_URG_NOTYET :: u16
  TCP_URG_VALID :: u16
  TCP_DEFAULT_INIT_RCVWND :: u32
  MAX_TCP_HEADER :: int
  SKB_TRUESIZE :: "int \<Rightarrow> int"
  sysctl_tcp_rmem_max :: int
  sysctl_tcp_wmem_max :: int
  sysctl_tcp_app_win :: nat
  sysctl_tcp_moderate_rcvbuf :: bool
  sysctl_tcp_stdurg :: bool
  tcp_memory_pressure :: bool
  tcp_memory_low :: bool
  tcp_time_stamp :: u32
  clock :: u64
  SK_MEM_QUANTUM :: int
  tcp_win_from_space :: "int \<Rightarrow> int"
  tcp_space :: "tcp_sock \<Rightarrow> int"
  tcp_full_space :: "tcp_sock \<Rightarrow> int"
  tcp_rto_min :: u32
  tcp_set_rto_value :: "u32 \<Rightarrow> u32 \<Rightarrow> u32"
  tcp_bound_rto :: "u32 \<Rightarrow> u32"
  sk_mem_schedule :: "int \<Rightarrow> tcp_sock \<Rightarrow> bool \<times> int"
  sk_mem_reclaimed :: "int \<Rightarrow> int"
  sock_rfree :: "skb \<Rightarrow> tcp_sock \<Rightarrow> tcp_sock"
  skb_pull :: "u32 \<Rightarrow> skb \<Rightarrow> skb"
  skb_copy_bits :: "skb \<Rightarrow> int \<Rightarrow> int \<Rightarrow> u8 list option"
  skb_copy_datagram_iovec :: "skb \<Rightarrow> int \<Rightarrow> int \<Rightarrow> u8 list option"
  skb_headroom :: "skb \<Rightarrow> int"
  SKB_MAX_ORDER :: "int \<Rightarrow> int"
  alloc_skb :: "int \<Rightarrow> u32 option"
  tcp_select_window :: "tcp_sock \<Rightarrow> u32"
  tcp_wnd_end :: "tcp_sock \<Rightarrow> u32"
  tcp_is_sack :: "tcp_options_received \<Rightarrow> bool"
  tcp_fast_path_check :: "tcp_sock \<Rightarrow> tcp_sock"
  tcp_fast_path_on :: "tcp_sock \<Rightarrow> tcp_sock"
  tcp_set_state :: "tcp_state \<Rightarrow> tcp_sock \<Rightarrow> tcp_sock"
  tcp_done :: "tcp_sock \<Rightarrow> tcp_sock"
  tcp_send_ack :: "tcp_sock \<Rightarrow> tcp_sock"
  tcp_send_delayed_ack :: "tcp_sock \<Rightarrow> tcp_sock"
  tw_template :: closing_sock

abbreviation tv :: "ienv \<Rightarrow> tenv" where
  "tv I \<equiv> tcp (mv I)"

section \<open>Delayed acknowledgements and timers (inet\_connection\_sock.h)\<close>

definition ICSK_ACK_SCHED :: u8 where "ICSK_ACK_SCHED = 1"
definition ICSK_ACK_TIMER :: u8 where "ICSK_ACK_TIMER = 2"
definition ICSK_ACK_PUSHED :: u8 where "ICSK_ACK_PUSHED = 4"
definition ICSK_ACK_PUSHED2 :: u8 where "ICSK_ACK_PUSHED2 = 8"

lemmas icsk_ack_bits = ICSK_ACK_SCHED_def ICSK_ACK_TIMER_def ICSK_ACK_PUSHED_def ICSK_ACK_PUSHED2_def

definition upd_ack :: "(icsk_ack \<Rightarrow> icsk_ack) \<Rightarrow> tcp_sock \<Rightarrow> tcp_sock" where
  "upd_ack f s = s\<lparr>icsk_ack := f (icsk_ack s)\<rparr>"

definition inet_csk_schedule_ack :: "tcp_sock \<Rightarrow> tcp_sock" where
  "inet_csk_schedule_ack s = upd_ack (\<lambda>a. a\<lparr>ack_pending := ack_pending a OR ICSK_ACK_SCHED\<rparr>) s"

definition inet_csk_ack_scheduled :: "tcp_sock \<Rightarrow> bool" where
  "inet_csk_ack_scheduled s \<longleftrightarrow> ack_pending (icsk_ack s) AND ICSK_ACK_SCHED \<noteq> 0"

datatype icsk_timer = ICSK_TIME_RETRANS | ICSK_TIME_DACK | ICSK_TIME_PROBE0

primrec timer_code :: "icsk_timer \<Rightarrow> u8" where
  "timer_code ICSK_TIME_RETRANS = 1"
| "timer_code ICSK_TIME_DACK = 2"
| "timer_code ICSK_TIME_PROBE0 = 3"

definition inet_csk_clear_xmit_timer :: "icsk_timer \<Rightarrow> tcp_sock \<Rightarrow> tcp_sock" where
  "inet_csk_clear_xmit_timer what s =
     (case what of
        ICSK_TIME_DACK \<Rightarrow> upd_ack (\<lambda>a. a\<lparr>ack_blocked := 0, ack_pending := 0\<rparr>) s
      | _ \<Rightarrow> s\<lparr>icsk_pending := 0\<rparr>)"

definition inet_csk_reset_xmit_timer :: "ienv \<Rightarrow> icsk_timer \<Rightarrow> u64 \<Rightarrow> u64 \<Rightarrow> tcp_sock \<Rightarrow> tcp_sock" where
  "inet_csk_reset_xmit_timer I what when max_when s =
     (let w = (if max_when < when then max_when else when)
      in case what of
           ICSK_TIME_DACK \<Rightarrow> upd_ack (\<lambda>a. a\<lparr>ack_pending := ack_pending a OR ICSK_ACK_TIMER,
                                          ack_timeout := clock I + w\<rparr>) s
         | _ \<Rightarrow> s\<lparr>icsk_pending := timer_code what, icsk_timeout := clock I + w\<rparr>)"

section \<open>Memory accounting (sock.h)\<close>

text \<open>TCP has memory accounting, so the tests of \<^verbatim>\<open>sk_has_account\<close> are true.\<close>

definition sk_rmem_schedule :: "ienv \<Rightarrow> int \<Rightarrow> tcp_sock \<Rightarrow> bool \<times> tcp_sock" where
  "sk_rmem_schedule I sz s =
     (if sz \<le> sk_forward_alloc s then (True, s)
      else case sk_mem_schedule I sz s of (ok, fwd) \<Rightarrow> (ok, s\<lparr>sk_forward_alloc := fwd\<rparr>))"

definition sk_mem_reclaim :: "ienv \<Rightarrow> tcp_sock \<Rightarrow> tcp_sock" where
  "sk_mem_reclaim I s =
     (if SK_MEM_QUANTUM I \<le> sk_forward_alloc s
      then s\<lparr>sk_forward_alloc := sk_mem_reclaimed I (sk_forward_alloc s)\<rparr> else s)"

definition sk_mem_charge :: "int \<Rightarrow> tcp_sock \<Rightarrow> tcp_sock" where
  "sk_mem_charge sz s = s\<lparr>sk_forward_alloc := sk_forward_alloc s - sz\<rparr>"

definition sk_mem_uncharge :: "int \<Rightarrow> tcp_sock \<Rightarrow> tcp_sock" where
  "sk_mem_uncharge sz s = s\<lparr>sk_forward_alloc := sk_forward_alloc s + sz\<rparr>"

text \<open>A buffer becomes owned by the socket it is queued on.\<close>

definition skb_set_owner_r :: "skb \<Rightarrow> tcp_sock \<Rightarrow> tcp_sock" where
  "skb_set_owner_r b s =
     sk_mem_charge (uint (sg_truesize b)) (s\<lparr>sk_rmem_alloc := sk_rmem_alloc s + uint (sg_truesize b)\<rparr>)"

definition rcv_window :: "ienv \<Rightarrow> tcp_sock \<Rightarrow> u32" where
  "rcv_window I s = tcp_receive_window (mv I) (rcv_wup s) (rcv_wnd s) (rcv_nxt s)"

definition send_ack :: "ienv \<Rightarrow> tcp_sock \<Rightarrow> tcp_sock" where
  "send_ack I s = sk_event Send_ack_now (tcp_send_ack I s)"

definition RCV_SHUTDOWN :: u8 where "RCV_SHUTDOWN = 1"
definition SEND_SHUTDOWN :: u8 where "SEND_SHUTDOWN = 2"
definition SHUTDOWN_MASK :: u8 where "SHUTDOWN_MASK = 3"

lemmas shutdown_bits = RCV_SHUTDOWN_def SEND_SHUTDOWN_def SHUTDOWN_MASK_def

section \<open>Leaving the connection to a time-wait socket\<close>

text \<open>\<open>tcp_time_wait\<close> of \<open>Tcp_Minisocks\<close>, on this view of the socket; it ends in \<^verbatim>\<open>tcp_done\<close>.\<close>

definition closing :: "ienv \<Rightarrow> tcp_sock \<Rightarrow> closing_sock" where
  "closing I s = (tw_template I)\<lparr>cl_rto := icsk_rto s, cl_rcv_nxt := rcv_nxt s, cl_snd_nxt := snd_nxt s,
     cl_rcv_wup := rcv_wup s, cl_rcv_wnd := rcv_wnd s, cl_rx_opt := rx_opt s\<rparr>"

definition to_time_wait :: "ienv \<Rightarrow> tcp_state \<Rightarrow> int \<Rightarrow> tcp_sock \<Rightarrow> tcp_sock" where
  "to_time_wait I state timeo s =
     tcp_done I (sk_event (Time_wait (tcp_time_wait (mv I) (closing I s) state timeo)) s)"

end
