(* ===== verification/Tcp_Tuning.thy ===== *)
theory Tcp_Tuning
  imports Tcp_Sock "HOL-Library.Signed_Division"
begin

text \<open>
  The first part of \<^verbatim>\<open>net/ipv4/tcp_input.c\<close>: delayed acknowledgements, ECN, the receive window and
  buffers, and the round trip time estimators. Comparisons and conversions between signed and
  unsigned integers are the ones the code makes. A division by zero is \<^term>\<open>None\<close>, and so is a loop
  that does not end; signed integers do not overflow (which C leaves undefined).
\<close>

section \<open>Delayed acknowledgements\<close>

definition tcp_measure_rcv_mss :: "ienv \<Rightarrow> skb \<Rightarrow> tcp_sock \<Rightarrow> tcp_sock" where
  "tcp_measure_rcv_mss I b s =
     (let lss = ucast (ack_last_seg_size (icsk_ack s)) :: u32;
          s1 = upd_ack (\<lambda>a. a\<lparr>ack_last_seg_size := 0\<rparr>) s;
          len = (if sg_gso_size b \<noteq> 0 then ucast (sg_gso_size b) else sg_len b);
          pushed = upd_ack (\<lambda>a. a\<lparr>ack_pending :=
                     (if ack_pending a AND ICSK_ACK_PUSHED \<noteq> 0 then ack_pending a OR ICSK_ACK_PUSHED2 else ack_pending a)
                     OR ICSK_ACK_PUSHED\<rparr>)
      in if ucast (ack_rcv_mss (icsk_ack s1)) \<le> len
         then upd_ack (\<lambda>a. a\<lparr>ack_rcv_mss := ucast len\<rparr>) s1
         else let len1 = len + sg_pulled b
              in if TCP_MSS_DEFAULT + 20 \<le> len1 \<or>
                    (TCP_MIN_MSS I + 20 \<le> len1 \<and> \<not> (sg_fin b \<or> sg_urg b \<or> sg_syn b \<or> sg_psh b))
                 then let len2 = len1 - ucast (tcp_header_len s1);
                          s2 = upd_ack (\<lambda>a. a\<lparr>ack_last_seg_size := ucast len2\<rparr>) s1
                      in if len2 = lss then upd_ack (\<lambda>a. a\<lparr>ack_rcv_mss := ucast len2\<rparr>) s2 else pushed s2
                 else pushed s1)"

definition tcp_incr_quickack :: "ienv \<Rightarrow> tcp_sock \<Rightarrow> tcp_sock option" where
  "tcp_incr_quickack I s =
     (let d = 2 * ucast (ack_rcv_mss (icsk_ack s)) :: u32
      in if d = 0 then None
         else let q = rcv_wnd s div d;
                  quickacks = (if q = 0 then 2 else q)
              in Some (if ucast (ack_quick (icsk_ack s)) < quickacks
                       then upd_ack (\<lambda>a. a\<lparr>ack_quick := ucast (min quickacks (TCP_MAX_QUICKACKS I))\<rparr>) s
                       else s))"

definition tcp_enter_quickack_mode :: "ienv \<Rightarrow> tcp_sock \<Rightarrow> tcp_sock option" where
  "tcp_enter_quickack_mode I s =
     map_option (upd_ack (\<lambda>a. a\<lparr>ack_pingpong := 0, ack_ato := TCP_ATO_MIN I\<rparr>)) (tcp_incr_quickack I s)"

definition tcp_in_quickack_mode :: "tcp_sock \<Rightarrow> bool" where
  "tcp_in_quickack_mode s \<longleftrightarrow> ack_quick (icsk_ack s) \<noteq> 0 \<and> ack_pingpong (icsk_ack s) = 0"

section \<open>Explicit congestion notification\<close>

abbreviation ecn_ok :: "ienv \<Rightarrow> tcp_sock \<Rightarrow> bool" where
  "ecn_ok I s \<equiv> ecn_flags s AND TCP_ECN_OK (mv I) \<noteq> 0"

definition TCP_ECN_queue_cwr :: "ienv \<Rightarrow> tcp_sock \<Rightarrow> tcp_sock" where
  "TCP_ECN_queue_cwr I s = (if ecn_ok I s then s\<lparr>ecn_flags := ecn_flags s OR TCP_ECN_QUEUE_CWR I\<rparr> else s)"

definition TCP_ECN_accept_cwr :: "ienv \<Rightarrow> skb \<Rightarrow> tcp_sock \<Rightarrow> tcp_sock" where
  "TCP_ECN_accept_cwr I b s = (if sg_cwr b then s\<lparr>ecn_flags := ecn_flags s AND NOT (TCP_ECN_DEMAND_CWR I)\<rparr> else s)"

definition TCP_ECN_withdraw_cwr :: "ienv \<Rightarrow> tcp_sock \<Rightarrow> tcp_sock" where
  "TCP_ECN_withdraw_cwr I s = s\<lparr>ecn_flags := ecn_flags s AND NOT (TCP_ECN_DEMAND_CWR I)\<rparr>"

definition TCP_ECN_check_ce :: "ienv \<Rightarrow> skb \<Rightarrow> tcp_sock \<Rightarrow> tcp_sock option" where
  "TCP_ECN_check_ce I b s =
     (if \<not> ecn_ok I s then Some s
      else let ds = sg_dsfield b AND INET_ECN_MASK I
           in if ds = INET_ECN_NOT_ECT I
              then if ecn_flags s AND TCP_ECN_SEEN I \<noteq> 0 then tcp_enter_quickack_mode I s else Some s
              else let s1 = (if ds = INET_ECN_CE I then s\<lparr>ecn_flags := ecn_flags s OR TCP_ECN_DEMAND_CWR I\<rparr> else s)
                   in Some (s1\<lparr>ecn_flags := ecn_flags s1 OR TCP_ECN_SEEN I\<rparr>))"

definition TCP_ECN_rcv_synack :: "ienv \<Rightarrow> skb \<Rightarrow> tcp_sock \<Rightarrow> tcp_sock" where
  "TCP_ECN_rcv_synack I b s =
     (if ecn_ok I s \<and> (\<not> sg_ece b \<or> sg_cwr b) then s\<lparr>ecn_flags := ecn_flags s AND NOT (TCP_ECN_OK (mv I))\<rparr> else s)"

definition TCP_ECN_rcv_syn :: "ienv \<Rightarrow> skb \<Rightarrow> tcp_sock \<Rightarrow> tcp_sock" where
  "TCP_ECN_rcv_syn I b s =
     (if ecn_ok I s \<and> (\<not> sg_ece b \<or> \<not> sg_cwr b) then s\<lparr>ecn_flags := ecn_flags s AND NOT (TCP_ECN_OK (mv I))\<rparr> else s)"

definition TCP_ECN_rcv_ecn_echo :: "ienv \<Rightarrow> skb \<Rightarrow> tcp_sock \<Rightarrow> bool" where
  "TCP_ECN_rcv_ecn_echo I b s \<longleftrightarrow> sg_ece b \<and> \<not> sg_syn b \<and> ecn_ok I s"

section \<open>Buffers and the advertised window\<close>

definition tcp_fixup_sndbuf :: "ienv \<Rightarrow> tcp_sock \<Rightarrow> tcp_sock" where
  "tcp_fixup_sndbuf I s =
     (let sndmem = SKB_TRUESIZE I (uint (mss_clamp (rx_opt s)) + MAX_TCP_HEADER I) * uint (TCP_INIT_CWND (mv I))
      in if sk_sndbuf s < sndmem then s\<lparr>sk_sndbuf := min sndmem (sysctl_tcp_wmem_max I)\<rparr> else s)"

partial_function (option) grow_loop :: "u32 \<Rightarrow> u32 \<Rightarrow> int \<Rightarrow> int \<Rightarrow> int \<Rightarrow> int option" where
  "grow_loop ssthresh len incr truesize window =
     (if ssthresh \<le> word_of_int window then
        if word_of_int truesize \<le> len then Some incr
        else grow_loop ssthresh len incr (drop_bit 1 truesize) (drop_bit 1 window)
      else Some 0)"

definition tcp_grow_window_slow :: "ienv \<Rightarrow> skb \<Rightarrow> tcp_sock \<Rightarrow> int option" where
  "tcp_grow_window_slow I b s =
     grow_loop (rcv_ssthresh s) (sg_len b) (2 * uint (ack_rcv_mss (icsk_ack s)))
       (drop_bit 1 (tcp_win_from_space I (uint (sg_truesize b))))
       (drop_bit 1 (tcp_win_from_space I (sysctl_tcp_rmem_max I)))"

definition tcp_grow_window :: "ienv \<Rightarrow> skb \<Rightarrow> tcp_sock \<Rightarrow> tcp_sock option" where
  "tcp_grow_window I b s =
     (if rcv_ssthresh s < window_clamp s \<and> sint (rcv_ssthresh s) < tcp_space I s \<and> \<not> tcp_memory_pressure I then do {
        incr \<leftarrow> (if word_of_int (tcp_win_from_space I (uint (sg_truesize b))) \<le> sg_len b
                 then Some (2 * uint (advmss s)) else tcp_grow_window_slow I b s);
        Some (if incr \<noteq> 0
              then upd_ack (\<lambda>a. a\<lparr>ack_quick := ack_quick a OR 1\<rparr>)
                     (s\<lparr>rcv_ssthresh := min (rcv_ssthresh s + word_of_int incr) (window_clamp s)\<rparr>)
              else s) }
      else Some s)"

partial_function (option) rcvmem_loop :: "(int \<Rightarrow> bool) \<Rightarrow> int \<Rightarrow> int option" where
  "rcvmem_loop small rcvmem = (if small rcvmem then rcvmem_loop small (rcvmem + 128) else Some rcvmem)"

definition tcp_fixup_rcvbuf :: "ienv \<Rightarrow> tcp_sock \<Rightarrow> tcp_sock option" where
  "tcp_fixup_rcvbuf I s =
     (let mss = ucast (advmss s) :: u32;
          icwnd = (if 1460 < mss then max ((1460 * TCP_DEFAULT_INIT_RCVWND I) div mss) 2 else TCP_DEFAULT_INIT_RCVWND I)
      in do {
        rcvmem \<leftarrow> rcvmem_loop (\<lambda>m. word_of_int (tcp_win_from_space I m) < mss)
                   (SKB_TRUESIZE I (uint mss + MAX_TCP_HEADER I));
        let rcvmem1 = rcvmem * uint icwnd;
        Some (if sk_rcvbuf s < rcvmem1 then s\<lparr>sk_rcvbuf := min rcvmem1 (sysctl_tcp_rmem_max I)\<rparr> else s) })"

definition space_clamp :: "ienv \<Rightarrow> int \<Rightarrow> int \<Rightarrow> u32 \<Rightarrow> u32" where
  "space_clamp I maxwin mss clamp =
     (let c1 = (if word_of_int maxwin \<le> clamp
                then if sysctl_tcp_app_win I \<noteq> 0 \<and> 4 * mss < maxwin
                     then word_of_int (max (maxwin - drop_bit (sysctl_tcp_app_win I) maxwin) (4 * mss))
                     else word_of_int maxwin
                else clamp)
      in if sysctl_tcp_app_win I \<noteq> 0 \<and> word_of_int (2 * mss) < c1 \<and> word_of_int maxwin < c1 + word_of_int mss
         then word_of_int (max (2 * mss) (maxwin - mss)) else c1)"

definition tcp_init_buffer_space :: "ienv \<Rightarrow> tcp_sock \<Rightarrow> tcp_sock option" where
  "tcp_init_buffer_space I s = do {
     s1 \<leftarrow> (if \<not> sk_rcvbuf_lock s then tcp_fixup_rcvbuf I s else Some s);
     let s2 = (if \<not> sk_sndbuf_lock s1 then tcp_fixup_sndbuf I s1 else s1);
     let s3 = s2\<lparr>rcvq_space := (rcvq_space s2)\<lparr>rcvq_bytes := sint (rcv_wnd s2)\<rparr>\<rparr>;
     let s4 = s3\<lparr>window_clamp := space_clamp I (tcp_full_space I s3) (uint (advmss s3)) (window_clamp s3)\<rparr>;
     Some (s4\<lparr>rcv_ssthresh := min (rcv_ssthresh s4) (window_clamp s4), snd_cwnd_stamp := tcp_time_stamp I\<rparr>) }"

definition tcp_clamp_window :: "ienv \<Rightarrow> tcp_sock \<Rightarrow> tcp_sock" where
  "tcp_clamp_window I s =
     (let s1 = upd_ack (\<lambda>a. a\<lparr>ack_quick := 0\<rparr>) s;
          s2 = (if sk_rcvbuf s1 < sysctl_tcp_rmem_max I \<and> \<not> sk_rcvbuf_lock s1 \<and> \<not> tcp_memory_pressure I \<and> tcp_memory_low I
                then s1\<lparr>sk_rcvbuf := min (sk_rmem_alloc s1) (sysctl_tcp_rmem_max I)\<rparr> else s1)
      in if sk_rcvbuf s2 < sk_rmem_alloc s2
         then s2\<lparr>rcv_ssthresh := min (window_clamp s2) (2 * ucast (advmss s2))\<rparr> else s2)"

definition tcp_initialize_rcv_mss :: "ienv \<Rightarrow> tcp_sock \<Rightarrow> tcp_sock" where
  "tcp_initialize_rcv_mss I s =
     (let hint0 = min (ucast (advmss s)) (mss_cache s);
          hint1 = min hint0 (rcv_wnd s div 2);
          hint2 = min hint1 TCP_MSS_DEFAULT;
          hint3 = max hint2 (TCP_MIN_MSS I)
      in upd_ack (\<lambda>a. a\<lparr>ack_rcv_mss := ucast hint3\<rparr>) s)"

section \<open>The round trip time, seen by a receiver\<close>

definition tcp_rcv_rtt_update :: "u32 \<Rightarrow> bool \<Rightarrow> tcp_sock \<Rightarrow> tcp_sock" where
  "tcp_rcv_rtt_update sample win_dep s =
     (let rtt = est_rtt (rcv_rtt_est s);
          m = (if sample = 0 then 1 else uint sample);
          new_sample = (if rtt \<noteq> 0 then
                          if \<not> win_dep then rtt + word_of_int (m - uint (drop_bit 3 rtt))
                          else if m < uint rtt then word_of_int (push_bit 3 m) else rtt
                        else word_of_int (push_bit 3 m))
      in s\<lparr>rcv_rtt_est := (rcv_rtt_est s)\<lparr>est_rtt := new_sample\<rparr>\<rparr>)"

definition tcp_rcv_rtt_measure :: "ienv \<Rightarrow> tcp_sock \<Rightarrow> tcp_sock" where
  "tcp_rcv_rtt_measure I s =
     (let new_measure = (\<lambda>s. s\<lparr>rcv_rtt_est := (rcv_rtt_est s)\<lparr>est_seq := rcv_nxt s + rcv_wnd s,
                                                           est_time := tcp_time_stamp I\<rparr>\<rparr>)
      in if est_time (rcv_rtt_est s) = 0 then new_measure s
         else if before (tv I) (rcv_nxt s) (est_seq (rcv_rtt_est s)) then s
         else new_measure (tcp_rcv_rtt_update (ucast (clock I - ucast (est_time (rcv_rtt_est s)))) True s))"

definition tcp_rcv_rtt_measure_ts :: "ienv \<Rightarrow> skb \<Rightarrow> tcp_sock \<Rightarrow> tcp_sock" where
  "tcp_rcv_rtt_measure_ts I b s =
     (if rcv_tsecr (rx_opt s) \<noteq> 0 \<and> ucast (ack_rcv_mss (icsk_ack s)) \<le> sg_end_seq b - sg_seq b
      then tcp_rcv_rtt_update (tcp_time_stamp I - rcv_tsecr (rx_opt s)) False s else s)"

definition tcp_rcv_space_adjust :: "ienv \<Rightarrow> tcp_sock \<Rightarrow> tcp_sock option" where
  "tcp_rcv_space_adjust I s =
     (let rq = rcvq_space s;
          new_measure = (\<lambda>s. s\<lparr>rcvq_space := (rcvq_space s)\<lparr>rcvq_seq := copied_seq s, rcvq_time := tcp_time_stamp I\<rparr>\<rparr>)
      in if rcvq_time rq = 0 then Some (new_measure s)
         else if tcp_time_stamp I - rcvq_time rq < drop_bit 3 (est_rtt (rcv_rtt_est s)) \<or> est_rtt (rcv_rtt_est s) = 0
         then Some s
         else let space = max (rcvq_bytes rq) (sint (2 * (copied_seq s - rcvq_seq rq)))
              in if rcvq_bytes rq = space then Some (new_measure s)
                 else let s1 = s\<lparr>rcvq_space := rq\<lparr>rcvq_bytes := space\<rparr>\<rparr>
                      in if sysctl_tcp_moderate_rcvbuf I \<and> \<not> sk_rcvbuf_lock s1 then
                           (if advmss s1 = 0 then None
                            else do {
                              let mss = uint (advmss s1);
                              let segs = (let n = space sdiv mss in if n = 0 then 1 else n);
                              rcvmem \<leftarrow> rcvmem_loop (\<lambda>m. tcp_win_from_space I m < mss)
                                         (SKB_TRUESIZE I (mss + MAX_TCP_HEADER I));
                              let space1 = min (segs * rcvmem) (sysctl_tcp_rmem_max I);
                              Some (new_measure (if sk_rcvbuf s1 < space1
                                then s1\<lparr>sk_rcvbuf := space1, window_clamp := word_of_int space\<rparr> else s1)) })
                         else Some (new_measure s1))"

text \<open>Every segment with data.\<close>

definition tcp_event_data_recv :: "ienv \<Rightarrow> skb \<Rightarrow> tcp_sock \<Rightarrow> tcp_sock option" where
  "tcp_event_data_recv I b s = do {
     let s1 = tcp_rcv_rtt_measure I (tcp_measure_rcv_mss I b (inet_csk_schedule_ack s));
     let now = tcp_time_stamp I;
     let ato = ack_ato (icsk_ack s1);
     s2 \<leftarrow> (if ato = 0 then map_option (upd_ack (\<lambda>a. a\<lparr>ack_ato := TCP_ATO_MIN I\<rparr>)) (tcp_incr_quickack I s1)
            else let m = now - ack_lrcvtime (icsk_ack s1)
                 in if m \<le> TCP_ATO_MIN I div 2
                    then Some (upd_ack (\<lambda>a. a\<lparr>ack_ato := drop_bit 1 ato + TCP_ATO_MIN I div 2\<rparr>) s1)
                    else if m < ato
                    then Some (upd_ack (\<lambda>a. a\<lparr>ack_ato := (if icsk_rto s1 < drop_bit 1 ato + m then icsk_rto s1
                                                         else drop_bit 1 ato + m)\<rparr>) s1)
                    else if icsk_rto s1 < m then map_option (sk_mem_reclaim I) (tcp_incr_quickack I s1)
                    else Some s1);
     s3 \<leftarrow> TCP_ECN_check_ce I b (upd_ack (\<lambda>a. a\<lparr>ack_lrcvtime := now\<rparr>) s2);
     if 128 \<le> sg_len b then tcp_grow_window I b s3 else Some s3 }"

section \<open>The round trip time, seen by a sender\<close>

text \<open>The change of the deviation for an error \<open>m\<close> of the estimate, and the largest deviation of a round trip.\<close>

definition rtt_error :: "int \<Rightarrow> u32 \<Rightarrow> int" where
  "rtt_error m dev =
     (if m < 0 then let d = - m - uint (drop_bit 2 dev) in if 0 < d then drop_bit 3 d else d
      else m - uint (drop_bit 2 dev))"

definition rtt_deviation :: "ienv \<Rightarrow> tcp_sock \<Rightarrow> tcp_sock" where
  "rtt_deviation I s =
     (let s1 = (if mdev_max s < mdev s
                then s\<lparr>mdev_max := mdev s, rttvar := (if rttvar s < mdev s then mdev s else rttvar s)\<rparr> else s)
      in if after (tv I) (snd_una s1) (rtt_seq s1)
         then s1\<lparr>rttvar := (if mdev_max s1 < rttvar s1 then rttvar s1 - drop_bit 2 (rttvar s1 - mdev_max s1)
                           else rttvar s1),
                rtt_seq := snd_nxt s1, mdev_max := tcp_rto_min I\<rparr>
         else s1)"

definition tcp_rtt_estimator :: "ienv \<Rightarrow> u32 \<Rightarrow> tcp_sock \<Rightarrow> tcp_sock" where
  "tcp_rtt_estimator I mrtt s =
     (let m0 = (if mrtt = 0 then 1 else uint mrtt)
      in if srtt s \<noteq> 0 then
           let m1 = m0 - uint (drop_bit 3 (srtt s))
           in rtt_deviation I (s\<lparr>srtt := srtt s + word_of_int m1, mdev := mdev s + word_of_int (rtt_error m1 (mdev s))\<rparr>)
         else let dev = word_of_int (push_bit 1 m0); v = max dev (tcp_rto_min I)
              in s\<lparr>srtt := word_of_int (push_bit 3 m0), mdev := dev, mdev_max := v, rttvar := v, rtt_seq := snd_nxt s\<rparr>)"

text \<open>\<^verbatim>\<open>__tcp_set_rto\<close> and \<^verbatim>\<open>tcp_bound_rto\<close> are functions of \<^verbatim>\<open>net/tcp.h\<close>.\<close>

definition tcp_set_rto :: "ienv \<Rightarrow> tcp_sock \<Rightarrow> tcp_sock" where
  "tcp_set_rto I s = s\<lparr>icsk_rto := tcp_bound_rto I (tcp_set_rto_value I (srtt s) (rttvar s))\<rparr>"

end
