(* ===== verification/Tcp_Tuning_Correct.thy ===== *)
theory Tcp_Tuning_Correct
  imports Tcp_Tuning
begin

text \<open>Bounds of the round trip time estimator and of the receive window.\<close>

section \<open>Words and integers\<close>

lemma uint_add_int:
  fixes w :: u32
  assumes "0 \<le> uint w + m" "uint w + m < 2 ^ 32"
  shows "uint (w + word_of_int m) = uint w + m"
proof -
  have "uint (w + word_of_int m) = (uint w + m) mod 2 ^ 32"
    by (simp add: uint_word_ariths(1) mod_add_right_eq uint_word_of_int_eq take_bit_eq_mod)
  with assms show ?thesis by simp
qed

lemma uint_drop_bit: "uint (drop_bit n (w :: u32)) = uint w div 2 ^ n"
proof -
  have "take_bit 32 (uint w) = uint w"
    using uint_lt2p [of w] by (intro take_bit_int_eq_self) simp_all
  then show ?thesis unfolding drop_bit_eq_div [where ?'a = int, symmetric] by (simp only: unsigned_drop_bit_eq) simp
qed

lemma uint_sub_le:
  fixes v w :: u32
  assumes "w \<le> v"
  shows "uint (v - w) = uint v - uint w"
  using assms by (simp add: uint_minus_simple_alt word_le_def)

section \<open>The estimator\<close>

text \<open>
  \<open>__tcp_set_rto\<close> is the smoothed time plus four deviations (both are kept scaled), and
  \<open>tcp_bound_rto\<close> caps the result; the least timeout is below the cap.
\<close>

definition rto_law :: "ienv \<Rightarrow> bool" where
  "rto_law I \<longleftrightarrow> (\<forall>a v. tcp_set_rto_value I a v = drop_bit 3 a + v) \<and>
     (\<forall>r. tcp_bound_rto I r = min r (TCP_RTO_MAX I)) \<and> tcp_rto_min I \<le> TCP_RTO_MAX I \<and> uint (tcp_rto_min I) \<le> 2 ^ 30"

text \<open>The estimates when no measurement was above \<open>B\<close>.\<close>

definition rtt_inv :: "ienv \<Rightarrow> int \<Rightarrow> tcp_sock \<Rightarrow> bool" where
  "rtt_inv I B s \<longleftrightarrow> uint (srtt s) \<le> 8 * B \<and> uint (mdev s) \<le> 4 * B \<and>
     uint (mdev_max s) \<le> uint (rttvar s) \<and> uint (rttvar s) \<le> max (4 * B) (uint (tcp_rto_min I)) \<and>
     (srtt s \<noteq> 0 \<longrightarrow> tcp_rto_min I \<le> mdev_max s)"

text \<open>The smoothed time moves by an eighth of the error.\<close>

definition smooth :: "int \<Rightarrow> int \<Rightarrow> int" where
  "smooth old m = (if old = 0 then 8 * m else old - old div 8 + m)"

lemma smooth_bounds:
  assumes "1 \<le> m" "m \<le> B" "0 \<le> old" "old \<le> 8 * B"
  shows "1 \<le> smooth old m" "smooth old m \<le> 8 * B"
proof -
  have "0 \<le> old div 8" "old div 8 \<le> old" using assms(3) by linarith+
  then show "1 \<le> smooth old m" using assms by (auto simp: smooth_def)
  have "old - old div 8 \<le> 7 * B" using assms(3,4) by linarith
  then show "smooth old m \<le> 8 * B" using assms by (auto simp: smooth_def)
qed

text \<open>The change of the deviation for an error \<open>e\<close>.\<close>

definition dev_step :: "int \<Rightarrow> int \<Rightarrow> int" where
  "dev_step e d = (if e < 0 then (let x = - e - d div 4 in if 0 < x then x div 8 else x) else e - d div 4)"

lemma dev_step_bounds:
  assumes "- B \<le> e" "e \<le> B" "0 \<le> d" "d \<le> 4 * B"
  shows "0 \<le> d + dev_step e d" "d + dev_step e d \<le> 4 * B"
proof -
  have d: "0 \<le> d div 4" "d div 4 \<le> d" "d - d div 4 \<le> 3 * B" using assms(3,4) by linarith+
  have "dev_step e d \<le> B - d div 4 \<or> dev_step e d \<le> 0"
    using assms d by (auto simp: dev_step_def Let_def)
  moreover have "- (d div 4) \<le> dev_step e d"
    using assms d by (auto simp: dev_step_def Let_def)
  ultimately show "0 \<le> d + dev_step e d" "d + dev_step e d \<le> 4 * B"
    using d assms(4) by linarith+
qed

text \<open>One measurement, on integers.\<close>

lemma rtt_first:
  assumes "srtt s = 0"
  shows "tcp_rtt_estimator I mrtt s = (let m = (if mrtt = 0 then 1 else uint mrtt); dev = word_of_int (2 * m); v = max dev (tcp_rto_min I)
     in s\<lparr>srtt := word_of_int (8 * m), mdev := dev, mdev_max := v, rttvar := v, rtt_seq := snd_nxt s\<rparr>)"
  using assms by (simp add: tcp_rtt_estimator_def push_bit_eq_mult Let_def ac_simps)

lemma rtt_next:
  fixes mrtt :: u32 and I :: ienv
  assumes "srtt s \<noteq> 0"
  defines "m \<equiv> (if mrtt = 0 then 1 else uint mrtt)"
  defines "e \<equiv> m - uint (srtt s) div 8"
  defines "dev \<equiv> mdev s + word_of_int (dev_step e (uint (mdev s)))"
  defines "dmax \<equiv> max (mdev_max s) dev"
  defines "var \<equiv> (if mdev_max s < dev \<and> rttvar s < dev then dev else rttvar s)"
  defines "s' \<equiv> tcp_rtt_estimator I mrtt s"
  shows "srtt s' = srtt s + word_of_int e" "mdev s' = dev"
    "(rttvar s', mdev_max s') = (var, dmax) \<or>
     (rttvar s', mdev_max s') = (if dmax < var then var - drop_bit 2 (var - dmax) else var, tcp_rto_min I)"
proof -
  have d: "rtt_error e (mdev s) = dev_step e (uint (mdev s))"
    unfolding rtt_error_def dev_step_def uint_drop_bit Let_def by (simp add: drop_bit_eq_div [where ?'a = int])
  have e: "m - uint (drop_bit 3 (srtt s)) = e" by (simp add: e_def uint_drop_bit)
  define s2 where "s2 = s\<lparr>srtt := srtt s + word_of_int e, mdev := dev\<rparr>"
  have s': "s' = rtt_deviation I s2"
    unfolding s'_def tcp_rtt_estimator_def m_def [symmetric] Let_def s2_def dev_def d e using assms(1) by simp
  have s2: "srtt s2 = srtt s + word_of_int e" "mdev s2 = dev" "mdev_max s2 = mdev_max s" "rttvar s2 = rttvar s"
    by (simp_all add: s2_def)
  show "srtt s' = srtt s + word_of_int e" "mdev s' = dev" unfolding s' rtt_deviation_def Let_def by (simp_all add: s2)
  show "(rttvar s', mdev_max s') = (var, dmax) \<or>
     (rttvar s', mdev_max s') = (if dmax < var then var - drop_bit 2 (var - dmax) else var, tcp_rto_min I)"
    unfolding s' rtt_deviation_def Let_def var_def dmax_def max_def by (simp add: s2 less_imp_le)
qed

lemma word_max_min_uint:
  "uint (max v (w :: u32)) = max (uint v) (uint w)" "uint (min v w) = min (uint v) (uint w)"
  by (simp_all add: max_def min_def word_le_def)

lemma uint_small:
  assumes "0 \<le> n" "n < 2 ^ 32"
  shows "uint (word_of_int n :: u32) = n"
  using assms by (simp add: uint_word_of_int_eq take_bit_eq_mod)

lemma sample_max: "(if mrtt = 0 then 1 else uint mrtt) = max 1 (uint (mrtt :: u32))"
proof (cases "mrtt = 0")
  case False
  then have "uint mrtt \<noteq> 0" by (simp only: uint_0_iff not_False_eq_True)
  with uint_ge_0 [of mrtt] have "1 \<le> uint mrtt" by linarith
  with False show ?thesis by simp
qed simp

lemma rtt_first_ok:
  assumes law: "rto_law I" and s: "srtt s = 0" and B: "1 \<le> B" "B \<le> 2 ^ 28" "uint mrtt \<le> B"
  defines "s' \<equiv> tcp_rtt_estimator I mrtt s"
  shows "rtt_inv I B s' \<and> uint (srtt s') = smooth (uint (srtt s)) (max 1 (uint mrtt))"
proof -
  define m where "m = max 1 (uint mrtt)"
  have m: "(if mrtt = 0 then 1 else uint mrtt) = m" "1 \<le> m" "m \<le> B"
    unfolding m_def sample_max using B by simp_all
  have w2: "uint (word_of_int (2 * m) :: u32) = 2 * m" using m(2,3) B by (intro uint_small) simp_all
  have w8: "uint (word_of_int (8 * m) :: u32) = 8 * m" using m(2,3) B by (intro uint_small) simp_all
  note w = w2 w8
  have nz: "(word_of_int (8 * m) :: u32) \<noteq> 0" 
  proof
    assume "(word_of_int (8 * m) :: u32) = 0"
    with w8 m(2) show False by simp
  qed
  have s': "srtt s' = word_of_int (8 * m)" "mdev s' = word_of_int (2 * m)"
    "mdev_max s' = max (word_of_int (2 * m)) (tcp_rto_min I)" "rttvar s' = mdev_max s'"
    unfolding s'_def rtt_first [OF s] Let_def m(1) by simp_all
  have "rtt_inv I B s'"
    unfolding rtt_inv_def s' word_max_min_uint w word_le_def using m(2,3) by simp
  moreover have "uint (srtt s') = smooth (uint (srtt s)) m" by (simp only: s' w s smooth_def) simp
  ultimately show ?thesis by (simp only: m_def)
qed

lemma rtt_next_ok:
  assumes law: "rto_law I" and s: "srtt s \<noteq> 0" and inv: "rtt_inv I B s" and B: "1 \<le> B" "B \<le> 2 ^ 28" "uint mrtt \<le> B"
  defines "s' \<equiv> tcp_rtt_estimator I mrtt s"
  shows "rtt_inv I B s' \<and> uint (srtt s') = smooth (uint (srtt s)) (max 1 (uint mrtt))"
proof -
  define m where "m = max 1 (uint mrtt)"
  have m: "(if mrtt = 0 then 1 else uint mrtt) = m" "1 \<le> m" "m \<le> B"
    unfolding m_def sample_max using B by simp_all
  define e where "e = m - uint (srtt s) div 8"
  define dev where "dev = mdev s + word_of_int (dev_step e (uint (mdev s)))"
  define dmax where "dmax = max (mdev_max s) dev"
  define var where "var = (if mdev_max s < dev \<and> rttvar s < dev then dev else rttvar s)"
  note s' = rtt_next [OF s, where mrtt = mrtt and I = I, unfolded m(1), folded e_def, folded dev_def, folded dmax_def var_def, folded s'_def]
  obtain var' dmax' where sel: "rttvar s' = var'" "mdev_max s' = dmax'" by blast
  note cs = s'(3) [unfolded sel]
  have old: "0 \<le> uint (srtt s)" "uint (srtt s) \<noteq> 0" "uint (srtt s) \<le> 8 * B" "uint (mdev s) \<le> 4 * B"
    "uint (mdev_max s) \<le> uint (rttvar s)" "uint (rttvar s) \<le> max (4 * B) (uint (tcp_rto_min I))"
    "uint (tcp_rto_min I) \<le> uint (mdev_max s)"
    using inv s by (simp_all add: rtt_inv_def uint_0_iff word_le_def)
  have sm: "uint (srtt s) + e = smooth (uint (srtt s)) m" using old(2) by (simp add: smooth_def e_def)
  note bounds = smooth_bounds [OF m(2,3) old(1,3)]
  have srtt': "uint (srtt s + word_of_int e) = smooth (uint (srtt s)) m"
    unfolding sm [symmetric] using bounds B sm by (intro uint_add_int) simp_all
  have "- B \<le> e" "e \<le> B" using m old unfolding e_def by linarith+
  note dv = dev_step_bounds [OF this uint_ge_0 old(4)]
  have dev: "uint dev = uint (mdev s) + dev_step e (uint (mdev s))"
    unfolding dev_def using dv B by (intro uint_add_int) simp_all
  have dev4: "uint dev \<le> 4 * B" using dv(2) by (simp only: dev)
  have dm: "uint (tcp_rto_min I) \<le> uint dmax" "uint dmax \<le> uint var" "uint var \<le> max (4 * B) (uint (tcp_rto_min I))"
    using old(5-7) dev4 by (auto simp: dmax_def var_def word_max_min_uint word_less_def)
  have "uint (tcp_rto_min I) \<le> uint dmax' \<and> uint dmax' \<le> uint var' \<and> uint var' \<le> max (4 * B) (uint (tcp_rto_min I))"
    using cs
  proof
    assume "(var', dmax') = (var, dmax)"
    with dm show ?thesis by simp
  next
    assume *: "(var', dmax') = (if dmax < var then var - drop_bit 2 (var - dmax) else var, tcp_rto_min I)"
    have "uint dmax \<le> uint (var - drop_bit 2 (var - dmax)) \<and> uint (var - drop_bit 2 (var - dmax)) \<le> uint var"
    proof -
      have d: "uint (var - dmax) = uint var - uint dmax" using dm(2) by (intro uint_sub_le) (simp add: word_le_def)
      have q: "uint (drop_bit 2 (var - dmax)) = (uint var - uint dmax) div 4" by (simp add: uint_drop_bit d)
      have le: "drop_bit 2 (var - dmax) \<le> var"
        unfolding word_le_def q using dm(2) uint_ge_0 [of dmax] by linarith
      show ?thesis unfolding uint_sub_le [OF le] q using dm(2) by linarith
    qed
    with * dm show ?thesis by (auto split: if_splits)
  qed
  then show ?thesis
    using srtt' bounds dev4 unfolding rtt_inv_def m_def [symmetric] s'(1,2) sel by (simp add: word_le_def)
qed

lemma set_rto_least:
  assumes "rto_law I" "rtt_inv I B s" "srtt s \<noteq> 0" "1 \<le> B" "B \<le> 2 ^ 28"
  shows "tcp_rto_min I \<le> icsk_rto (tcp_set_rto I s)" "icsk_rto (tcp_set_rto I s) \<le> TCP_RTO_MAX I"
proof -
  have inv: "uint (srtt s) \<le> 8 * B" "uint (tcp_rto_min I) \<le> uint (rttvar s)" "uint (rttvar s) \<le> max (4 * B) (2 ^ 30)"
    using assms(1-3) by (auto simp: rtt_inv_def rto_law_def word_le_def)
  have "uint (srtt s) div 8 \<le> B" using inv(1) by linarith
  then have "uint (drop_bit 3 (srtt s)) \<le> B" by (simp add: uint_drop_bit)
  with inv(3) assms(5) have "uint (drop_bit 3 (srtt s)) + uint (rttvar s) < 2 ^ 32" by simp
  then have "uint (drop_bit 3 (srtt s) + rttvar s) = uint (drop_bit 3 (srtt s)) + uint (rttvar s)"
    by (simp add: uint_plus_simple_iff word_le_def uint_word_ariths)
  with inv(2) have "tcp_rto_min I \<le> drop_bit 3 (srtt s) + rttvar s"
    using uint_ge_0 [of "drop_bit 3 (srtt s)"] unfolding word_le_def by linarith
  with assms(1) show "tcp_rto_min I \<le> icsk_rto (tcp_set_rto I s)" "icsk_rto (tcp_set_rto I s) \<le> TCP_RTO_MAX I"
    by (simp_all add: rto_law_def tcp_set_rto_def)
qed

section \<open>The receive window\<close>

lemma word_of_int_small_le:
  fixes w :: u32
  assumes "0 \<le> n" "n < 2 ^ 32"
  shows "word_of_int n \<le> w \<longleftrightarrow> n \<le> uint w" "w \<le> word_of_int n \<longleftrightarrow> uint w \<le> n"
  unfolding word_le_def uint_small [OF assms] by (rule refl)+

text \<open>The loop ends: the size of the buffer is halved until it is below the length of the data.\<close>

lemma grow_loop_total:
  assumes "0 \<le> truesize" "truesize < 2 ^ 32"
  shows "\<exists>r. grow_loop ssthresh len incr truesize window = Some r \<and> (r = incr \<or> r = 0)"
  using assms
proof (induction "nat truesize" arbitrary: truesize window rule: less_induct)
  case less
  show ?case
  proof (cases "ssthresh \<le> word_of_int window \<and> \<not> word_of_int truesize \<le> len")
    case True
    then have "truesize \<noteq> 0" by auto
    with less.prems have t: "nat (drop_bit 1 truesize) < nat truesize" "0 \<le> drop_bit 1 truesize" "drop_bit 1 truesize < 2 ^ 32"
      by (auto simp: drop_bit_eq_div)
    from less.hyps [OF this] True show ?thesis by (subst grow_loop.simps) simp
  next
    case False
    then show ?thesis by (subst grow_loop.simps) auto
  qed
qed

text \<open>
  The part of a buffer that counts as window is at most the buffer, and a megabyte holds the largest
  segment (as with the default of \<open>sysctl_tcp_adv_win_scale\<close>); a buffer for one segment is smaller.
\<close>

definition win_law :: "ienv \<Rightarrow> bool" where
  "win_law I \<longleftrightarrow> (\<forall>m. 0 \<le> m \<longrightarrow> 0 \<le> tcp_win_from_space I m \<and> tcp_win_from_space I m \<le> m) \<and>
     (\<forall>m. 2 ^ 20 \<le> m \<longrightarrow> 65535 \<le> tcp_win_from_space I m) \<and>
     (\<forall>m. 0 \<le> m \<longrightarrow> m \<le> 65535 \<longrightarrow> 0 \<le> SKB_TRUESIZE I (m + MAX_TCP_HEADER I) \<and> SKB_TRUESIZE I (m + MAX_TCP_HEADER I) < 2 ^ 20)"

lemma rcvmem_loop_total:
  assumes "\<And>m. m0 \<le> m \<Longrightarrow> m < m0 + 128 \<Longrightarrow> \<not> small m" "m < m0 + 128"
  shows "\<exists>r. rcvmem_loop small m = Some r \<and> m \<le> r \<and> \<not> small r"
  using assms(2)
proof (induction "nat (m0 - m)" arbitrary: m rule: less_induct)
  case less
  show ?case
  proof (cases "small m")
    case True
    with assms(1) less.prems have "m < m0" using linorder_not_le by blast
    then have "nat (m0 - (m + 128)) < nat (m0 - m)" "m + 128 < m0 + 128" by simp_all
    from less.hyps [OF this] True show ?thesis by (subst rcvmem_loop.simps) force
  next
    case False
    then show ?thesis by (subst rcvmem_loop.simps) simp
  qed
qed

lemma grow_window_ok:
  assumes "win_law I" "rcv_ssthresh s \<le> window_clamp s"
  shows "\<exists>s'. tcp_grow_window I b s = Some s' \<and> rcv_ssthresh s' \<le> window_clamp s' \<and> window_clamp s' = window_clamp s"
proof -
  define t where "t = tcp_win_from_space I (uint (sg_truesize b))"
  have t: "0 \<le> t" "t < 2 ^ 32"
    using assms(1) uint_lt2p [of "sg_truesize b"] by (auto simp: win_law_def t_def intro: le_less_trans)
  then have "0 \<le> drop_bit 1 t" "drop_bit 1 t < 2 ^ 32" by (auto simp: drop_bit_eq_div)
  from grow_loop_total [OF this, of "rcv_ssthresh s" "sg_len b" "2 * uint (ack_rcv_mss (icsk_ack s))"]
  obtain r where "tcp_grow_window_slow I b s = Some r" by (auto simp: tcp_grow_window_slow_def t_def)
  with assms(2) show ?thesis by (auto simp: tcp_grow_window_def upd_ack_def)
qed

section \<open>A segment with data\<close>

text \<open>
  What the delayed acknowledgements rely on: the segment is at most what fits an IP packet, with a TCP
  header of at most 60 bytes, and the guess of the segment size is not zero.
\<close>

definition seg_ok :: "skb \<Rightarrow> bool" where
  "seg_ok b \<longleftrightarrow> sg_len b < 2 ^ 16 \<and> sg_pulled b \<le> 60"

definition tuning_ok :: "ienv \<Rightarrow> tcp_sock \<Rightarrow> bool" where
  "tuning_ok I s \<longleftrightarrow> ack_rcv_mss (icsk_ack s) \<noteq> 0 \<and> tcp_header_len s \<le> 60 \<and> rcv_ssthresh s \<le> window_clamp s"

definition mss_law :: "ienv \<Rightarrow> bool" where
  "mss_law I \<longleftrightarrow> TCP_MIN_MSS I = 88"

lemma uint_ucast16: "uint (ucast (w :: u16) :: u32) = uint w"
  by (rule uint_up_ucast) (simp add: is_up)

lemma grow_window_tuning:
  assumes "win_law I" "tuning_ok I s"
  shows "\<exists>s'. tcp_grow_window I b s = Some s' \<and> tuning_ok I s' \<and> window_clamp s' = window_clamp s"
proof -
  from assms obtain s' where s': "tcp_grow_window I b s = Some s'" "rcv_ssthresh s' \<le> window_clamp s'"
    "window_clamp s' = window_clamp s"
    using grow_window_ok unfolding tuning_ok_def by blast
  have "ack_rcv_mss (icsk_ack s') = ack_rcv_mss (icsk_ack s)" "tcp_header_len s' = tcp_header_len s"
    using s'(1) by (auto simp: tcp_grow_window_def upd_ack_def split: if_splits Option.bind_splits)
  with s' assms(2) show ?thesis by (simp add: tuning_ok_def)
qed

lemma ucast16_id: "ucast (ucast (w :: u16) :: u32) = w"
  by (rule ucast_up_ucast_id) (simp add: is_up)

lemma ucast16_zero: "(ucast (w :: u16) :: u32) = 0 \<longleftrightarrow> w = 0"
  by (metis uint_0_iff uint_ucast16)

lemma ucast16_nonzero:
  fixes w :: u32
  assumes "w \<noteq> 0" "w < 2 ^ 16"
  shows "(ucast w :: u16) \<noteq> 0"
proof
  assume "(ucast w :: u16) = 0"
  then have "uint (ucast w :: u16) = 0" by simp
  then have "uint w mod 2 ^ 16 = 0" by (simp add: unsigned_ucast_eq take_bit_eq_mod)
  moreover have "uint w < 2 ^ 16" using assms(2) by (simp add: word_less_def)
  ultimately have "uint w = 0" using uint_ge_0 [of w] by simp
  with assms(1) show False by (simp add: uint_0_iff)
qed

lemma measure_frame:
  "tcp_header_len (tcp_measure_rcv_mss I b s) = tcp_header_len s"
  "rcv_ssthresh (tcp_measure_rcv_mss I b s) = rcv_ssthresh s" "window_clamp (tcp_measure_rcv_mss I b s) = window_clamp s"
  by (simp_all add: tcp_measure_rcv_mss_def upd_ack_def Let_def)

lemma measure_rcv_mss_nonzero:
  assumes "mss_law I" "seg_ok b" "tcp_header_len s \<le> 60" "ack_rcv_mss (icsk_ack s) \<noteq> 0"
  shows "ack_rcv_mss (icsk_ack (tcp_measure_rcv_mss I b s)) \<noteq> 0"
proof -
  define len where "len = (if sg_gso_size b \<noteq> 0 then ucast (sg_gso_size b) else sg_len b)"
  have len: "len < 2 ^ 16"
  proof (cases "sg_gso_size b = 0")
    case True
    then show ?thesis using assms(2) by (simp add: len_def seg_ok_def)
  next
    case False
    have "uint (ucast (sg_gso_size b) :: u32) < 2 ^ 16"
      using uint_lt2p [of "sg_gso_size b"] by (simp add: uint_ucast16)
    with False show ?thesis by (simp add: len_def word_less_def)
  qed
  have big: "(ucast len :: u16) \<noteq> 0" if "ucast (ack_rcv_mss (icsk_ack s)) \<le> len"
  proof (rule ucast16_nonzero [OF _ len], rule notI)
    assume "len = 0"
    with that have "(ucast (ack_rcv_mss (icsk_ack s)) :: u32) = 0" by (simp add: word_le_0_iff)
    with assms(4) show False by (simp add: ucast16_zero)
  qed
  have lss: "ack_last_seg_size (icsk_ack s) \<noteq> 0"
    if "len1 - ucast (tcp_header_len s) = ucast (ack_last_seg_size (icsk_ack s))" "108 \<le> len1" for len1 :: u32
  proof
    assume "ack_last_seg_size (icsk_ack s) = 0"
    with that(1) have "len1 = ucast (tcp_header_len s)" by simp
    then have "uint len1 = uint (tcp_header_len s)" by (simp add: uint_ucast16)
    moreover have "uint (tcp_header_len s) \<le> 60" using assms(3) by (simp add: word_le_def)
    moreover have "108 \<le> uint len1" using that(2) by (simp add: word_le_def)
    ultimately show False by simp
  qed
  have least: "108 \<le> len1" if "TCP_MSS_DEFAULT + 20 \<le> len1 \<or> TCP_MIN_MSS I + 20 \<le> len1 \<and> Q" for len1 :: u32 and Q
    using that assms(1) by (auto simp: TCP_MSS_DEFAULT_def mss_law_def word_le_def)
  show ?thesis
    unfolding tcp_measure_rcv_mss_def Let_def len_def [symmetric]
    using big assms(4) lss [of "len + sg_pulled b"] least [of "len + sg_pulled b"] by (auto simp: upd_ack_def ucast16_id)
qed

lemma incr_quickack_ok:
  assumes "ack_rcv_mss (icsk_ack s) \<noteq> 0"
  shows "\<exists>q. tcp_incr_quickack I s = Some (upd_ack (\<lambda>a. a\<lparr>ack_quick := q\<rparr>) s)"
proof -
  define d :: u32 where "d = 2 * ucast (ack_rcv_mss (icsk_ack s))"
  have "uint d = 2 * uint (ack_rcv_mss (icsk_ack s))"
    using uint_lt2p [of "ack_rcv_mss (icsk_ack s)"] by (simp add: d_def uint_word_ariths uint_ucast16)
  then have d: "d \<noteq> 0" using assms by (auto simp: uint_0_iff)
  define q where "q = (if rcv_wnd s div d = 0 then 2 else rcv_wnd s div d)"
  have s: "upd_ack (\<lambda>a. a\<lparr>ack_quick := ack_quick (icsk_ack s)\<rparr>) s = s" by (simp add: upd_ack_def)
  have "tcp_incr_quickack I s = Some (if ucast (ack_quick (icsk_ack s)) < q
      then upd_ack (\<lambda>a. a\<lparr>ack_quick := ucast (min q (TCP_MAX_QUICKACKS I))\<rparr>) s else s)"
    unfolding tcp_incr_quickack_def Let_def d_def [symmetric] q_def by (simp only: d if_False)
  then show ?thesis using s by (cases "ucast (ack_quick (icsk_ack s)) < q") (auto intro: exI [of _ "ack_quick (icsk_ack s)"])
qed

text \<open>What is kept by every function called for a segment with data.\<close>

definition tuning_frame :: "tcp_sock \<Rightarrow> tcp_sock \<Rightarrow> bool" where
  "tuning_frame s s' \<longleftrightarrow> ack_rcv_mss (icsk_ack s') = ack_rcv_mss (icsk_ack s) \<and> tcp_header_len s' = tcp_header_len s \<and>
     rcv_ssthresh s' = rcv_ssthresh s \<and> window_clamp s' = window_clamp s"

lemma tuning_frame_ok: "tuning_frame s s' \<Longrightarrow> tuning_ok I s \<Longrightarrow> tuning_ok I s'"
  by (simp add: tuning_frame_def tuning_ok_def)

lemma tuning_frame_trans: "tuning_frame s s' \<Longrightarrow> tuning_frame s' s'' \<Longrightarrow> tuning_frame s s''"
  by (simp add: tuning_frame_def)

lemma enter_quickack_ok:
  assumes "ack_rcv_mss (icsk_ack s) \<noteq> 0"
  shows "\<exists>s'. tcp_enter_quickack_mode I s = Some s' \<and> tuning_frame s s'"
  using incr_quickack_ok [OF assms, of I] by (auto simp: tcp_enter_quickack_mode_def tuning_frame_def upd_ack_def)

lemma check_ce_ok:
  assumes "ack_rcv_mss (icsk_ack s) \<noteq> 0"
  shows "\<exists>s'. TCP_ECN_check_ce I b s = Some s' \<and> tuning_frame s s'"
proof -
  obtain s1 where "tcp_enter_quickack_mode I s = Some s1" "tuning_frame s s1" using enter_quickack_ok [OF assms] by blast
  then show ?thesis by (simp add: TCP_ECN_check_ce_def Let_def) (simp add: tuning_frame_def)
qed

lemma event_data_recv_ok:
  assumes law: "win_law I" "mss_law I" and b: "seg_ok b" and s: "tuning_ok I s"
  shows "\<exists>s'. tcp_event_data_recv I b s = Some s' \<and> tuning_ok I s' \<and> window_clamp s' = window_clamp s"
proof -
  define s1 where "s1 = tcp_rcv_rtt_measure I (tcp_measure_rcv_mss I b (inet_csk_schedule_ack s))"
  have sched: "tuning_frame s (inet_csk_schedule_ack s)"
    by (simp add: tuning_frame_def inet_csk_schedule_ack_def upd_ack_def)
  have rtt: "tuning_frame x (tcp_rcv_rtt_measure I x)" for x
    by (simp add: tuning_frame_def tcp_rcv_rtt_measure_def tcp_rcv_rtt_update_def Let_def)
  have "tuning_ok I (tcp_measure_rcv_mss I b (inet_csk_schedule_ack s))"
    using measure_rcv_mss_nonzero [OF law(2) b] tuning_frame_ok [OF sched s] by (simp add: tuning_ok_def measure_frame)
  then have s1: "tuning_ok I s1" unfolding s1_def by (rule tuning_frame_ok [OF rtt])
  have clamp: "window_clamp s1 = window_clamp s"
    using rtt sched by (simp add: s1_def tuning_frame_def measure_frame)
  define ato where "ato = ack_ato (icsk_ack s1)"
  define m where "m = tcp_time_stamp I - ack_lrcvtime (icsk_ack s1)"
  obtain q where q: "tcp_incr_quickack I s1 = Some (upd_ack (\<lambda>a. a\<lparr>ack_quick := q\<rparr>) s1)"
    using incr_quickack_ok s1 unfolding tuning_ok_def by blast
  have "\<exists>s2. (if ato = 0 then map_option (upd_ack (\<lambda>a. a\<lparr>ack_ato := TCP_ATO_MIN I\<rparr>)) (tcp_incr_quickack I s1)
            else if m \<le> TCP_ATO_MIN I div 2
                    then Some (upd_ack (\<lambda>a. a\<lparr>ack_ato := drop_bit 1 ato + TCP_ATO_MIN I div 2\<rparr>) s1)
                    else if m < ato
                    then Some (upd_ack (\<lambda>a. a\<lparr>ack_ato := (if icsk_rto s1 < drop_bit 1 ato + m then icsk_rto s1
                                                         else drop_bit 1 ato + m)\<rparr>) s1)
                    else if icsk_rto s1 < m then map_option (sk_mem_reclaim I) (tcp_incr_quickack I s1)
                    else Some s1) = Some s2 \<and> tuning_frame s1 s2"
    unfolding q by (simp add: tuning_frame_def upd_ack_def sk_mem_reclaim_def)
  then obtain s2 where s2: "tcp_event_data_recv I b s = do {
       s3 \<leftarrow> TCP_ECN_check_ce I b (upd_ack (\<lambda>a. a\<lparr>ack_lrcvtime := tcp_time_stamp I\<rparr>) s2);
       if 128 \<le> sg_len b then tcp_grow_window I b s3 else Some s3 }" "tuning_frame s1 s2"
    unfolding tcp_event_data_recv_def Let_def s1_def [symmetric] ato_def [symmetric] m_def [symmetric] by fastforce
  have "tuning_frame s1 (upd_ack (\<lambda>a. a\<lparr>ack_lrcvtime := tcp_time_stamp I\<rparr>) s2)"
    using s2(2) by (simp add: tuning_frame_def upd_ack_def)
  moreover from this s1 have "tuning_ok I (upd_ack (\<lambda>a. a\<lparr>ack_lrcvtime := tcp_time_stamp I\<rparr>) s2)"
    by (rule tuning_frame_ok)
  ultimately obtain s3 where s3: "TCP_ECN_check_ce I b (upd_ack (\<lambda>a. a\<lparr>ack_lrcvtime := tcp_time_stamp I\<rparr>) s2) = Some s3"
    "tuning_frame s1 s3"
    using check_ce_ok tuning_frame_trans unfolding tuning_ok_def by blast
  from tuning_frame_ok [OF this(2) s1] have t3: "tuning_ok I s3" .
  then obtain s4 where "tcp_grow_window I b s3 = Some s4" "tuning_ok I s4" "window_clamp s4 = window_clamp s3"
    using grow_window_tuning [OF law(1)] by blast
  then show ?thesis unfolding s2(1) s3(1) using t3 s3(2) clamp by (simp add: tuning_frame_def)
qed

section \<open>A new connection\<close>

lemma fixup_rcvbuf_ok:
  assumes "win_law I"
  shows "\<exists>n. tcp_fixup_rcvbuf I s = Some (s\<lparr>sk_rcvbuf := n\<rparr>)"
proof -
  define mss :: u32 where "mss = ucast (advmss s)"
  have mss: "0 \<le> uint mss" "uint mss \<le> 65535"
    using uint_lt2p [of "advmss s"] by (simp_all add: mss_def uint_ucast16)
  have big: "\<not> word_of_int (tcp_win_from_space I m) < mss" if "2 ^ 20 \<le> m" "m < 2 ^ 20 + 128" for m
  proof -
    have "65535 \<le> tcp_win_from_space I m" "tcp_win_from_space I m \<le> m"
      using assms that(1) by (simp_all add: win_law_def)
    then have "mss \<le> word_of_int (tcp_win_from_space I m)"
      using mss that(2) by (subst word_of_int_small_le(2)) simp_all
    then show ?thesis by (simp add: not_less)
  qed
  have "SKB_TRUESIZE I (uint mss + MAX_TCP_HEADER I) < 2 ^ 20 + 128"
    using assms mss unfolding win_law_def by force
  from rcvmem_loop_total [of "2 ^ 20" "\<lambda>m. word_of_int (tcp_win_from_space I m) < mss", OF big this] obtain r where
    "rcvmem_loop (\<lambda>m. word_of_int (tcp_win_from_space I m) < mss) (SKB_TRUESIZE I (uint mss + MAX_TCP_HEADER I)) = Some r"
    by blast
  then obtain n where "tcp_fixup_rcvbuf I s = Some (if sk_rcvbuf s < n then s\<lparr>sk_rcvbuf := min n (sysctl_tcp_rmem_max I)\<rparr> else s)"
    unfolding tcp_fixup_rcvbuf_def Let_def mss_def [symmetric] by simp
  then show ?thesis by (cases "sk_rcvbuf s < n") (auto intro: exI [of _ "sk_rcvbuf s"])
qed

lemma init_buffer_space_ok:
  assumes "win_law I"
  shows "\<exists>s'. tcp_init_buffer_space I s = Some s' \<and> rcv_ssthresh s' \<le> window_clamp s' \<and> rcv_ssthresh s' \<le> rcv_ssthresh s \<and>
     icsk_ack s' = icsk_ack s \<and> tcp_header_len s' = tcp_header_len s"
proof -
  obtain s1 where s1: "(if \<not> sk_rcvbuf_lock s then tcp_fixup_rcvbuf I s else Some s) = Some s1"
    "rcv_ssthresh s1 = rcv_ssthresh s" "icsk_ack s1 = icsk_ack s" "tcp_header_len s1 = tcp_header_len s"
    using fixup_rcvbuf_ok [OF assms, of s] by (cases "sk_rcvbuf_lock s") auto
  show ?thesis unfolding tcp_init_buffer_space_def s1(1) Let_def
    by (simp add: s1(2-) tcp_fixup_sndbuf_def Let_def min.coboundedI1)
qed

end
