(* ===== verification/Tcp_Input_Example.thy ===== *)
theory Tcp_Input_Example
  imports Tcp_Minisocks_Props Tcp_Tuning_Correct
begin

text \<open>A concrete environment of the input path, an established connection and a segment with ten bytes of data.\<close>

definition copy_bytes :: "skb \<Rightarrow> int \<Rightarrow> int \<Rightarrow> u8 list option" where
  "copy_bytes b offset len =
     (if 0 \<le> offset \<and> 0 \<le> len \<and> offset + len \<le> int (length (sg_bytes b))
      then Some (take (nat len) (drop (nat offset) (sg_bytes b))) else None)"

definition I0 :: ienv where
  "I0 = \<lparr>
     mv = M0, TCP_MIN_MSS = 88, TCP_MAX_QUICKACKS = 16, TCP_ATO_MIN = 40, TCP_DELACK_MAX = 200,
     TCP_RTO_MAX = 120000, TCP_PAWS_WINDOW = 1, TCP_ECN_QUEUE_CWR = 2, TCP_ECN_DEMAND_CWR = 4,
     TCP_ECN_SEEN = 8, INET_ECN_MASK = 3, INET_ECN_NOT_ECT = 0, INET_ECN_CE = 3, TCP_URG_NOTYET = 0x0200,
     TCP_URG_VALID = 0x0100, TCP_DEFAULT_INIT_RCVWND = 10, MAX_TCP_HEADER = 320, SKB_TRUESIZE =
     (\<lambda>n. n + 576), sysctl_tcp_rmem_max = 4194304, sysctl_tcp_wmem_max = 4194304,
     sysctl_tcp_app_win = 31, sysctl_tcp_moderate_rcvbuf = True, sysctl_tcp_stdurg = False,
     tcp_memory_pressure = False, tcp_memory_low = True, tcp_time_stamp = 1000, clock = 1000,
     SK_MEM_QUANTUM = 4096, tcp_win_from_space = (\<lambda>n. n - n div 4), tcp_space = (\<lambda>s.
     (sk_rcvbuf s - sk_rmem_alloc s) - (sk_rcvbuf s - sk_rmem_alloc s) div 4), tcp_full_space =
     (\<lambda>s. sk_rcvbuf s - sk_rcvbuf s div 4), tcp_rto_min = 200, tcp_set_rto_value = (\<lambda>a v.
     drop_bit 3 a + v), tcp_bound_rto = (\<lambda>r. min r 120000), sk_mem_schedule = (\<lambda>n s.
     (True, sk_forward_alloc s + n)), sk_mem_reclaimed = (\<lambda>n. n mod 4096), sock_rfree =
     (\<lambda>b s. sk_mem_uncharge (uint (sg_truesize b)) (s\<lparr>sk_rmem_alloc := sk_rmem_alloc s -
     uint (sg_truesize b)\<rparr>)), skb_pull = (\<lambda>n b. b\<lparr>sg_len := sg_len b - n, sg_pulled
     := sg_pulled b + n, sg_bytes := drop (unat n) (sg_bytes b)\<rparr>), skb_copy_bits = copy_bytes,
     skb_copy_datagram_iovec = copy_bytes, skb_headroom = (\<lambda>b. 66), SKB_MAX_ORDER = (\<lambda>n.
     3776 - n), alloc_skb = (\<lambda>n. Some (word_of_int n + 576)), tcp_select_window = rcv_wnd,
     tcp_wnd_end = (\<lambda>s. snd_una s + snd_wnd s), tcp_is_sack = (\<lambda>rx. sack_ok rx \<noteq>
     0), tcp_fast_path_check = (\<lambda>s. s), tcp_fast_path_on = (\<lambda>s. s), tcp_set_state =
     (\<lambda>st s. s\<lparr>sk_state := st\<rparr>), tcp_done = (\<lambda>s. s\<lparr>sk_state :=
     TCP_CLOSE, sk_shutdown := SHUTDOWN_MASK\<rparr>), tcp_send_ack = (\<lambda>s. s),
     tcp_send_delayed_ack = (\<lambda>s. s), tw_template = closing0\<rparr>"

definition tsk0 :: tcp_sock where
  "tsk0 = \<lparr>
     sk_state = TCP_ESTABLISHED, sk_shutdown = 0, sk_err = 0, sk_err_soft = 0, sk_dead = False, sk_done =
     False, sk_urginline = False, sk_keepopen = False, sk_queue_shrunk = False, sk_socket = True,
     sk_nospace = False, sk_owned = False, sk_rcvbuf = 87380, sk_sndbuf = 16384, sk_rmem_alloc = 0,
     sk_forward_alloc = 4096, sk_rcvbuf_lock = False, sk_sndbuf_lock = False, sk_write_pending = False,
     sk_wmem_queued = 0, sk_dst = None, sk_receive_queue = [], sk_write_queue = [], sk_send_queue = [], sk_events = [], icsk_timeout = 0, icsk_rto = 3000,
     icsk_pmtu_cookie = 0, icsk_pending = 0, icsk_backoff = 0, icsk_probes_out = 0, icsk_retransmits = 0, icsk_ca_state =
     TCP_CA_Open, icsk_defer_accept = 0, icsk_ack = \<lparr>ack_pending = 0, ack_quick = 0, ack_pingpong
     = 0, ack_blocked = 0, ack_ato = 0, ack_timeout = 0, ack_lrcvtime = 0, ack_last_seg_size = 0,
     ack_rcv_mss = 536\<rparr>, icsk_keepalive = None, mtup_search_high = 0, mtup_search_low = 0, mtup_probe_size = 0, tcp_header_len = 20, pred_flags = 0, rcv_nxt =
     101, copied_seq = 101, rcv_wup = 101, snd_nxt = 501, snd_una = 501, rcv_tstamp = 0, lsndtime = 0,
     ucopy_current = False, ucopy_len = 0, ucopy_done = [], snd_wl1 = 0, snd_wnd = 5840, max_window =
     5840, mss_cache = 1460, window_clamp = 5840, rcv_ssthresh = 5840, advmss = 1460, srtt = 0, mdev = 0,
     mdev_max = 0, rttvar = 0, rtt_seq = 0, packets_out = 0, sacked_out = 0, fackets_out = 0,
     frto_counter = 0, frto_highmark = 0, bytes_acked = 0, urg_data = 0, ecn_flags = 0, reordering = 3,
     rx_opt = rx0\<lparr>tstamp_ok := False, sack_ok := 1\<rparr>, snd_ssthresh = 2147483647, snd_cwnd =
     10, snd_cwnd_stamp = 0, rcv_wnd = 5840, write_seq = 501, out_of_order_queue = [], duplicate_sack =
     \<lparr>start_seq = 0, end_seq = 0\<rparr>, selective_acks = replicate 4 \<lparr>start_seq = 0,
     end_seq = 0\<rparr>, retrans_stamp = 0, urg_seq = 0, linger2 = 0, retrans_out = 0, lost_out = 0, snd_up = 0, thin_dupack = False, snd_cwnd_cnt = 0, snd_cwnd_clamp = 0xFFFF,
     snd_cwnd_used = 0, prior_cwnd = 0, prr_delivered = 0, prr_out = 0, lost_skb_hint = None, scoreboard_skb_hint = None,
     retransmit_skb_hint = None, recv_sack_cache = replicate 4 \<lparr>start_seq = 0, end_seq = 0\<rparr>, highest_sack = None,
     lost_cnt_hint = 0, retransmit_high = 0, lost_retrans_low = 0, prior_ssthresh = 0, high_seq = 0, undo_marker = 0,
     undo_retrans = 0, total_retrans = 0, probe_seq_start = 0, probe_seq_end = 0, cookie_values = None, rcv_rtt_est = \<lparr>est_rtt = 0,
     est_seq = 0, est_time = 0\<rparr>, rcvq_space = \<lparr>rcvq_bytes = 0, rcvq_seq = 0, rcvq_time =
     0\<rparr>\<rparr>"

definition skb0 :: skb where
  "skb0 = \<lparr>
     sg_seq = 101, sg_end_seq = 111, sg_ack_seq = 501, sg_fin = False, sg_syn = False, sg_rst = False,
     sg_ack = True, sg_doff = 5, sg_opts = replicate 10 0, sg_window = 5840, sg_len = 30, sg_psh = False,
     sg_urg = False, sg_ece = False, sg_cwr = False, sg_urg_ptr = 0, sg_flag_word = 0, sg_truesize = 640,
     sg_gso_size = 0, sg_dsfield = 0, sg_pulled = 0, sg_sacked = 0, sg_bytes = replicate 30 7\<rparr>"

lemma I0_simps [simp]:
  "mv I0 = M0" "TCP_MIN_MSS I0 = 88" "TCP_MAX_QUICKACKS I0 = 16" "TCP_ATO_MIN I0 = 40" "TCP_DELACK_MAX I0 = 200"
  "TCP_RTO_MAX I0 = 120000" "TCP_PAWS_WINDOW I0 = 1" "TCP_ECN_QUEUE_CWR I0 = 2" "TCP_ECN_DEMAND_CWR I0 = 4"
  "TCP_ECN_SEEN I0 = 8" "INET_ECN_MASK I0 = 3" "INET_ECN_NOT_ECT I0 = 0" "INET_ECN_CE I0 = 3" "TCP_URG_NOTYET I0 = 0x0200" "TCP_URG_VALID I0 = 0x0100"
  "TCP_DEFAULT_INIT_RCVWND I0 = 10" "MAX_TCP_HEADER I0 = 320" "sysctl_tcp_rmem_max I0 = 4194304"
  "sysctl_tcp_wmem_max I0 = 4194304" "sysctl_tcp_app_win I0 = 31" "tcp_time_stamp I0 = 1000" "clock I0 = 1000"
  "SK_MEM_QUANTUM I0 = 4096" "tcp_rto_min I0 = 200"
  by (simp_all add: I0_def)

lemma I0_laws: "rto_law I0" "win_law I0" "mss_law I0"
proof -
  show "rto_law I0" "mss_law I0" by (simp_all add: rto_law_def mss_law_def I0_def)
  show "win_law I0" unfolding win_law_def by (simp add: I0_def) linarith
qed

end
