(* ===== verification/Tcp_Tuning_Props.thy ===== *)
theory Tcp_Tuning_Props
  imports Tcp_Input_Example
begin

text \<open>The properties of the estimators and of window tuning.\<close>

text \<open>C29.
  One measurement of the round trip time. When no measurement exceeds a bound \<open>B\<close> (below 2^28 ticks), nothing wraps
  around: the smoothed time is the old one moved by an eighth of the error, never zero and at most \<open>8 B\<close>; the
  deviations stay in their bounds. The timeout computed next is at least the least timeout, without a
  lower clamp, as the comment in \<open>tcp_set_rto\<close> claims, and at most the largest one.
\<close>

theorem rtt_estimator_bounds:
  assumes "rto_law I" "rtt_inv I B s" "1 \<le> B" "B \<le> 2 ^ 28" "uint mrtt \<le> B"
  shows "rtt_inv I B (tcp_rtt_estimator I mrtt s) \<and>
     uint (srtt (tcp_rtt_estimator I mrtt s)) = smooth (uint (srtt s)) (max 1 (uint mrtt)) \<and>
     1 \<le> uint (srtt (tcp_rtt_estimator I mrtt s)) \<and>
     tcp_rto_min I \<le> icsk_rto (tcp_set_rto I (tcp_rtt_estimator I mrtt s)) \<and>
     icsk_rto (tcp_set_rto I (tcp_rtt_estimator I mrtt s)) \<le> TCP_RTO_MAX I"
proof -
  let ?s = "tcp_rtt_estimator I mrtt s"
  have upd: "rtt_inv I B ?s \<and> uint (srtt ?s) = smooth (uint (srtt s)) (max 1 (uint mrtt))"
    using rtt_first_ok [OF assms(1) _ assms(3-5), of s] rtt_next_ok [OF assms(1) _ assms(2-5)] by (cases "srtt s = 0") auto
  moreover have least: "1 \<le> uint (srtt ?s)"
    unfolding conjunct2 [OF upd] using assms(2,3,5) by (intro smooth_bounds(1) [of _ B]) (auto simp: rtt_inv_def)
  moreover from least have "srtt ?s \<noteq> 0" by auto
  ultimately show ?thesis
    using set_rto_least [OF assms(1) _ _ assms(3,4)] by blast
qed

theorem rtt_estimator_bounds_witness:
  "uint (srtt (tcp_rtt_estimator I0 100 tsk0)) = 800 \<and> 200 \<le> icsk_rto (tcp_set_rto I0 (tcp_rtt_estimator I0 100 tsk0))"
proof -
  have "rtt_inv I0 1000 tsk0" by (simp add: rtt_inv_def tsk0_def)
  from rtt_estimator_bounds [OF I0_laws(1) this, of 100] show ?thesis
    by (simp add: smooth_def tsk0_def)
qed



end
