(* ===== verification/Tcp_Rcvq.thy ===== *)
theory Tcp_Rcvq
  imports Tcp_Tuning
begin

text \<open>
  The receive side of \<^verbatim>\<open>net/ipv4/tcp_input.c\<close>: the tests of sequence numbers and timestamps, resets, the FIN,
  the receive queue with the out-of-order queue, and the collapsing and pruning of both when
  memory runs out. Positions in a queue (\<^verbatim>\<open>skb1\<close>, \<^verbatim>\<open>head\<close>, \<^verbatim>\<open>tail\<close>) are splits of the list. \<^verbatim>\<open>BUG\<close> is \<^term>\<open>None\<close>.
\<close>

definition EPIPE :: int where "EPIPE = 32"
definition ECONNRESET :: int where "ECONNRESET = 104"
definition ECONNREFUSED :: int where "ECONNREFUSED = 111"

section \<open>Timestamps and sequence numbers\<close>

definition tcp_store_ts_recent :: "ienv \<Rightarrow> tcp_sock \<Rightarrow> tcp_sock" where
  "tcp_store_ts_recent I s =
     s\<lparr>rx_opt := (rx_opt s)\<lparr>ts_recent := rcv_tsval (rx_opt s), ts_recent_stamp := get_seconds (tv I)\<rparr>\<rparr>"

definition tcp_replace_ts_recent :: "ienv \<Rightarrow> u32 \<Rightarrow> tcp_sock \<Rightarrow> tcp_sock" where
  "tcp_replace_ts_recent I sq s =
     (if saw_tstamp (rx_opt s) \<and> \<not> after (tv I) sq (rcv_wup s) \<and> tcp_paws_check (tv I) (rx_opt s) 0
      then tcp_store_ts_recent I s else s)"

definition tcp_may_update_window :: "ienv \<Rightarrow> u32 \<Rightarrow> u32 \<Rightarrow> u32 \<Rightarrow> tcp_sock \<Rightarrow> bool" where
  "tcp_may_update_window I ack ack_seq nwin s \<longleftrightarrow>
     after (tv I) ack (snd_una s) \<or> after (tv I) ack_seq (snd_wl1 s) \<or> (ack_seq = snd_wl1 s \<and> snd_wnd s < nwin)"

definition tcp_disordered_ack :: "ienv \<Rightarrow> skb \<Rightarrow> tcp_sock \<Rightarrow> bool" where
  "tcp_disordered_ack I b s \<longleftrightarrow>
     sg_ack b \<and> sg_seq b = sg_end_seq b \<and> sg_seq b = rcv_nxt s \<and> sg_ack_seq b = snd_una s \<and>
     \<not> tcp_may_update_window I (sg_ack_seq b) (sg_seq b) (push_bit (unat (snd_wscale (rx_opt s))) (ucast (sg_window b))) s \<and>
     ts_recent (rx_opt s) - rcv_tsval (rx_opt s) \<le> (icsk_rto s * 1024) div HZ (mv I)"

definition tcp_paws_discard :: "ienv \<Rightarrow> skb \<Rightarrow> tcp_sock \<Rightarrow> bool" where
  "tcp_paws_discard I b s \<longleftrightarrow> \<not> tcp_paws_check (tv I) (rx_opt s) (TCP_PAWS_WINDOW I) \<and> \<not> tcp_disordered_ack I b s"

definition tcp_sequence :: "ienv \<Rightarrow> u32 \<Rightarrow> u32 \<Rightarrow> tcp_sock \<Rightarrow> bool" where
  "tcp_sequence I sq esq s \<longleftrightarrow>
     \<not> before (tv I) esq (rcv_wup s) \<and> \<not> after (tv I) sq (rcv_nxt s + rcv_window I s)"

section \<open>Reset and FIN\<close>

definition tcp_reset :: "ienv \<Rightarrow> tcp_sock \<Rightarrow> tcp_sock" where
  "tcp_reset I s =
     (if sk_state s = TCP_CLOSE then s
      else let s1 = s\<lparr>sk_err := (case sk_state s of TCP_SYN_SENT \<Rightarrow> ECONNREFUSED | TCP_CLOSE_WAIT \<Rightarrow> EPIPE
                                                 | _ \<Rightarrow> ECONNRESET)\<rparr>;
               s2 = (if \<not> sk_dead s1 then sk_event Error_report s1 else s1)
           in tcp_done I s2)"

text \<open>Purging a queue frees its buffers, which are owned by the socket.\<close>

definition purge_ofo :: "ienv \<Rightarrow> tcp_sock \<Rightarrow> tcp_sock" where
  "purge_ofo I s = (fold (sock_rfree I) (out_of_order_queue s) s)\<lparr>out_of_order_queue := []\<rparr>"

definition reset_sacks :: "ienv \<Rightarrow> tcp_sock \<Rightarrow> tcp_sock" where
  "reset_sacks I s = s\<lparr>rx_opt := tcp_sack_reset (tv I) (rx_opt s)\<rparr>"

definition fin_state :: "ienv \<Rightarrow> tcp_sock \<Rightarrow> tcp_sock" where
  "fin_state I s =
     (case sk_state s of
        TCP_SYN_RECV \<Rightarrow> upd_ack (\<lambda>a. a\<lparr>ack_pingpong := 1\<rparr>) (tcp_set_state I TCP_CLOSE_WAIT s)
      | TCP_ESTABLISHED \<Rightarrow> upd_ack (\<lambda>a. a\<lparr>ack_pingpong := 1\<rparr>) (tcp_set_state I TCP_CLOSE_WAIT s)
      | TCP_FIN_WAIT1 \<Rightarrow> tcp_set_state I TCP_CLOSING (send_ack I s)
      | TCP_FIN_WAIT2 \<Rightarrow> to_time_wait I TCP_TIME_WAIT 0 (send_ack I s)
      | _ \<Rightarrow> s)"

definition tcp_fin :: "ienv \<Rightarrow> tcp_sock \<Rightarrow> tcp_sock" where
  "tcp_fin I s =
     (let s1 = inet_csk_schedule_ack s;
          s2 = fin_state I (s1\<lparr>sk_shutdown := sk_shutdown s1 OR RCV_SHUTDOWN, sk_done := True\<rparr>);
          s3 = purge_ofo I s2;
          s4 = (if tcp_is_sack I (rx_opt s3) then reset_sacks I s3 else s3);
          s5 = sk_mem_reclaim I s4
      in if \<not> sk_dead s5
         then sk_event (Wake_async (if sk_shutdown s5 = SHUTDOWN_MASK \<or> sk_state s5 = TCP_CLOSE then POLL_HUP else POLL_IN))
                (sk_event State_change s5)
         else s5)"

section \<open>Duplicates and selective acknowledgements\<close>

definition dsack_set :: "ienv \<Rightarrow> u32 \<Rightarrow> u32 \<Rightarrow> tcp_sock \<Rightarrow> tcp_sock" where
  "dsack_set I sq esq s =
     (case tcp_dsack_set (tv I) (tcp_is_sack I (rx_opt s)) sq esq (dsack (rx_opt s), duplicate_sack s) of (d, blk) \<Rightarrow>
        s\<lparr>rx_opt := (rx_opt s)\<lparr>dsack := d\<rparr>, duplicate_sack := blk\<rparr>)"

definition dsack_extend :: "ienv \<Rightarrow> u32 \<Rightarrow> u32 \<Rightarrow> tcp_sock \<Rightarrow> tcp_sock" where
  "dsack_extend I sq esq s =
     (case tcp_dsack_extend (tv I) (tcp_is_sack I (rx_opt s)) sq esq (dsack (rx_opt s), duplicate_sack s) of (d, blk) \<Rightarrow>
        s\<lparr>rx_opt := (rx_opt s)\<lparr>dsack := d\<rparr>, duplicate_sack := blk\<rparr>)"

definition tcp_send_dupack :: "ienv \<Rightarrow> skb \<Rightarrow> tcp_sock \<Rightarrow> tcp_sock option" where
  "tcp_send_dupack I b s = do {
     s1 \<leftarrow> (if sg_end_seq b \<noteq> sg_seq b \<and> before (tv I) (sg_seq b) (rcv_nxt s) then do {
              s1 \<leftarrow> tcp_enter_quickack_mode I s;
              Some (if tcp_is_sack I (rx_opt s1) \<and> sysctl_tcp_dsack (tv I)
                    then dsack_set I (sg_seq b)
                           (if after (tv I) (sg_end_seq b) (rcv_nxt s1) then rcv_nxt s1 else sg_end_seq b) s1
                    else s1) }
            else Some s);
     Some (send_ack I s1) }"

definition upd_sacks :: "(nat \<times> tcp_sack_block list \<Rightarrow> (nat \<times> tcp_sack_block list) option) \<Rightarrow> tcp_sock \<Rightarrow> tcp_sock option" where
  "upd_sacks f s = do {
     (n, a) \<leftarrow> f (unat (num_sacks (rx_opt s)), selective_acks s);
     Some (s\<lparr>rx_opt := (rx_opt s)\<lparr>num_sacks := of_nat n\<rparr>, selective_acks := a\<rparr>) }"

section \<open>From the out-of-order queue to the receive queue\<close>

partial_function (option) ofo_loop :: "ienv \<Rightarrow> u32 \<Rightarrow> tcp_sock \<Rightarrow> tcp_sock option" where
  "ofo_loop I dsack_high s =
     (case out_of_order_queue s of
        [] \<Rightarrow> Some s
      | b # q \<Rightarrow>
          if after (tv I) (sg_seq b) (rcv_nxt s) then Some s
          else let overlap = before (tv I) (sg_seq b) dsack_high;
                   s1 = (if overlap then dsack_extend I (sg_seq b) dsack_high s else s);
                   high = (if overlap \<and> before (tv I) (sg_end_seq b) dsack_high then sg_end_seq b else dsack_high)
               in if \<not> after (tv I) (sg_end_seq b) (rcv_nxt s1)
                  then ofo_loop I high (sock_rfree I b (s1\<lparr>out_of_order_queue := q\<rparr>))
                  else let s2 = s1\<lparr>out_of_order_queue := q, sk_receive_queue := sk_receive_queue s1 @ [b],
                                  rcv_nxt := sg_end_seq b\<rparr>
                       in ofo_loop I high (if sg_fin b then tcp_fin I s2 else s2))"

definition tcp_ofo_queue :: "ienv \<Rightarrow> tcp_sock \<Rightarrow> tcp_sock option" where
  "tcp_ofo_queue I s = ofo_loop I (rcv_nxt s) s"

section \<open>Collapsing\<close>

text \<open>
  \<open>q\<close> is the part of the queue from \<^verbatim>\<open>head\<close> up to \<^verbatim>\<open>tail\<close>. The first loop: buffers without new data are freed, others
  are skipped (to \<open>pre\<close>) until one that is worth collapsing.
\<close>

fun collapse_scan ::
    "ienv \<Rightarrow> u32 \<Rightarrow> skb list \<Rightarrow> skb list \<Rightarrow> tcp_sock \<Rightarrow> bool \<times> u32 \<times> skb list \<times> skb list \<times> tcp_sock" where
  "collapse_scan I start pre [] s = (True, start, pre, [], s)"
| "collapse_scan I start pre (b # q) s =
     (if \<not> before (tv I) start (sg_end_seq b) then collapse_scan I start pre q (sock_rfree I b s)
      else if \<not> sg_syn b \<and> \<not> sg_fin b \<and>
              (sg_len b < word_of_int (tcp_win_from_space I (uint (sg_truesize b))) \<or> before (tv I) (sg_seq b) start)
      then (False, start, pre, b # q, s)
      else if q \<noteq> [] \<and> sg_end_seq b \<noteq> sg_seq (hd q) then (False, start, pre, b # q, s)
      else collapse_scan I (sg_end_seq b) (pre @ [b]) q s)"

text \<open>
  The innermost loop copies \<open>copy\<close> bytes into the new buffer \<open>n\<close> and frees the buffers that are used up. The first
  result says that the function returns: there is no further buffer to collapse.
\<close>

partial_function (option) collapse_fill ::
    "ienv \<Rightarrow> u32 \<Rightarrow> int \<Rightarrow> skb \<Rightarrow> skb list \<Rightarrow> tcp_sock \<Rightarrow> (bool \<times> u32 \<times> skb \<times> skb list \<times> tcp_sock) option" where
  "collapse_fill I start copy n q s =
     (case q of
        [] \<Rightarrow> None
      | b # q1 \<Rightarrow>
          if copy \<le> 0 then Some (False, start, n, q, s)
          else let offset = sint (start - sg_seq b); avail = sint (sg_end_seq b - start)
               in if offset < 0 then None
                  else do {
                    (start1, copy1, n1) \<leftarrow>
                      (if 0 < avail then do {
                         let sz = min copy avail;
                         bytes \<leftarrow> skb_copy_bits I b offset sz;
                         Some (start + word_of_int sz, copy - sz,
                               n\<lparr>sg_end_seq := sg_end_seq n + word_of_int sz, sg_len := sg_len n + word_of_int sz,
                                 sg_bytes := sg_bytes n @ bytes\<rparr>) }
                       else Some (start, copy, n));
                    if \<not> before (tv I) start1 (sg_end_seq b) then
                      let s1 = sock_rfree I b s
                      in if q1 = [] \<or> sg_syn (hd q1) \<or> sg_fin (hd q1) then Some (True, start1, n1, q1, s1)
                         else collapse_fill I start1 copy1 n1 q1 s1
                    else collapse_fill I start1 copy1 n1 q s })"

text \<open>The loop over new buffers; \<open>pre\<close> is what stands before the buffer that is being collapsed.\<close>

partial_function (option) collapse_copy ::
    "ienv \<Rightarrow> u32 \<Rightarrow> u32 \<Rightarrow> skb list \<Rightarrow> skb list \<Rightarrow> tcp_sock \<Rightarrow> (skb list \<times> tcp_sock) option" where
  "collapse_copy I lim start pre q s =
     (case q of
        [] \<Rightarrow> None
      | b # q1 \<Rightarrow>
          if \<not> before (tv I) start lim then Some (pre @ q, s)
          else let header = skb_headroom I b; room = SKB_MAX_ORDER I header
               in if room < 0 then Some (pre @ q, s)
                  else let copy = (if lim - start < word_of_int room then uint (lim - start) else room)
                       in case alloc_skb I (copy + header) of
                            None \<Rightarrow> Some (pre @ q, s)
                          | Some truesize \<Rightarrow> do {
                              let n = b\<lparr>sg_seq := start, sg_end_seq := start, sg_len := 0, sg_bytes := [],
                                       sg_truesize := truesize, sg_gso_size := 0\<rparr>;
                              (stop, start1, n1, q2, s1) \<leftarrow> collapse_fill I start copy n q (skb_set_owner_r n s);
                              if stop then Some (pre @ [n1] @ q2, s1)
                              else collapse_copy I lim start1 (pre @ [n1]) q2 s1 })"

definition tcp_collapse :: "ienv \<Rightarrow> u32 \<Rightarrow> u32 \<Rightarrow> skb list \<Rightarrow> tcp_sock \<Rightarrow> (skb list \<times> tcp_sock) option" where
  "tcp_collapse I start lim q s =
     (case collapse_scan I start [] q s of (end_of_skbs, start1, pre, q1, s1) \<Rightarrow>
        if end_of_skbs \<or> sg_syn (hd q1) \<or> sg_fin (hd q1) then Some (pre @ q1, s1)
        else collapse_copy I lim start1 pre q1 s1)"

text \<open>The out-of-order queue is collapsed run by run; \<open>run\<close> is the part from \<^verbatim>\<open>head\<close> on, \<open>pre\<close> what is before it.\<close>

fun collapse_runs ::
    "ienv \<Rightarrow> skb list \<Rightarrow> skb list \<Rightarrow> u32 \<Rightarrow> u32 \<Rightarrow> skb list \<Rightarrow> tcp_sock \<Rightarrow> (skb list \<times> tcp_sock) option" where
  "collapse_runs I pre run start lim [] s = do {
     (m, s1) \<leftarrow> tcp_collapse I start lim run s; Some (pre @ m, s1) }"
| "collapse_runs I pre run start lim (b # q) s =
     (if after (tv I) (sg_seq b) lim \<or> before (tv I) (sg_end_seq b) start then do {
        (m, s1) \<leftarrow> tcp_collapse I start lim run s;
        collapse_runs I (pre @ m) [b] (sg_seq b) (sg_end_seq b) q s1 }
      else collapse_runs I pre (run @ [b])
             (if before (tv I) (sg_seq b) start then sg_seq b else start)
             (if after (tv I) (sg_end_seq b) lim then sg_end_seq b else lim) q s)"

definition tcp_collapse_ofo_queue :: "ienv \<Rightarrow> tcp_sock \<Rightarrow> tcp_sock option" where
  "tcp_collapse_ofo_queue I s =
     (case out_of_order_queue s of
        [] \<Rightarrow> Some s
      | b # q \<Rightarrow> do {
          (m, s1) \<leftarrow> collapse_runs I [] [b] (sg_seq b) (sg_end_seq b) q s;
          Some (s1\<lparr>out_of_order_queue := m\<rparr>) })"

section \<open>Pruning\<close>

definition tcp_prune_ofo_queue :: "ienv \<Rightarrow> tcp_sock \<Rightarrow> bool \<times> tcp_sock" where
  "tcp_prune_ofo_queue I s =
     (if out_of_order_queue s \<noteq> [] then
        let s1 = purge_ofo I s;
            s2 = (if sack_ok (rx_opt s1) \<noteq> 0 then reset_sacks I s1 else s1)
        in (True, sk_mem_reclaim I s2)
      else (False, s))"

definition tcp_prune_queue :: "ienv \<Rightarrow> tcp_sock \<Rightarrow> (int \<times> tcp_sock) option" where
  "tcp_prune_queue I s = do {
     let s1 = (if sk_rcvbuf s \<le> sk_rmem_alloc s then tcp_clamp_window I s
               else if tcp_memory_pressure I then s\<lparr>rcv_ssthresh := min (rcv_ssthresh s) (4 * ucast (advmss s))\<rparr>
               else s);
     s2 \<leftarrow> tcp_collapse_ofo_queue I s1;
     s3 \<leftarrow> (if sk_receive_queue s2 \<noteq> [] then do {
              (q, s3) \<leftarrow> tcp_collapse I (copied_seq s2) (rcv_nxt s2) (sk_receive_queue s2) s2;
              Some (s3\<lparr>sk_receive_queue := q\<rparr>) }
            else Some s2);
     let s4 = sk_mem_reclaim I s3;
     if sk_rmem_alloc s4 \<le> sk_rcvbuf s4 then Some (0, s4)
     else let s5 = snd (tcp_prune_ofo_queue I s4)
          in if sk_rmem_alloc s5 \<le> sk_rcvbuf s5 then Some (0, s5)
             else Some (- 1, s5\<lparr>pred_flags := 0\<rparr>) }"

definition tcp_try_rmem_schedule :: "ienv \<Rightarrow> int \<Rightarrow> tcp_sock \<Rightarrow> (int \<times> tcp_sock) option" where
  "tcp_try_rmem_schedule I sz s =
     (let (room, s1) = (if sk_rcvbuf s < sk_rmem_alloc s then (False, s) else sk_rmem_schedule I sz s)
      in if room then Some (0, s1)
         else do {
           (res, s2) \<leftarrow> tcp_prune_queue I s1;
           if res < 0 then Some (- 1, s2)
           else let (ok, s3) = sk_rmem_schedule I sz s2
                in if ok then Some (0, s3)
                   else let (pruned, s4) = tcp_prune_ofo_queue I s3
                        in if \<not> pruned then Some (- 1, s4)
                           else let (ok1, s5) = sk_rmem_schedule I sz s4
                                in Some (if ok1 then 0 else - 1, s5) })"

section \<open>Queueing the data of a segment\<close>

text \<open>Data in sequence, with a process waiting for it: the result tells whether all of it (1), some (0) or nothing (-1) was copied.\<close>

definition copy_to_user :: "ienv \<Rightarrow> skb \<Rightarrow> tcp_sock \<Rightarrow> (int \<times> tcp_sock) option" where
  "copy_to_user I b s =
     (if ucopy_current s \<and> copied_seq s = rcv_nxt s \<and> ucopy_len s \<noteq> 0 \<and> sk_owned s \<and> urg_data s = 0 then
        let chunk = min (sg_len b) (word_of_int (ucopy_len s))
        in case skb_copy_datagram_iovec I b 0 (sint chunk) of
             Some copied \<Rightarrow> do {
               let s1 = s\<lparr>ucopy_len := ucopy_len s - sint chunk, copied_seq := copied_seq s + chunk,
                          ucopy_done := ucopy_done s @ copied\<rparr>;
               s2 \<leftarrow> tcp_rcv_space_adjust I s1;
               Some (if chunk = sg_len b then 1 else 0, s2) }
           | None \<Rightarrow> Some (- 1, s)
      else Some (- 1, s))"

text \<open>From the label \<^verbatim>\<open>queue_and_out\<close> on.\<close>

definition data_queued :: "ienv \<Rightarrow> int \<Rightarrow> skb \<Rightarrow> tcp_sock \<Rightarrow> tcp_sock option" where
  "data_queued I eaten b s = do {
     let s1 = s\<lparr>rcv_nxt := sg_end_seq b\<rparr>;
     s2 \<leftarrow> (if sg_len b \<noteq> 0 then tcp_event_data_recv I b s1 else Some s1);
     let s3 = (if sg_fin b then tcp_fin I s2 else s2);
     s4 \<leftarrow> (if out_of_order_queue s3 \<noteq> [] then do {
              s4 \<leftarrow> tcp_ofo_queue I s3;
              Some (if out_of_order_queue s4 = [] then upd_ack (\<lambda>a. a\<lparr>ack_pingpong := 0\<rparr>) s4 else s4) }
            else Some s3);
     s5 \<leftarrow> (if num_sacks (rx_opt s4) \<noteq> 0
            then upd_sacks (tcp_sack_remove (tv I) (rcv_nxt s4) (out_of_order_queue s4 = [])) s4 else Some s4);
     let s6 = tcp_fast_path_check I s5;
     Some (if 0 < eaten then s6 else if \<not> sk_dead s6 then sk_event Data_ready s6 else s6) }"

definition queue_and_out :: "ienv \<Rightarrow> int \<Rightarrow> skb \<Rightarrow> tcp_sock \<Rightarrow> tcp_sock option" where
  "queue_and_out I eaten b s =
     (if eaten \<le> 0 then do {
        (err, s1) \<leftarrow> (if eaten < 0 then tcp_try_rmem_schedule I (uint (sg_truesize b)) s else Some (0, s));
        if err \<noteq> 0 then Some s1
        else let s2 = skb_set_owner_r b s1
             in data_queued I eaten b (s2\<lparr>sk_receive_queue := sk_receive_queue s2 @ [b]\<rparr>) }
      else data_queued I eaten b s)"

definition out_of_window :: "ienv \<Rightarrow> tcp_sock \<Rightarrow> tcp_sock option" where
  "out_of_window I s = map_option inet_csk_schedule_ack (tcp_enter_quickack_mode I s)"

text \<open>
  The place of a new segment in the out-of-order queue: the queue up to the last segment that does not start after
  it, and the rest. Segments that the new one covers as a whole are removed.
\<close>

definition ofo_place :: "ienv \<Rightarrow> u32 \<Rightarrow> skb list \<Rightarrow> skb list \<times> skb list" where
  "ofo_place I sq q =
     (let pre = rev (dropWhile (\<lambda>b. after (tv I) (sg_seq b) sq) (rev q)) in (pre, drop (length pre) q))"

fun ofo_clean :: "ienv \<Rightarrow> u32 \<Rightarrow> skb list \<Rightarrow> tcp_sock \<Rightarrow> skb list \<times> tcp_sock" where
  "ofo_clean I esq [] s = ([], s)"
| "ofo_clean I esq (b # q) s =
     (if \<not> after (tv I) esq (sg_seq b) then (b # q, s)
      else if before (tv I) esq (sg_end_seq b) then (b # q, dsack_extend I (sg_seq b) esq s)
      else ofo_clean I esq q (sock_rfree I b (dsack_extend I (sg_seq b) (sg_end_seq b) s)))"

definition ofo_add_sack :: "ienv \<Rightarrow> skb \<Rightarrow> tcp_sock \<Rightarrow> tcp_sock option" where
  "ofo_add_sack I b s =
     (if tcp_is_sack I (rx_opt s) then upd_sacks (tcp_sack_new_ofo_skb (tv I) (sg_seq b) (sg_end_seq b)) s else Some s)"

definition ofo_insert :: "ienv \<Rightarrow> skb \<Rightarrow> tcp_sock \<Rightarrow> tcp_sock option" where
  "ofo_insert I b s =
     (let sq = sg_seq b; esq = sg_end_seq b; q = out_of_order_queue s
      in if q = [] then do {
           s1 \<leftarrow> (if tcp_is_sack I (rx_opt s)
                  then upd_sacks (\<lambda>(n, a). do { a1 \<leftarrow> aset a 0 \<lparr>start_seq = sq, end_seq = esq\<rparr>; Some (1, a1) }) s
                  else Some s);
           Some (s1\<lparr>out_of_order_queue := [b]\<rparr>) }
         else if sq = sg_end_seq (last q) then do {
           let s1 = s\<lparr>out_of_order_queue := q @ [b]\<rparr>;
           if num_sacks (rx_opt s1) = 0 then ofo_add_sack I b s1
           else do {
             blk \<leftarrow> aref (selective_acks s1) 0;
             if end_seq blk \<noteq> sq then ofo_add_sack I b s1
             else Some (s1\<lparr>selective_acks := (selective_acks s1)[0 := blk\<lparr>end_seq := esq\<rparr>]\<rparr>) } }
         else case ofo_place I sq q of (pre, post) \<Rightarrow>
           if pre \<noteq> [] \<and> before (tv I) sq (sg_end_seq (last pre)) \<and> \<not> after (tv I) esq (sg_end_seq (last pre))
           then ofo_add_sack I b (dsack_set I sq esq (sock_rfree I b s))
           else let overlap = (pre \<noteq> [] \<and> before (tv I) sq (sg_end_seq (last pre)));
                    partly = (overlap \<and> after (tv I) sq (sg_seq (last pre)));
                    s1 = (if partly then dsack_set I sq (sg_end_seq (last pre)) s else s);
                    (pre1, post1) = (if overlap \<and> \<not> partly then (butlast pre, last pre # post) else (pre, post));
                    (post2, s2) = ofo_clean I esq post1 s1
                in ofo_add_sack I b (s2\<lparr>out_of_order_queue := pre1 @ [b] @ post2\<rparr>))"

definition out_of_order :: "ienv \<Rightarrow> skb \<Rightarrow> tcp_sock \<Rightarrow> tcp_sock option" where
  "out_of_order I b s = do {
     s1 \<leftarrow> TCP_ECN_check_ce I b s;
     (err, s2) \<leftarrow> tcp_try_rmem_schedule I (uint (sg_truesize b)) s1;
     if err \<noteq> 0 then Some s2
     else ofo_insert I b (skb_set_owner_r b (inet_csk_schedule_ack (s2\<lparr>pred_flags := 0\<rparr>))) }"

definition tcp_data_queue :: "ienv \<Rightarrow> skb \<Rightarrow> tcp_sock \<Rightarrow> tcp_sock option" where
  "tcp_data_queue I b0 s0 =
     (if sg_seq b0 = sg_end_seq b0 then Some s0
      else let b = skb_pull I (ucast (sg_doff b0) * 4) b0;
               s1 = TCP_ECN_accept_cwr I b s0;
               s = s1\<lparr>rx_opt := (rx_opt s1)\<lparr>dsack := False\<rparr>\<rparr>
           in if sg_seq b = rcv_nxt s then
                (if rcv_window I s = 0 then out_of_window I s
                 else do { (eaten, s2) \<leftarrow> copy_to_user I b s; queue_and_out I eaten b s2 })
              else if \<not> after (tv I) (sg_end_seq b) (rcv_nxt s)
              then out_of_window I (dsack_set I (sg_seq b) (sg_end_seq b) s)
              else if \<not> before (tv I) (sg_seq b) (rcv_nxt s + rcv_window I s) then out_of_window I s
              else do {
                s2 \<leftarrow> tcp_enter_quickack_mode I s;
                if before (tv I) (sg_seq b) (rcv_nxt s2) then
                  let s3 = dsack_set I (sg_seq b) (rcv_nxt s2) s2
                  in if rcv_window I s3 = 0 then out_of_window I s3 else queue_and_out I (- 1) b s3
                else out_of_order I b s2 })"

end
