(* ===== verification/Tcp_Stream.thy ===== *)
theory Tcp_Stream
  imports Tcp_Rcvq Tcp_Tuning_Correct Tcp_Sack_Correct
begin

text \<open>
  What the receive queues mean: positions in an unbounded stream of bytes, buffers that hold a part of the stream, and
  queues that hold it without gaps (the receive queue) or with gaps (the out-of-order queue).
\<close>

section \<open>Positions\<close>

text \<open>\<open>posn R r x\<close>: the position of the sequence number \<open>x\<close> in the stream, when \<open>r\<close> stands for position \<open>R\<close>.\<close>

definition posn :: "int \<Rightarrow> u32 \<Rightarrow> u32 \<Rightarrow> int" where
  "posn R r x = R + sint (x - r)"

lemma sint_in_range: "- (2 ^ 31) \<le> sint (w :: u32) \<and> sint w < 2 ^ 31"
  using sint_greater_eq [of w] sint_less [of w] by simp

lemma sint_of_int: "- (2 ^ 31) \<le> k \<Longrightarrow> k < 2 ^ 31 \<Longrightarrow> sint (word_of_int k :: u32) = k"
proof -
  assume k: "- (2 ^ 31) \<le> k" "k < 2 ^ 31"
  have "sint (word_of_int k :: u32) = signed_take_bit (LENGTH(32) - 1) k" by (rule sint_sbintrunc')
  also have "\<dots> = k" using k by (intro signed_take_bit_int_eq_self) simp_all
  finally show ?thesis .
qed

lemma uint_of_int: "0 \<le> k \<Longrightarrow> k < 2 ^ 32 \<Longrightarrow> uint (word_of_int k :: u32) = k"
  by (simp add: uint_word_of_int)

lemma posn_range: "R - 2 ^ 31 \<le> posn R r x \<and> posn R r x < R + 2 ^ 31"
  using sint_in_range [of "x - r"] by (simp add: posn_def)

lemma posn_self [simp]: "posn R r r = R"
  by (simp add: posn_def)

lemma posn_diff: "x - y = word_of_int (posn R r x - posn R r y)"
  by (simp add: posn_def)

lemma posn_sint:
  assumes "\<bar>posn R r x - posn R r y\<bar> < 2 ^ 31"
  shows "sint (x - y) = posn R r x - posn R r y"
  unfolding posn_diff [of x y R r] using assms by (intro sint_of_int) linarith+

lemma posn_before:
  assumes "seq_law E" "\<bar>posn R r x - posn R r y\<bar> < 2 ^ 31"
  shows "before E x y \<longleftrightarrow> posn R r x < posn R r y" "after E x y \<longleftrightarrow> posn R r y < posn R r x"
proof -
  have "sint (x - y) = posn R r x - posn R r y" "sint (y - x) = posn R r y - posn R r x"
    using assms(2) by (auto intro!: posn_sint simp: abs_minus_commute)
  then show "before E x y \<longleftrightarrow> posn R r x < posn R r y" "after E x y \<longleftrightarrow> posn R r y < posn R r x"
    using assms(1) by (auto simp: seq_law_def)
qed

lemma posn_add:
  assumes "R - 2 ^ 31 \<le> posn R r x + k" "posn R r x + k < R + 2 ^ 31"
  shows "posn R r (x + word_of_int k) = posn R r x + k"
proof -
  have "x + word_of_int k - r = word_of_int (sint (x - r) + k)" by simp
  moreover have "sint (word_of_int (sint (x - r) + k) :: u32) = sint (x - r) + k"
    using assms unfolding posn_def by (intro sint_of_int) linarith+
  ultimately show ?thesis unfolding posn_def by presburger
qed

lemma posn_rebase:
  assumes "r' = r + word_of_int d" "R + d - 2 ^ 31 \<le> posn R r x" "posn R r x < R + d + 2 ^ 31"
  shows "posn (R + d) r' x = posn R r x"
proof -
  have "x - r' = word_of_int (sint (x - r) - d)" by (simp add: assms(1))
  moreover have "sint (word_of_int (sint (x - r) - d) :: u32) = sint (x - r) - d"
    using assms unfolding posn_def by (intro sint_of_int) linarith+
  ultimately show ?thesis unfolding posn_def by presburger
qed

section \<open>Buffers\<close>

definition seglen :: "skb \<Rightarrow> int" where
  "seglen b = uint (sg_len b) + (if sg_fin b then 1 else 0)"

definition skb_ok :: "(int \<Rightarrow> u8) \<Rightarrow> int \<Rightarrow> u32 \<Rightarrow> skb \<Rightarrow> bool" where
  "skb_ok strm R r b \<longleftrightarrow> \<not> sg_syn b \<and> length (sg_bytes b) = unat (sg_len b) \<and> sg_len b < 2 ^ 16 \<and> sg_pulled b \<le> 60 \<and>
     posn R r (sg_end_seq b) = posn R r (sg_seq b) + seglen b \<and>
     sg_bytes b = map (\<lambda>i. strm (posn R r (sg_seq b) + int i)) [0 ..< unat (sg_len b)]"

lemma seglen_bounds: "sg_len b < 2 ^ 16 \<Longrightarrow> 0 \<le> seglen b \<and> seglen b \<le> 2 ^ 16"
  by (auto simp: seglen_def word_less_def)

lemma skb_ok_rebase:
  assumes "skb_ok strm R r b" "r' = r + word_of_int d"
    and "R + d - 2 ^ 31 \<le> posn R r (sg_seq b)" "posn R r (sg_end_seq b) < R + d + 2 ^ 31"
  shows "skb_ok strm (R + d) r' b"
proof -
  have "0 \<le> seglen b" using seglen_bounds assms(1) by (simp add: skb_ok_def)
  then have "posn R r (sg_seq b) \<le> posn R r (sg_end_seq b)" using assms(1) by (simp add: skb_ok_def)
  then have "posn (R + d) r' (sg_seq b) = posn R r (sg_seq b)" "posn (R + d) r' (sg_end_seq b) = posn R r (sg_end_seq b)"
    using assms by (auto intro!: posn_rebase)
  then show ?thesis using assms(1) by (simp add: skb_ok_def)
qed

section \<open>Queues without gaps\<close>

text \<open>The queue holds the stream from position \<open>a\<close> up to position \<open>c\<close>; every buffer has something new.\<close>

fun gapless :: "(int \<Rightarrow> u8) \<Rightarrow> int \<Rightarrow> u32 \<Rightarrow> int \<Rightarrow> skb list \<Rightarrow> int \<Rightarrow> bool" where
  "gapless strm R r a [] c \<longleftrightarrow> a = c"
| "gapless strm R r a (b # q) c \<longleftrightarrow>
     skb_ok strm R r b \<and> posn R r (sg_seq b) \<le> a \<and> a < posn R r (sg_end_seq b) \<and> gapless strm R r (posn R r (sg_end_seq b)) q c"

lemma gapless_le: "gapless strm R r a q c \<Longrightarrow> a \<le> c \<and> (q \<noteq> [] \<longrightarrow> a < c)"
proof (induction q arbitrary: a)
  case (Cons b q)
  then have "posn R r (sg_end_seq b) \<le> c" "a < posn R r (sg_end_seq b)" by auto
  then show ?case by simp
qed simp

lemma gapless_append:
  "gapless strm R r a (q1 @ q2) c \<longleftrightarrow> (\<exists>m. gapless strm R r a q1 m \<and> gapless strm R r m q2 c)"
  by (induction q1 arbitrary: a) auto

lemma gapless_appendI: "gapless strm R r a q1 m \<Longrightarrow> gapless strm R r m q2 c \<Longrightarrow> gapless strm R r a (q1 @ q2) c"
  by (auto simp: gapless_append)

lemma gapless_mem:
  assumes "gapless strm R r a q c" "b \<in> set q"
  shows "skb_ok strm R r b" "a < posn R r (sg_end_seq b)" "posn R r (sg_end_seq b) \<le> c"
    "a - 2 ^ 16 \<le> posn R r (sg_seq b)"
proof -
  obtain q1 q2 where q: "q = q1 @ b # q2" using assms(2) by (meson split_list)
  then obtain m where m: "gapless strm R r a q1 m" "gapless strm R r m (b # q2) c" using assms(1) gapless_append by blast
  then show ok: "skb_ok strm R r b" by simp
  have "a \<le> m" "posn R r (sg_end_seq b) \<le> c" using gapless_le [OF m(1)] gapless_le m(2) by auto
  then show "a < posn R r (sg_end_seq b)" "posn R r (sg_end_seq b) \<le> c" using m(2) by auto
  moreover have "seglen b \<le> 2 ^ 16" using seglen_bounds ok by (simp add: skb_ok_def)
  ultimately show "a - 2 ^ 16 \<le> posn R r (sg_seq b)" using ok by (simp add: skb_ok_def)
qed

lemma gapless_rebase:
  assumes "gapless strm R r a q c" "r' = r + word_of_int d" "R + d - 2 ^ 31 + 2 ^ 16 \<le> a" "c < R + d + 2 ^ 31"
  shows "gapless strm (R + d) r' a q c"
  using assms(1,3)
proof (induction q arbitrary: a)
  case (Cons b q)
  have mem: "skb_ok strm R r b" "a < posn R r (sg_end_seq b)" "posn R r (sg_end_seq b) \<le> c"
    "a - 2 ^ 16 \<le> posn R r (sg_seq b)" using gapless_mem [OF Cons.prems(1)] by simp_all
  have lo: "R + d - 2 ^ 31 \<le> posn R r (sg_seq b)" "R + d - 2 ^ 31 \<le> posn R r (sg_end_seq b)"
    using mem Cons.prems(2) by simp_all
  have le: "posn R r (sg_seq b) \<le> a" using Cons.prems(1) by simp
  have hi: "posn R r (sg_end_seq b) < R + d + 2 ^ 31" "posn R r (sg_seq b) < R + d + 2 ^ 31"
    using mem assms(4) le by linarith+
  have p: "posn (R + d) r' (sg_seq b) = posn R r (sg_seq b)" "posn (R + d) r' (sg_end_seq b) = posn R r (sg_end_seq b)"
    using posn_rebase [OF assms(2)] lo hi by auto
  moreover have "gapless strm (R + d) r' (posn R r (sg_end_seq b)) q c"
    using Cons.IH Cons.prems mem(2) by auto
  ultimately show ?case
    using skb_ok_rebase [OF mem(1) assms(2) lo(1) hi(1)] Cons.prems(1) by simp
qed simp

text \<open>What a reader gets that starts at position \<open>a\<close>.\<close>

fun unread :: "int \<Rightarrow> u32 \<Rightarrow> int \<Rightarrow> skb list \<Rightarrow> u8 list" where
  "unread R r a [] = []"
| "unread R r a (b # q) = drop (nat (a - posn R r (sg_seq b))) (sg_bytes b) @ unread R r (posn R r (sg_end_seq b)) q"

definition stream :: "(int \<Rightarrow> u8) \<Rightarrow> int \<Rightarrow> int \<Rightarrow> u8 list" where
  "stream strm a c = map (\<lambda>i. strm (a + int i)) [0 ..< nat (c - a)]"

lemma stream_append: "a \<le> b \<Longrightarrow> b \<le> c \<Longrightarrow> stream strm a b @ stream strm b c = stream strm a c"
proof -
  assume le: "a \<le> b" "b \<le> c"
  have "nat (c - a) = nat (b - a) + nat (c - b)" using le by simp
  then have "[0 ..< nat (c - a)] = [0 ..< nat (b - a)] @ map (\<lambda>i. i + nat (b - a)) [0 ..< nat (c - b)]"
    using upt_add_eq_append [of 0 "nat (b - a)" "nat (c - b)"] by (simp add: map_add_upt add.commute)
  then show ?thesis using le by (simp add: stream_def add.commute)
qed

lemma stream_drop:
  assumes "p \<le> a" "a \<le> e"
  shows "drop (nat (a - p)) (stream strm p e) = stream strm a e"
  using stream_append [OF assms, of strm, symmetric] by (simp add: stream_def)

lemma stream_take:
  assumes "p \<le> a" "a \<le> e"
  shows "take (nat (a - p)) (stream strm p e) = stream strm p a"
  using stream_append [OF assms, of strm, symmetric] by (simp add: stream_def)

lemma stream_self [simp]: "stream strm a a = []"
  by (simp add: stream_def)

lemma stream_length [simp]: "length (stream strm a c) = nat (c - a)"
  by (simp add: stream_def)

lemma skb_bytes: "skb_ok strm R r b \<Longrightarrow>
    sg_bytes b = stream strm (posn R r (sg_seq b)) (posn R r (sg_seq b) + uint (sg_len b))"
proof -
  assume "skb_ok strm R r b"
  then have "sg_bytes b = map (\<lambda>i. strm (posn R r (sg_seq b) + int i)) [0 ..< unat (sg_len b)]"
    unfolding skb_ok_def by blast
  then show ?thesis by (simp only: stream_def unat_eq_nat_uint add_diff_cancel_left')
qed

lemma unread_gapless:
  assumes "gapless strm R r a q c" "\<forall>b \<in> set q. \<not> sg_fin b"
  shows "unread R r a q = stream strm a c"
  using assms
proof (induction q arbitrary: a)
  case (Cons b q)
  have ok: "skb_ok strm R r b" and le: "posn R r (sg_seq b) \<le> a" "a < posn R r (sg_end_seq b)" using Cons.prems by auto
  have e: "posn R r (sg_end_seq b) = posn R r (sg_seq b) + uint (sg_len b)"
    using ok Cons.prems(2) by (simp add: skb_ok_def seglen_def)
  have "drop (nat (a - posn R r (sg_seq b))) (sg_bytes b) = stream strm a (posn R r (sg_end_seq b))"
    unfolding skb_bytes [OF ok] e using le e by (intro stream_drop) auto
  moreover have "posn R r (sg_end_seq b) \<le> c" using gapless_le Cons.prems(1) by auto
  ultimately show ?case using Cons le by (simp add: stream_append)
qed simp

section \<open>Queues with gaps\<close>

text \<open>
  \<open>S\<close> and \<open>T\<close> are the positions where a buffer starts and ends, \<open>e\<close> the end of what was before. Ends increase; a buffer
  behind a gap starts before all that follow it. Buffers that overlap need not be in the order of their starts
  (collapsing a queue that ends in a FIN breaks that order).
\<close>

fun heads :: "(skb \<Rightarrow> int) \<Rightarrow> (skb \<Rightarrow> int) \<Rightarrow> int \<Rightarrow> skb list \<Rightarrow> bool" where
  "heads S T e [] \<longleftrightarrow> True"
| "heads S T e (b # q) \<longleftrightarrow> e < T b \<and> (e < S b \<longrightarrow> (\<forall>c \<in> set q. S b \<le> S c)) \<and> heads S T (T b) q"

fun end_of :: "(skb \<Rightarrow> int) \<Rightarrow> int \<Rightarrow> skb list \<Rightarrow> int" where
  "end_of T e [] = e"
| "end_of T e (b # q) = end_of T (T b) q"

lemma end_of_append [simp]: "end_of T e (q1 @ q2) = end_of T (end_of T e q1) q2"
  by (induction q1 arbitrary: e) auto

lemma end_of_last: "q \<noteq> [] \<Longrightarrow> end_of T e q = T (last q)"
  by (induction q arbitrary: e) auto

lemma heads_append:
  "heads S T e (q1 @ q2) \<longleftrightarrow> heads S T e q1 \<and> heads S T (end_of T e q1) q2 \<and>
     (\<forall>i < length q1. end_of T e (take i q1) < S (q1 ! i) \<longrightarrow> (\<forall>c \<in> set q2. S (q1 ! i) \<le> S c))"
proof (induction q1 arbitrary: e)
  case (Cons b q1)
  have "(\<forall>i < length (b # q1). end_of T e (take i (b # q1)) < S ((b # q1) ! i) \<longrightarrow> (\<forall>c \<in> set q2. S ((b # q1) ! i) \<le> S c)) \<longleftrightarrow>
    (e < S b \<longrightarrow> (\<forall>c \<in> set q2. S b \<le> S c)) \<and>
    (\<forall>i < length q1. end_of T (T b) (take i q1) < S (q1 ! i) \<longrightarrow> (\<forall>c \<in> set q2. S (q1 ! i) \<le> S c))"
    (is "(\<forall>i < _. ?P i) \<longleftrightarrow> _")
    unfolding All_less_Suc2 list.size(4) add_Suc_right add_0_right by simp
  then show ?case using Cons.IH [of "T b"] by auto
qed simp

lemma heads_mono: "heads S T e q \<Longrightarrow> e' \<le> e \<Longrightarrow> \<forall>c \<in> set q. e < S c \<Longrightarrow> heads S T e' q"
  by (cases q) auto

lemma heads_ends: "heads S T e q \<Longrightarrow> c \<in> set q \<Longrightarrow> e < T c"
  by (induction q arbitrary: e) fastforce+

lemma heads_end_of: "heads S T e q \<Longrightarrow> e \<le> end_of T e q"
  by (induction q arbitrary: e) fastforce+

lemma heads_cong: "\<forall>b \<in> set q. S b = S' b \<and> T b = T' b \<Longrightarrow> heads S T e q \<longleftrightarrow> heads S' T' e q"
  by (induction q arbitrary: e) auto

text \<open>A buffer that is behind a gap starts before everything after it; so all of the queue starts behind the first gap.\<close>

lemma heads_first: "heads S T e (b # q) \<Longrightarrow> e < S b \<Longrightarrow> c \<in> set (b # q) \<Longrightarrow> S b \<le> S c"
  by auto

text \<open>Putting a buffer into the queue, and removing the buffers it covers.\<close>

definition uncovered :: "(skb \<Rightarrow> int) \<Rightarrow> skb \<Rightarrow> skb list \<Rightarrow> skb list" where
  "uncovered T b q = dropWhile (\<lambda>c. T c \<le> T b) q"

lemma heads_uncovered:
  assumes "heads S T e q"
  shows "heads S T (max e (T b)) (uncovered T b q)"
  using assms
proof (induction q arbitrary: e)
  case (Cons c q)
  show ?case
  proof (cases "T c \<le> T b")
    case True
    then have "max (T c) (T b) = max e (T b)" using Cons.prems by auto
    with Cons.IH [of "T c"] Cons.prems True show ?thesis by (simp add: uncovered_def)
  next
    case False
    then show ?thesis using Cons.prems by (auto simp: uncovered_def)
  qed
qed (simp add: uncovered_def)

lemma uncovered_subset: "set (uncovered T b q) \<subseteq> set q"
  by (auto simp: uncovered_def dest: set_dropWhileD)

lemma heads_insert:
  assumes h: "heads S T e (pre @ post)" and b: "end_of T e pre < T b"
    and post: "\<forall>c \<in> set post. S b \<le> S c"
    and heads_b: "\<forall>i < length pre. end_of T e (take i pre) < S (pre ! i) \<longrightarrow> S (pre ! i) \<le> S b"
  shows "heads S T e (pre @ [b] @ uncovered T b post)"
proof -
  have h1: "heads S T e pre" "heads S T (end_of T e pre) post"
    and h2: "\<forall>i < length pre. end_of T e (take i pre) < S (pre ! i) \<longrightarrow> (\<forall>c \<in> set post. S (pre ! i) \<le> S c)"
    using h unfolding heads_append by auto
  have "heads S T (T b) (uncovered T b post)" using heads_uncovered [OF h1(2), of b] b by (simp add: max_def)
  then have "heads S T (end_of T e pre) ([b] @ uncovered T b post)"
    using b post uncovered_subset by fastforce
  moreover have "\<forall>i < length pre. end_of T e (take i pre) < S (pre ! i) \<longrightarrow>
      (\<forall>c \<in> set ([b] @ uncovered T b post). S (pre ! i) \<le> S c)"
    using h2 heads_b uncovered_subset by fastforce
  ultimately show ?thesis using h1(1) unfolding heads_append by blast
qed

end
