(* ===== verification/Tcp_Rcvq_Frame.thy ===== *)
theory Tcp_Rcvq_Frame
  imports Tcp_Stream
begin

text \<open>
  What the functions around the receive queues leave alone. The helpers for delayed acknowledgements, windows and
  duplicates touch neither the queues nor the sequence numbers, and keep what the code needs in order not to divide by
  zero or to run out of the array of SACK blocks. The same is assumed of the functions of other files.
\<close>

definition aux_ok :: "tcp_sock \<Rightarrow> bool" where
  "aux_ok s \<longleftrightarrow> ack_rcv_mss (icsk_ack s) \<noteq> 0 \<and> tcp_header_len s \<le> 60 \<and> advmss s \<noteq> 0 \<and>
     sacks_ok (unat (num_sacks (rx_opt s)), selective_acks s)"

definition fixed :: "tcp_sock \<Rightarrow> tcp_sock \<Rightarrow> bool" where
  "fixed s s' \<longleftrightarrow> rcv_nxt s' = rcv_nxt s \<and> copied_seq s' = copied_seq s \<and> ucopy_done s' = ucopy_done s \<and>
     sk_dead s' = sk_dead s \<and> (aux_ok s \<longrightarrow> aux_ok s')"

definition kept :: "tcp_sock \<Rightarrow> tcp_sock \<Rightarrow> bool" where
  "kept s s' \<longleftrightarrow> fixed s s' \<and> sk_receive_queue s' = sk_receive_queue s \<and> out_of_order_queue s' = out_of_order_queue s"

lemma fixed_refl [simp]: "fixed s s"
  by (simp add: fixed_def)

lemma fixed_trans [trans]: "fixed s s' \<Longrightarrow> fixed s' s'' \<Longrightarrow> fixed s s''"
  by (simp add: fixed_def)

lemma kept_refl [simp]: "kept s s"
  by (simp add: kept_def)

lemma kept_trans [trans]: "kept s s' \<Longrightarrow> kept s' s'' \<Longrightarrow> kept s s''"
  by (auto simp: kept_def intro: fixed_trans)

lemma kept_fixed: "kept s s' \<Longrightarrow> fixed s s'"
  by (simp add: kept_def)

lemma kept_aux: "kept s s' \<Longrightarrow> aux_ok s \<Longrightarrow> aux_ok s'"
  by (simp add: kept_def fixed_def)

lemma kept_dead: "kept s s' \<Longrightarrow> sk_dead s' = sk_dead s"
  by (simp add: kept_def fixed_def)

lemmas kept_defs = kept_def fixed_def aux_ok_def

text \<open>
  Functions of other files. \<^verbatim>\<open>tcp_done\<close> destroys the socket only when no process has it any more.
\<close>

definition frame_law :: "ienv \<Rightarrow> bool" where
  "frame_law I \<longleftrightarrow> (\<forall>s. kept s (tcp_send_ack I s)) \<and> (\<forall>s st. kept s (tcp_set_state I st s)) \<and>
     (\<forall>s b. kept s (sock_rfree I b s)) \<and> (\<forall>s. kept s (tcp_fast_path_check I s)) \<and>
     (\<forall>s. \<not> sk_dead s \<longrightarrow> kept s (tcp_done I s))"

lemma kept_upd_ack: "(\<And>a. ack_rcv_mss (f a) = ack_rcv_mss a) \<Longrightarrow> kept s (upd_ack f s)"
  by (simp add: kept_defs upd_ack_def)

lemma kept_simple [simp]:
  "kept s (inet_csk_schedule_ack s)" "kept s (sk_event e s)" "kept s (sk_mem_reclaim I s)" "kept s (skb_set_owner_r b s)"
  "kept s (snd (sk_rmem_schedule I sz s))" "kept s (TCP_ECN_accept_cwr I b s)" "kept s (tcp_rcv_rtt_measure I s)"
  "kept s (tcp_clamp_window I s)" "kept s (s\<lparr>pred_flags := p\<rparr>)" "kept s (s\<lparr>rcv_ssthresh := w\<rparr>)"
  "kept s (s\<lparr>rx_opt := (rx_opt s)\<lparr>dsack := d\<rparr>\<rparr>)"
  by (simp_all add: kept_defs inet_csk_schedule_ack_def upd_ack_def sk_event_def sk_mem_reclaim_def skb_set_owner_r_def
      sk_mem_charge_def sk_rmem_schedule_def TCP_ECN_accept_cwr_def tcp_rcv_rtt_measure_def tcp_rcv_rtt_update_def
      tcp_clamp_window_def Let_def split: prod.splits)

lemma kept_dsack [simp]: "kept s (dsack_set I sq esq s)" "kept s (dsack_extend I sq esq s)"
  by (simp_all add: kept_defs dsack_set_def dsack_extend_def split: prod.splits)

lemma incr_quickack_kept:
  assumes "aux_ok s"
  shows "\<exists>s'. tcp_incr_quickack I s = Some s' \<and> kept s s'"
  using incr_quickack_ok [of s I] assms kept_upd_ack unfolding aux_ok_def by fastforce

lemma enter_quickack_kept:
  assumes "aux_ok s"
  shows "\<exists>s'. tcp_enter_quickack_mode I s = Some s' \<and> kept s s'"
proof -
  obtain s1 where "tcp_incr_quickack I s = Some s1" "kept s s1" using incr_quickack_kept [OF assms] by blast
  moreover have "kept s1 (upd_ack (\<lambda>a. a\<lparr>ack_pingpong := 0, ack_ato := TCP_ATO_MIN I\<rparr>) s1)" by (rule kept_upd_ack) simp
  ultimately show ?thesis unfolding tcp_enter_quickack_mode_def using kept_trans by auto
qed

lemma check_ce_kept:
  assumes "aux_ok s"
  shows "\<exists>s'. TCP_ECN_check_ce I b s = Some s' \<and> kept s s'"
proof -
  have k: "kept s (s\<lparr>ecn_flags := f\<rparr>)" for f by (simp add: kept_defs)
  obtain s1 where "tcp_enter_quickack_mode I s = Some s1" "kept s s1" using enter_quickack_kept [OF assms] by blast
  then show ?thesis using k by (simp add: TCP_ECN_check_ce_def Let_def)
qed

lemma grow_window_kept:
  assumes "win_law I"
  shows "\<exists>s'. tcp_grow_window I b s = Some s' \<and> kept s s'"
proof -
  define t where "t = tcp_win_from_space I (uint (sg_truesize b))"
  have t: "0 \<le> t" "t < 2 ^ 32"
    using assms(1) uint_lt2p [of "sg_truesize b"] by (auto simp: win_law_def t_def intro: le_less_trans)
  then have "0 \<le> drop_bit 1 t" "drop_bit 1 t < 2 ^ 32" by (auto simp: drop_bit_eq_div)
  from grow_loop_total [OF this, of "rcv_ssthresh s" "sg_len b" "2 * uint (ack_rcv_mss (icsk_ack s))"]
  obtain r where "tcp_grow_window_slow I b s = Some r" by (auto simp: tcp_grow_window_slow_def t_def)
  moreover have "kept s (upd_ack (\<lambda>a. a\<lparr>ack_quick := ack_quick a OR 1\<rparr>) (s\<lparr>rcv_ssthresh := w\<rparr>))" for w
    by (simp add: kept_defs upd_ack_def)
  ultimately show ?thesis by (simp add: tcp_grow_window_def)
qed

lemma measure_kept:
  assumes "mss_law I" "seg_ok b"
  shows "kept s (tcp_measure_rcv_mss I b s)"
proof -
  have "rcv_nxt (tcp_measure_rcv_mss I b s) = rcv_nxt s" "copied_seq (tcp_measure_rcv_mss I b s) = copied_seq s"
    "ucopy_done (tcp_measure_rcv_mss I b s) = ucopy_done s" "sk_dead (tcp_measure_rcv_mss I b s) = sk_dead s"
    "advmss (tcp_measure_rcv_mss I b s) = advmss s" "rx_opt (tcp_measure_rcv_mss I b s) = rx_opt s"
    "selective_acks (tcp_measure_rcv_mss I b s) = selective_acks s"
    "sk_receive_queue (tcp_measure_rcv_mss I b s) = sk_receive_queue s"
    "out_of_order_queue (tcp_measure_rcv_mss I b s) = out_of_order_queue s"
    by (simp_all add: tcp_measure_rcv_mss_def upd_ack_def Let_def)
  then show ?thesis using measure_rcv_mss_nonzero [OF assms] measure_frame by (simp add: kept_defs)
qed

lemma event_data_recv_kept:
  assumes law: "win_law I" "mss_law I" and b: "seg_ok b" and s: "aux_ok s"
  shows "\<exists>s'. tcp_event_data_recv I b s = Some s' \<and> kept s s'"
proof -
  define s1 where "s1 = tcp_rcv_rtt_measure I (tcp_measure_rcv_mss I b (inet_csk_schedule_ack s))"
  have k1: "kept s s1" unfolding s1_def
    by (rule kept_trans [OF kept_simple(1) kept_trans [OF measure_kept [OF law(2) b] kept_simple(7)]])
  then have a1: "aux_ok s1" using kept_aux s by blast
  define ato where "ato = ack_ato (icsk_ack s1)"
  define m where "m = tcp_time_stamp I - ack_lrcvtime (icsk_ack s1)"
  obtain sq where sq: "tcp_incr_quickack I s1 = Some sq" "kept s1 sq" using incr_quickack_kept [OF a1] by blast
  have k: "kept x (upd_ack (\<lambda>a. a\<lparr>ack_ato := n\<rparr>) x)" "kept x (upd_ack (\<lambda>a. a\<lparr>ack_lrcvtime := t\<rparr>) x)" for x n t
    by (rule kept_upd_ack; simp)+
  define step where "step = (if ato = 0 then map_option (upd_ack (\<lambda>a. a\<lparr>ack_ato := TCP_ATO_MIN I\<rparr>)) (tcp_incr_quickack I s1)
            else if m \<le> TCP_ATO_MIN I div 2
                    then Some (upd_ack (\<lambda>a. a\<lparr>ack_ato := drop_bit 1 ato + TCP_ATO_MIN I div 2\<rparr>) s1)
                    else if m < ato
                    then Some (upd_ack (\<lambda>a. a\<lparr>ack_ato := (if icsk_rto s1 < drop_bit 1 ato + m then icsk_rto s1
                                                         else drop_bit 1 ato + m)\<rparr>) s1)
                    else if icsk_rto s1 < m then map_option (sk_mem_reclaim I) (tcp_incr_quickack I s1)
                    else Some s1)"
  have "\<exists>s2. step = Some s2 \<and> kept s1 s2"
    unfolding sq(1) step_def using k(1) kept_trans [OF sq(2) k(1)] kept_trans [OF sq(2) kept_simple(3)] by simp
  then obtain s2 where st: "step = Some s2" and k12: "kept s1 s2" by blast
  have s2: "tcp_event_data_recv I b s = do {
       s3 \<leftarrow> TCP_ECN_check_ce I b (upd_ack (\<lambda>a. a\<lparr>ack_lrcvtime := tcp_time_stamp I\<rparr>) s2);
       if 128 \<le> sg_len b then tcp_grow_window I b s3 else Some s3 }"
    unfolding tcp_event_data_recv_def Let_def s1_def [symmetric] ato_def [symmetric] m_def [symmetric]
    unfolding step_def [symmetric] st bind.bind_lunit by (rule refl)
  have k2: "kept s (upd_ack (\<lambda>a. a\<lparr>ack_lrcvtime := tcp_time_stamp I\<rparr>) s2)"
    by (rule kept_trans [OF k1 kept_trans [OF k12 k(2)]])
  then obtain s3 where s3: "TCP_ECN_check_ce I b (upd_ack (\<lambda>a. a\<lparr>ack_lrcvtime := tcp_time_stamp I\<rparr>) s2) = Some s3"
    "kept s s3"
    using check_ce_kept [OF kept_aux [OF k2 s]] kept_trans by blast
  obtain s4 where "tcp_grow_window I b s3 = Some s4" "kept s3 s4" using grow_window_kept [OF law(1)] by blast
  then have s4: "tcp_grow_window I b s3 = Some s4" "kept s s4" using kept_trans [OF s3(2)] by simp_all
  show ?thesis unfolding s2 s3(1) s4(1) bind.bind_lunit using s3(2) s4(2) by (cases "128 \<le> sg_len b") simp_all
qed

lemma space_adjust_kept:
  assumes law: "win_law I" and s: "aux_ok s"
  shows "\<exists>s'. tcp_rcv_space_adjust I s = Some s' \<and> kept s s'"
proof -
  define mss where "mss = uint (advmss s)"
  have mss: "0 \<le> mss" "mss \<le> 65535" using uint_lt2p [of "advmss s"] by (simp_all add: mss_def)
  have "SKB_TRUESIZE I (mss + MAX_TCP_HEADER I) < 2 ^ 20 + 128" using law mss by (fastforce simp: win_law_def)
  moreover have "\<not> tcp_win_from_space I m < mss" if "2 ^ 20 \<le> m" "m < 2 ^ 20 + 128" for m
  proof -
    have "65535 \<le> tcp_win_from_space I m" using law that(1) unfolding win_law_def by blast
    then show ?thesis using mss(2) by simp
  qed
  ultimately obtain r where "rcvmem_loop (\<lambda>m. tcp_win_from_space I m < mss) (SKB_TRUESIZE I (mss + MAX_TCP_HEADER I)) = Some r"
    using rcvmem_loop_total [of "2 ^ 20" "\<lambda>m. tcp_win_from_space I m < mss"] by blast
  moreover have "advmss s \<noteq> 0" using s by (simp add: aux_ok_def)
  ultimately show ?thesis
    unfolding tcp_rcv_space_adjust_def Let_def by (simp add: mss_def) (simp add: kept_defs)
qed

lemma frames:
  assumes "frame_law I"
  shows "kept s (send_ack I s)" "kept s (tcp_set_state I st s)" "kept s (sock_rfree I b s)"
    "kept s (tcp_fast_path_check I s)" "\<not> sk_dead s \<Longrightarrow> kept s (tcp_done I s)"
  using assms kept_trans [OF _ kept_simple(2)] by (auto simp: frame_law_def send_ack_def)

lemma kept_rfree_ofo: "kept s s' \<Longrightarrow> kept (s\<lparr>out_of_order_queue := q\<rparr>) (s'\<lparr>out_of_order_queue := q\<rparr>)"
  by (simp add: kept_defs)

lemma purge_fixed:
  assumes "frame_law I"
  shows "fixed s (purge_ofo I s)" "sk_receive_queue (purge_ofo I s) = sk_receive_queue s" "out_of_order_queue (purge_ofo I s) = []"
proof -
  have "kept s (fold (sock_rfree I) q s)" for q
  proof (induction q arbitrary: s)
    case (Cons b q)
    show ?case using kept_trans [OF frames(3) [OF assms] Cons.IH] by simp
  qed simp
  from this [of "out_of_order_queue s"]
  show "fixed s (purge_ofo I s)" "sk_receive_queue (purge_ofo I s) = sk_receive_queue s" "out_of_order_queue (purge_ofo I s) = []"
    by (simp_all add: purge_ofo_def kept_defs)
qed

lemma reset_sacks_kept: "sack_reset_law (tv I) \<Longrightarrow> kept s (reset_sacks I s)"
  by (simp add: kept_defs reset_sacks_def sack_reset_law_def sacks_ok_def)

lemma to_time_wait_kept: "frame_law I \<Longrightarrow> \<not> sk_dead s \<Longrightarrow> kept s (to_time_wait I st t s)"
  unfolding to_time_wait_def by (rule kept_trans [OF kept_simple(2) frames(5)]) (simp_all add: sk_event_def)

lemma fin_state_kept:
  assumes "frame_law I" "\<not> sk_dead s"
  shows "kept s (fin_state I s)"
proof -
  have p: "kept s (upd_ack (\<lambda>a. a\<lparr>ack_pingpong := 1\<rparr>) (tcp_set_state I st s))" for st
    by (rule kept_trans [OF frames(2) [OF assms(1)] kept_upd_ack]) simp
  have t: "kept s (to_time_wait I TCP_TIME_WAIT 0 (send_ack I s))"
    using kept_dead [OF frames(1) [OF assms(1)]] assms(2)
    by (intro kept_trans [OF frames(1) [OF assms(1)] to_time_wait_kept [OF assms(1)]]) simp
  have c: "kept s (tcp_set_state I TCP_CLOSING (send_ack I s))"
    by (rule kept_trans [OF frames(1) [OF assms(1)] frames(2) [OF assms(1)]])
  show ?thesis by (cases "sk_state s") (simp_all add: fin_state_def p t c)
qed

lemma fin_ok:
  assumes law: "frame_law I" "sack_reset_law (tv I)" and "\<not> sk_dead s"
  shows "fixed s (tcp_fin I s) \<and> sk_receive_queue (tcp_fin I s) = sk_receive_queue s \<and> out_of_order_queue (tcp_fin I s) = []"
proof -
  define s1 where "s1 = inet_csk_schedule_ack s"
  define s2 where "s2 = s1\<lparr>sk_shutdown := sk_shutdown s1 OR RCV_SHUTDOWN, sk_done := True\<rparr>"
  define s3 where "s3 = purge_ofo I (fin_state I s2)"
  define s4 where "s4 = (if tcp_is_sack I (rx_opt s3) then reset_sacks I s3 else s3)"
  have "kept s s1" by (simp add: s1_def)
  moreover have "kept s1 s2" by (simp add: s2_def kept_defs)
  ultimately have k2: "kept s s2" by (rule kept_trans)
  moreover have "kept s2 (fin_state I s2)" using fin_state_kept [OF law(1)] kept_dead [OF k2] assms(3) by simp
  ultimately have "kept s (fin_state I s2)" by (rule kept_trans)
  with purge_fixed [OF law(1), of "fin_state I s2"]
  have k3: "fixed s s3" "sk_receive_queue s3 = sk_receive_queue s" "out_of_order_queue s3 = []"
    unfolding s3_def by (auto simp: kept_def intro: fixed_trans)
  have "kept s3 s4" using reset_sacks_kept [OF law(2)] by (simp add: s4_def)
  also have "kept s4 (sk_mem_reclaim I s4)" by simp
  also have "kept (sk_mem_reclaim I s4) (tcp_fin I s)"
  proof -
    have "kept x (sk_event e1 (sk_event e2 x))" for x e1 e2 by (rule kept_trans [OF kept_simple(2) kept_simple(2)])
    then show ?thesis unfolding tcp_fin_def Let_def s1_def [symmetric] s2_def [symmetric] s3_def [symmetric] s4_def [symmetric] by simp
  qed
  finally show ?thesis using k3 by (auto simp: kept_def intro: fixed_trans)
qed

end
