(* ===== verification/Tcp_Collapse_Correct.thy ===== *)
theory Tcp_Collapse_Correct
  imports Tcp_Rcvq_Frame
begin

text \<open>
  Collapsing keeps the stream: the queue that \<open>tcp_collapse\<close> leaves behind holds the same positions with the same bytes,
  no buffer is read out of its bounds (no \<^verbatim>\<open>BUG\<close>), and the loops end.
\<close>

text \<open>Copying out of a buffer, within its bounds, yields the bytes that are there.\<close>

definition copy_law :: "ienv \<Rightarrow> bool" where
  "copy_law I \<longleftrightarrow>
     (\<forall>b k n. 0 \<le> k \<longrightarrow> 0 \<le> n \<longrightarrow> k + n \<le> int (length (sg_bytes b)) \<longrightarrow>
        skb_copy_bits I b k n = Some (take (nat n) (drop (nat k) (sg_bytes b)))) \<and>
     (\<forall>b n bs. skb_copy_datagram_iovec I b 0 n = Some bs \<longrightarrow> bs = take (nat n) (sg_bytes b))"

text \<open>
  The room in a page behind the headers is below 64k, and it is not zero: with a header that leaves exactly no room the
  loop of \<open>tcp_collapse\<close> would allocate empty buffers for ever.
\<close>

definition room_law :: "ienv \<Rightarrow> bool" where
  "room_law I \<longleftrightarrow> (\<forall>b. SKB_MAX_ORDER I (skb_headroom I b) \<noteq> 0 \<and> SKB_MAX_ORDER I (skb_headroom I b) < 2 ^ 16)"

text \<open>A buffer that is being filled: it holds the stream from \<open>n0\<close> to \<open>a\<close>.\<close>

definition filled :: "(int \<Rightarrow> u8) \<Rightarrow> int \<Rightarrow> u32 \<Rightarrow> int \<Rightarrow> int \<Rightarrow> skb \<Rightarrow> bool" where
  "filled strm R r n0 a n \<longleftrightarrow> \<not> sg_syn n \<and> \<not> sg_fin n \<and> sg_pulled n \<le> 60 \<and> posn R r (sg_seq n) = n0 \<and>
     posn R r (sg_end_seq n) = a \<and> n0 \<le> a \<and> a - n0 < 2 ^ 16 \<and> uint (sg_len n) = a - n0 \<and> sg_bytes n = stream strm n0 a"

lemma filled_gapless:
  assumes "filled strm R r n0 a n" "n0 < a"
  shows "gapless strm R r n0 [n] a"
proof -
  have len: "uint (sg_len n) = a - n0" "a - n0 < 2 ^ 16" and n: "posn R r (sg_seq n) = n0" "\<not> sg_fin n"
    using assms(1) by (simp_all add: filled_def)
  have u: "unat (sg_len n) = nat (a - n0)" unfolding unat_eq_nat_uint by (simp only: len(1))
  have "sg_len n < 2 ^ 16" using len by (simp add: word_less_def)
  moreover have "sg_bytes n = map (\<lambda>i. strm (posn R r (sg_seq n) + int i)) [0 ..< unat (sg_len n)]"
    unfolding u n(1) using assms(1) by (simp add: filled_def stream_def)
  moreover have "length (sg_bytes n) = unat (sg_len n)" unfolding u using assms(1) by (simp add: filled_def)
  ultimately have "skb_ok strm R r n"
    using assms(1) n(2) len(1) unfolding skb_ok_def by (simp add: filled_def seglen_def)
  with assms show ?thesis by (simp add: filled_def)
qed

lemma fill_done: "copy \<le> 0 \<Longrightarrow> q \<noteq> [] \<Longrightarrow> collapse_fill I start copy n q s = Some (False, start, n, q, s)"
  by (subst collapse_fill.simps) (auto split: list.splits)

text \<open>The positions that matter are in the reach of comparisons.\<close>

definition reach :: "int \<Rightarrow> int \<Rightarrow> int \<Rightarrow> bool" where
  "reach R a c \<longleftrightarrow> R - 2 ^ 31 + 2 ^ 16 \<le> a \<and> c < R + 2 ^ 31 \<and> c - a < 2 ^ 31 - 2 ^ 16"

text \<open>One step of the innermost loop.\<close>

lemma fill_step:
  assumes law: "copy_law I" and ch: "gapless strm R r a (b # q) c" and a: "a = posn R r start" and nf: "\<not> sg_fin b"
    and copy: "0 < copy" and n: "filled strm R r n0 a n" "a - n0 + copy < 2 ^ 16" and re: "reach R a c"
  defines "avail \<equiv> sint (sg_end_seq b - start)"
  defines "sz \<equiv> min copy avail"
  defines "n1 \<equiv> n\<lparr>sg_end_seq := sg_end_seq n + word_of_int sz, sg_len := sg_len n + word_of_int sz,
                 sg_bytes := sg_bytes n @ stream strm a (a + sz)\<rparr>"
  shows "avail = posn R r (sg_end_seq b) - a" "0 < avail" "0 < sz" "\<not> sint (start - sg_seq b) < 0"
    "skb_copy_bits I b (sint (start - sg_seq b)) sz = Some (stream strm a (a + sz))"
    "posn R r (start + word_of_int sz) = a + sz" "filled strm R r n0 (a + sz) n1"
proof -
  have ok: "skb_ok strm R r b" and le: "posn R r (sg_seq b) \<le> a" "a < posn R r (sg_end_seq b)" using ch by auto
  have mem: "posn R r (sg_end_seq b) \<le> c" "a - 2 ^ 16 \<le> posn R r (sg_seq b)" using gapless_mem [OF ch] by simp_all
  have e: "posn R r (sg_end_seq b) = posn R r (sg_seq b) + uint (sg_len b)"
    using ok nf by (simp add: skb_ok_def seglen_def)
  show avail: "avail = posn R r (sg_end_seq b) - a"
    unfolding avail_def a using le mem re by (intro posn_sint) (simp add: a reach_def)
  then show "0 < avail" "0 < sz" using le(2) copy by (simp_all add: sz_def)
  have off: "sint (start - sg_seq b) = a - posn R r (sg_seq b)"
    unfolding a using le mem re by (intro posn_sint) (simp add: a reach_def)
  then show "\<not> sint (start - sg_seq b) < 0" using le by simp
  have sz: "sz \<le> posn R r (sg_end_seq b) - a" "sz \<le> copy" by (simp_all add: sz_def avail)
  have bytes: "sg_bytes b = stream strm (posn R r (sg_seq b)) (posn R r (sg_end_seq b))"
    unfolding e by (rule skb_bytes [OF ok])
  have "take (nat sz) (drop (nat (a - posn R r (sg_seq b))) (sg_bytes b)) = stream strm a (a + sz)"
    unfolding bytes using le sz \<open>0 < sz\<close> stream_take [of a "a + sz" "posn R r (sg_end_seq b)" strm] by (simp add: stream_drop)
  moreover have "a - posn R r (sg_seq b) + sz \<le> int (length (sg_bytes b))"
    unfolding bytes stream_length using le sz by simp
  ultimately show "skb_copy_bits I b (sint (start - sg_seq b)) sz = Some (stream strm a (a + sz))"
    unfolding off using law le \<open>0 < sz\<close> by (simp add: copy_law_def)
  have range: "R - 2 ^ 31 \<le> a + sz" "a + sz < R + 2 ^ 31" using re sz mem \<open>0 < sz\<close> by (simp_all add: reach_def)
  then show "posn R r (start + word_of_int sz) = a + sz" using posn_add [of R r start sz] by (simp add: a)
  have "posn R r (sg_end_seq n + word_of_int sz) = a + sz"
    using range posn_add [of R r "sg_end_seq n" sz] n(1) by (simp add: filled_def)
  moreover have "uint (sg_len n + word_of_int sz) = a + sz - n0"
  proof -
    have "sg_len n + word_of_int sz = word_of_int (a - n0 + sz)"
      using n(1) word_of_int_uint [of "sg_len n"] by (simp add: filled_def)
    moreover have "0 \<le> a - n0 + sz" "a - n0 + sz < 2 ^ 32" using n sz \<open>0 < sz\<close> by (simp_all add: filled_def)
    then have "uint (word_of_int (a - n0 + sz) :: u32) = a - n0 + sz" by (rule uint_of_int)
    ultimately show ?thesis by presburger
  qed
  moreover have "stream strm n0 a @ stream strm a (a + sz) = stream strm n0 (a + sz)"
    using n(1) \<open>0 < sz\<close> by (intro stream_append) (simp_all add: filled_def)
  ultimately show "filled strm R r n0 (a + sz) n1"
    using n sz \<open>0 < sz\<close> by (simp add: filled_def n1_def)
qed

text \<open>The innermost loop.\<close>

definition fill_post :: "(int \<Rightarrow> u8) \<Rightarrow> int \<Rightarrow> u32 \<Rightarrow> int \<Rightarrow> int \<Rightarrow> skb list \<Rightarrow> int \<Rightarrow> tcp_sock \<Rightarrow>
    bool \<times> u32 \<times> skb \<times> skb list \<times> tcp_sock \<Rightarrow> bool" where
  "fill_post strm R r n0 a q c s x \<longleftrightarrow> (case x of (stop, start1, n1, q1, s1) \<Rightarrow>
     kept s s1 \<and> a \<le> posn R r start1 \<and> filled strm R r n0 (posn R r start1) n1 \<and>
     gapless strm R r (posn R r start1) q1 c \<and> set q1 \<subseteq> set q \<and> (\<not> stop \<longrightarrow> q1 \<noteq> [] \<and> \<not> sg_fin (hd q1)))"

lemma fill_postI:
  assumes "kept s s1" "a \<le> posn R r start1" "filled strm R r n0 (posn R r start1) n1"
    "gapless strm R r (posn R r start1) q1 c" "set q1 \<subseteq> set q" "\<not> stop \<Longrightarrow> q1 \<noteq> [] \<and> \<not> sg_fin (hd q1)"
  shows "fill_post strm R r n0 a q c s (stop, start1, n1, q1, s1)"
  using assms by (simp add: fill_post_def)

lemma fill_ok:
  assumes law: "copy_law I" "seq_law (tv I)" "frame_law I" and re: "reach R a c"
    and "gapless strm R r a q c" "a = posn R r start" "q \<noteq> []" "\<not> sg_fin (hd q)" "0 \<le> copy"
    and "filled strm R r n0 a n" "a - n0 + copy < 2 ^ 16"
  shows "\<exists>x. collapse_fill I start copy n q s = Some x \<and> fill_post strm R r n0 (a + min copy 1) q c s x"
  using re assms(5-)
proof (induction q arbitrary: a start copy n s)
  case (Cons b q)
  show ?case
  proof (cases "copy = 0")
    case True
    have "fill_post strm R r n0 a (b # q) c s (False, start, n, b # q, s)"
      using Cons.prems(2,3,5,7) by (intro fill_postI) simp_all
    then show ?thesis using True by (simp add: fill_done)
  next
    case False
    define sz where "sz = min copy (sint (sg_end_seq b - start))"
    define start1 where "start1 = start + word_of_int sz"
    define n1 where "n1 = n\<lparr>sg_end_seq := sg_end_seq n + word_of_int sz, sg_len := sg_len n + word_of_int sz,
                 sg_bytes := sg_bytes n @ stream strm a (a + sz)\<rparr>"
    have nf: "\<not> sg_fin b" and copy: "0 < copy" using Cons.prems False by simp_all
    note step = fill_step [OF law(1) Cons.prems(2,3) nf copy Cons.prems(7,8,1), folded sz_def start1_def n1_def]
    have mem: "posn R r (sg_end_seq b) \<le> c" using gapless_mem [OF Cons.prems(2)] by simp
    have a1: "posn R r start1 = a + sz" "filled strm R r n0 (a + sz) n1" using step(6,7) by (simp_all add: n1_def)
    have sz: "sz = min copy (posn R r (sg_end_seq b) - a)" using step(1) by (simp add: sz_def)
    have bef: "before (tv I) start1 (sg_end_seq b) \<longleftrightarrow> a + sz < posn R r (sg_end_seq b)"
      using posn_before(1) [OF law(2), of R r start1 "sg_end_seq b"] a1(1) sz mem Cons.prems(1) copy by (auto simp: reach_def)
    have eq: "collapse_fill I start copy n (b # q) s =
      (if \<not> before (tv I) start1 (sg_end_seq b) then
         if q = [] \<or> sg_syn (hd q) \<or> sg_fin (hd q) then Some (True, start1, n1, q, sock_rfree I b s)
         else collapse_fill I start1 (copy - sz) n1 q (sock_rfree I b s)
       else collapse_fill I start1 (copy - sz) n1 (b # q) s)"
      using step(2,4,5) copy by (subst collapse_fill.simps) (simp add: Let_def sz_def [symmetric] start1_def n1_def)
    show ?thesis
    proof (cases "a + sz < posn R r (sg_end_seq b)")
      case True
      then have "copy - sz = 0" using sz by simp
      then have "collapse_fill I start copy n (b # q) s = Some (False, start1, n1, b # q, s)"
        unfolding eq using True bef fill_done [of 0] by simp
      moreover have "gapless strm R r (a + sz) (b # q) c" using Cons.prems(2) True step(3) by simp
      then have "fill_post strm R r n0 (a + min copy 1) (b # q) c s (False, start1, n1, b # q, s)"
        using a1 step(3) nf by (intro fill_postI) simp_all
      ultimately show ?thesis by blast
    next
      case False
      then have e: "a + sz = posn R r (sg_end_seq b)" using sz by simp
      have ch: "gapless strm R r (a + sz) q c" using Cons.prems(2) e by simp
      have k: "kept s (sock_rfree I b s)" by (rule frames(3) [OF law(3)])
      show ?thesis
      proof (cases "q = [] \<or> sg_syn (hd q) \<or> sg_fin (hd q)")
        case True
        then have "collapse_fill I start copy n (b # q) s = Some (True, start1, n1, q, sock_rfree I b s)"
          unfolding eq using False bef by simp
        moreover have "fill_post strm R r n0 (a + min copy 1) (b # q) c s (True, start1, n1, q, sock_rfree I b s)"
          using a1 step(3) ch k by (intro fill_postI) auto
        ultimately show ?thesis by blast
      next
        case stop: False
        have re1: "reach R (a + sz) c" using Cons.prems(1) step(3) by (simp add: reach_def)
        have "\<exists>x. collapse_fill I start1 (copy - sz) n1 q (sock_rfree I b s) = Some x \<and>
          fill_post strm R r n0 (a + sz + min (copy - sz) 1) q c (sock_rfree I b s) x"
          using stop sz Cons.prems(8) by (intro Cons.IH re1 ch a1(1) [symmetric] a1(2)) auto
        then obtain x where x: "collapse_fill I start1 (copy - sz) n1 q (sock_rfree I b s) = Some x"
          "fill_post strm R r n0 (a + sz + min (copy - sz) 1) q c (sock_rfree I b s) x" by blast
        have "collapse_fill I start copy n (b # q) s = Some x" unfolding eq using False bef stop x(1) by simp
        moreover have "a + min copy 1 \<le> a + sz + min (copy - sz) 1" using step(3) sz copy by auto
        with x(2) have "fill_post strm R r n0 (a + min copy 1) (b # q) c s x"
          using kept_trans [OF k] by (auto simp: fill_post_def)
        ultimately show ?thesis by blast
      qed
    qed
  qed
qed simp

text \<open>The loop over new buffers. \<open>lo\<close> is a bound of where buffers start.\<close>

lemma copy_ok:
  assumes law: "copy_law I" "seq_law (tv I)" "frame_law I" "room_law I"
    and "reach R a c" "gapless strm R r a q c" "a = posn R r start" "c = posn R r lim" "q \<noteq> []" "\<not> sg_fin (hd q)"
    and "\<forall>b \<in> set q. lo \<le> posn R r (sg_seq b)" "lo \<le> a"
  shows "\<exists>m s1. collapse_copy I lim start pre q s = Some (pre @ m, s1) \<and> kept s s1 \<and> gapless strm R r a m c \<and>
    (\<forall>b \<in> set m. lo \<le> posn R r (sg_seq b))"
  using assms(5-)
proof (induction "nat (c - a)" arbitrary: a start pre q s rule: less_induct)
  case less
  obtain b q1 where q: "q = b # q1" using less.prems(5) by (cases q) auto
  define room where "room = SKB_MAX_ORDER I (skb_headroom I b)"
  define copy where "copy = (if lim - start < word_of_int room then uint (lim - start) else room)"
  have ac: "a < c" using gapless_le [OF less.prems(2)] less.prems(5) by simp
  have bef: "before (tv I) start lim"
    using posn_before(1) [OF law(2), of R r start lim] less.prems(1,3,4) ac by (simp add: reach_def)
  have room: "room \<noteq> 0" "room < 2 ^ 16" using law(4) by (simp_all add: room_law_def room_def)
  have same: ?case if "collapse_copy I lim start pre q s = Some (pre @ q, s)" using that less.prems by auto
  show ?case
  proof (cases "room < 0 \<or> alloc_skb I (copy + skb_headroom I b) = None")
    case True
    then have "collapse_copy I lim start pre q s = Some (pre @ q, s)"
      unfolding q using bef by (subst collapse_copy.simps) (auto simp: Let_def room_def copy_def)
    then show ?thesis by (rule same)
  next
    case False
    then obtain ts where ts: "alloc_skb I (copy + skb_headroom I b) = Some ts" and pos: "0 < room" using room by auto
    define n where "n = b\<lparr>sg_seq := start, sg_end_seq := start, sg_len := 0, sg_bytes := [], sg_truesize := ts, sg_gso_size := 0\<rparr>"
    have d: "lim - start = word_of_int (c - a)" using posn_diff [of lim start R r] less.prems(3,4) by simp
    have ud: "uint (lim - start) = c - a" unfolding d using less.prems(1) ac by (intro uint_of_int) (simp_all add: reach_def)
    have "lim - start < word_of_int room \<longleftrightarrow> c - a < room"
      unfolding word_less_def ud using uint_of_int [of room] pos room by simp
    then have copy: "0 < copy" "copy < 2 ^ 16" using ud pos room ac by (auto simp: copy_def)
    have eq: "collapse_copy I lim start pre q s = do {
        (stop, start1, n1, q2, s1) \<leftarrow> collapse_fill I start copy n q (skb_set_owner_r n s);
        if stop then Some (pre @ [n1] @ q2, s1) else collapse_copy I lim start1 (pre @ [n1]) q2 s1 }"
      unfolding q
      by (subst collapse_copy.simps, unfold list.case Let_def room_def [symmetric] copy_def [symmetric])
        (use bef False ts in \<open>simp add: n_def\<close>)
    have ok: "skb_ok strm R r b" using less.prems(2) q by simp
    have "filled strm R r a a n"
      using ok less.prems(3,6) q by (simp add: filled_def n_def skb_ok_def)
    then have "\<exists>x. collapse_fill I start copy n q (skb_set_owner_r n s) = Some x \<and>
        fill_post strm R r a (a + min copy 1) q c (skb_set_owner_r n s) x"
      using copy by (intro fill_ok [OF law(1-3) less.prems(1-3,5,6)]) simp_all
    then obtain stop start1 n1 q2 s1 where f: "collapse_fill I start copy n q (skb_set_owner_r n s) = Some (stop, start1, n1, q2, s1)"
      "kept (skb_set_owner_r n s) s1" "a + min copy 1 \<le> posn R r start1" "filled strm R r a (posn R r start1) n1"
      "gapless strm R r (posn R r start1) q2 c" "set q2 \<subseteq> set q" "\<not> stop \<longrightarrow> q2 \<noteq> [] \<and> \<not> sg_fin (hd q2)"
      unfolding fill_post_def by auto
    define a1 where "a1 = posn R r start1"
    have a1: "a < a1" "a1 \<le> c" using f(3) copy gapless_le [OF f(5)] by (simp_all add: a1_def)
    have n1: "gapless strm R r a [n1] a1" using filled_gapless f(4) a1(1) by (simp add: a1_def)
    have lo1: "lo \<le> posn R r (sg_seq n1)" using f(4) less.prems(8) by (simp add: filled_def)
    have k: "kept s s1" using kept_trans [OF kept_simple(4) f(2)] .
    show ?thesis
    proof (cases stop)
      case True
      then have "collapse_copy I lim start pre q s = Some (pre @ ([n1] @ q2), s1)" by (simp add: eq f(1))
      moreover have "gapless strm R r a ([n1] @ q2) c" using gapless_appendI [OF n1] f(5) by (simp add: a1_def)
      ultimately show ?thesis using k lo1 f(6) less.prems(7) by auto
    next
      case stop: False
      have "nat (c - a1) < nat (c - a)" "reach R a1 c" using a1 less.prems(1) by (simp_all add: reach_def)
      moreover have "gapless strm R r a1 q2 c" "\<forall>b \<in> set q2. lo \<le> posn R r (sg_seq b)" "lo \<le> a1"
        using f(5,6) less.prems(7,8) a1 by (auto simp: a1_def)
      ultimately obtain m s2 where m:
        "collapse_copy I lim start1 (pre @ [n1]) q2 s1 = Some ((pre @ [n1]) @ m, s2)" "kept s1 s2" "gapless strm R r a1 m c"
        "\<forall>b \<in> set m. lo \<le> posn R r (sg_seq b)"
        using less.hyps [OF _ _ _ a1_def less.prems(4), of q2 "pre @ [n1]" s1] f(7) stop by blast
      have "collapse_copy I lim start pre q s = Some (pre @ ([n1] @ m), s2)" using m(1) stop by (simp add: eq f(1))
      moreover have "gapless strm R r a ([n1] @ m) c" using gapless_appendI [OF n1 m(3)] .
      ultimately show ?thesis using kept_trans [OF k m(2)] lo1 m(4) by auto
    qed
  qed
qed

text \<open>The first loop skips buffers; in a queue without gaps and superfluous buffers it frees none.\<close>

lemma scan_ok:
  assumes law: "seq_law (tv I)" and "reach R a c" "gapless strm R r a q c" "a = posn R r start"
  shows "\<exists>e start1 m q1. collapse_scan I start pre q s = (e, start1, pre @ m, q1, s) \<and> q = m @ q1 \<and>
    gapless strm R r a m (posn R r start1) \<and> gapless strm R r (posn R r start1) q1 c \<and> (e \<longleftrightarrow> q1 = [])"
  using assms(2-)
proof (induction q arbitrary: a start pre)
  case (Cons b q)
  have mem: "posn R r (sg_end_seq b) \<le> c" "a < posn R r (sg_end_seq b)" using gapless_mem [OF Cons.prems(2)] by simp_all
  have bef: "before (tv I) start (sg_end_seq b)"
    using posn_before(1) [OF law, of R r start "sg_end_seq b"] mem Cons.prems(1,3) by (simp add: reach_def)
  define w where "w \<longleftrightarrow> \<not> sg_syn b \<and> \<not> sg_fin b \<and>
      (sg_len b < word_of_int (tcp_win_from_space I (uint (sg_truesize b))) \<or> before (tv I) (sg_seq b) start) \<or>
      q \<noteq> [] \<and> sg_end_seq b \<noteq> sg_seq (hd q)"
  have sc: "collapse_scan I start pre (b # q) s =
      (if w then (False, start, pre, b # q, s) else collapse_scan I (sg_end_seq b) (pre @ [b]) q s)"
    unfolding collapse_scan.simps w_def using bef by (simp only: not_True_eq_False if_False) argo
  show ?case
  proof (cases w)
    case True
    then have "collapse_scan I start pre (b # q) s = (False, start, pre, b # q, s)" by (simp only: sc if_True)
    then show ?thesis using Cons.prems by (intro exI [of _ False] exI [of _ start] exI [of _ "[]"] exI [of _ "b # q"]) simp
  next
    case False
    then have eq: "collapse_scan I start pre (b # q) s = collapse_scan I (sg_end_seq b) (pre @ [b]) q s"
      by (simp only: sc if_False)
    have "reach R (posn R r (sg_end_seq b)) c" using Cons.prems(1) mem by (simp add: reach_def)
    from Cons.IH [OF this _ refl, of "pre @ [b]"] obtain e start1 m q1 where
      "collapse_scan I (sg_end_seq b) (pre @ [b]) q s = (e, start1, (pre @ [b]) @ m, q1, s)" "q = m @ q1"
      "gapless strm R r (posn R r (sg_end_seq b)) m (posn R r start1)" "gapless strm R r (posn R r start1) q1 c" "e \<longleftrightarrow> q1 = []"
      using Cons.prems(2) by auto
    then show ?thesis using eq Cons.prems(2)
      by (intro exI [of _ e] exI [of _ start1] exI [of _ "b # m"] exI [of _ q1]) simp
  qed
qed auto

lemma collapse_ok:
  assumes law: "copy_law I" "seq_law (tv I)" "frame_law I" "room_law I"
    and re: "reach R a c" and ch: "gapless strm R r a q c" and a: "a = posn R r start" and c: "c = posn R r lim"
    and lo: "\<forall>b \<in> set q. lo \<le> posn R r (sg_seq b)" "lo \<le> a"
  shows "\<exists>m s1. tcp_collapse I start lim q s = Some (m, s1) \<and> kept s s1 \<and> gapless strm R r a m c \<and>
    (\<forall>b \<in> set m. lo \<le> posn R r (sg_seq b))"
proof -
  obtain e start1 m q1 where sc: "collapse_scan I start [] q s = (e, start1, m, q1, s)" "q = m @ q1"
    "gapless strm R r a m (posn R r start1)" "gapless strm R r (posn R r start1) q1 c" "e \<longleftrightarrow> q1 = []"
    using scan_ok [OF law(2) re ch a, of "[]" s] by auto
  show ?thesis
  proof (cases "e \<or> sg_syn (hd q1) \<or> sg_fin (hd q1)")
    case True
    then have "tcp_collapse I start lim q s = Some (m @ q1, s)" by (simp add: tcp_collapse_def sc(1))
    then have "tcp_collapse I start lim q s = Some (q, s)" by (simp only: sc(2) [symmetric])
    then show ?thesis using ch lo by auto
  next
    case False
    then have eq: "tcp_collapse I start lim q s = collapse_copy I lim start1 m q1 s" by (simp add: tcp_collapse_def sc(1))
    have a1: "a \<le> posn R r start1" using gapless_le [OF sc(3)] by simp
    then have "reach R (posn R r start1) c" using re by (simp add: reach_def)
    from copy_ok [OF law this sc(4) refl c, of lo m s] obtain m1 s1 where
      "collapse_copy I lim start1 m q1 s = Some (m @ m1, s1)" "kept s s1" "gapless strm R r (posn R r start1) m1 c"
      "\<forall>b \<in> set m1. lo \<le> posn R r (sg_seq b)"
      using False sc(2,5) lo a1 by auto
    then show ?thesis unfolding eq using gapless_appendI [OF sc(3)] sc(2) lo by auto
  qed
qed

section \<open>The out-of-order queue\<close>

abbreviation starts :: "int \<Rightarrow> u32 \<Rightarrow> skb \<Rightarrow> int" where
  "starts R r b \<equiv> posn R r (sg_seq b)"

abbreviation stops :: "int \<Rightarrow> u32 \<Rightarrow> skb \<Rightarrow> int" where
  "stops R r b \<equiv> posn R r (sg_end_seq b)"

definition ofo_bufs :: "(int \<Rightarrow> u8) \<Rightarrow> int \<Rightarrow> u32 \<Rightarrow> int \<Rightarrow> int \<Rightarrow> skb list \<Rightarrow> bool" where
  "ofo_bufs strm R r lo hi q \<longleftrightarrow> (\<forall>b \<in> set q. skb_ok strm R r b \<and> lo \<le> starts R r b \<and> starts R r b < stops R r b \<and> stops R r b \<le> hi)"

lemma gapless_heads_append:
  "gapless strm R r a m c \<Longrightarrow> heads (starts R r) (stops R r) c q \<Longrightarrow> heads (starts R r) (stops R r) a (m @ q)"
  by (induction m arbitrary: a) auto

text \<open>A run without gaps, behind a gap, followed by the rest of the queue.\<close>

lemma run_heads:
  assumes "gapless strm R r a m c" "m \<noteq> []" "e < a" "\<forall>b \<in> set (m @ q). a \<le> starts R r b" "heads (starts R r) (stops R r) c q"
  shows "heads (starts R r) (stops R r) e (m @ q)"
proof -
  obtain b m1 where m: "m = b # m1" using assms(2) by (cases m) auto
  have "heads (starts R r) (stops R r) a (m @ q)" by (rule gapless_heads_append [OF assms(1,5)])
  moreover have "starts R r b \<le> a" using assms(1) m by simp
  ultimately show ?thesis using assms(3,4) unfolding m by auto
qed

lemma gapless_ofo_bufs:
  assumes "gapless strm R r a m c" "\<forall>b \<in> set m. a \<le> starts R r b" "lo \<le> a" "c \<le> hi"
  shows "ofo_bufs strm R r lo hi m"
  unfolding ofo_bufs_def
proof
  fix b assume b: "b \<in> set m"
  then obtain q1 q2 where q: "m = q1 @ b # q2" by (meson split_list)
  then obtain x where "gapless strm R r x (b # q2) c" using assms(1) gapless_append by blast
  then show "skb_ok strm R r b \<and> lo \<le> starts R r b \<and> starts R r b < stops R r b \<and> stops R r b \<le> hi"
    using gapless_mem(3) [OF assms(1) b] assms(2-4) b by force
qed

lemma runs_ok:
  assumes law: "copy_law I" "seq_law (tv I)" "frame_law I" "room_law I"
    and re: "reach R lo hi"
    and "gapless strm R r a run c" "run \<noteq> []" "a = posn R r start" "c = posn R r lim" "lo \<le> a" "c \<le> hi" "e < a"
    and "\<forall>b \<in> set (run @ q). a \<le> starts R r b" "ofo_bufs strm R r lo hi q" "heads (starts R r) (stops R r) c q"
  shows "\<exists>m s1. collapse_runs I pre run start lim q s = Some (pre @ m, s1) \<and> kept s s1 \<and>
    heads (starts R r) (stops R r) e m \<and> ofo_bufs strm R r lo hi m \<and> (\<forall>b \<in> set m. a \<le> starts R r b)"
  using assms(6-)
proof (induction q arbitrary: pre run start lim s a c e)
  case Nil
  have "reach R a c" using re Nil.prems(5,6) by (simp add: reach_def)
  from collapse_ok [OF law this Nil.prems(1,3,4), of a s] obtain m s1 where m:
    "tcp_collapse I start lim run s = Some (m, s1)" "kept s s1" "gapless strm R r a m c" "\<forall>b \<in> set m. a \<le> starts R r b"
    using Nil.prems(8) by auto
  have "m \<noteq> []" using m(3) gapless_le [OF Nil.prems(1)] Nil.prems(2) by auto
  then have "heads (starts R r) (stops R r) e m" using run_heads [OF m(3), of e "[]"] m(4) Nil.prems(7) by simp
  moreover have "ofo_bufs strm R r lo hi m" by (rule gapless_ofo_bufs [OF m(3,4) Nil.prems(5,6)])
  ultimately show ?case using m by simp
next
  case (Cons b q)
  have b: "skb_ok strm R r b" "lo \<le> starts R r b" "starts R r b < stops R r b" "stops R r b \<le> hi" "a \<le> starts R r b"
    using Cons.prems(8,9) by (simp_all add: ofo_bufs_def)
  have c: "c < stops R r b" "a < c" using Cons.prems(10) gapless_le [OF Cons.prems(1)] Cons.prems(2) by simp_all
  have near: "x \<le> hi \<Longrightarrow> lo \<le> x \<Longrightarrow> y \<le> hi \<Longrightarrow> lo \<le> y \<Longrightarrow> \<bar>x - y\<bar> < 2 ^ 31" for x y
    using re by (simp add: reach_def abs_less_iff)
  have lo: "lo \<le> posn R r start" "posn R r start \<le> hi" "lo \<le> posn R r lim" "posn R r lim \<le> hi" "lo \<le> stops R r b" "starts R r b \<le> hi"
    using b c Cons.prems(3-6) by linarith+
  have cmp: "after (tv I) (sg_seq b) lim \<longleftrightarrow> c < starts R r b" "\<not> before (tv I) (sg_end_seq b) start"
    "\<not> before (tv I) (sg_seq b) start" "after (tv I) (sg_end_seq b) lim"
    unfolding posn_before(2) [OF law(2) near [OF lo(6) b(2) lo(4,3)]] posn_before(1) [OF law(2) near [OF b(4) lo(5,2,1)]]
      posn_before(1) [OF law(2) near [OF lo(6) b(2) lo(2,1)]] posn_before(2) [OF law(2) near [OF b(4) lo(5,4,3)]]
    using b c Cons.prems(3,4) by linarith+
  have q: "ofo_bufs strm R r lo hi q" "heads (starts R r) (stops R r) (stops R r b) q"
    using Cons.prems(9,10) by (simp_all add: ofo_bufs_def)
  show ?case
  proof (cases "c < starts R r b")
    case gap: True
    have "reach R a c" using re Cons.prems(5,6) by (simp add: reach_def)
    from collapse_ok [OF law this Cons.prems(1,3,4), of a s] obtain m s1 where m:
      "tcp_collapse I start lim run s = Some (m, s1)" "kept s s1" "gapless strm R r a m c" "\<forall>b \<in> set m. a \<le> starts R r b"
      using Cons.prems(8) by auto
    have first: "\<forall>x \<in> set q. starts R r b \<le> starts R r x" using Cons.prems(10) gap by simp
    have "gapless strm R r (starts R r b) [b] (stops R r b)" using b by simp
    from Cons.IH [OF this _ refl refl b(2,4) gap, of "pre @ m" s1] obtain m2 s2 where m2:
      "collapse_runs I (pre @ m) [b] (sg_seq b) (sg_end_seq b) q s1 = Some ((pre @ m) @ m2, s2)" "kept s1 s2"
      "heads (starts R r) (stops R r) c m2" "ofo_bufs strm R r lo hi m2" "\<forall>x \<in> set m2. starts R r b \<le> starts R r x"
      using first q by auto
    have "m \<noteq> []" using m(3) c(2) by auto
    then have "heads (starts R r) (stops R r) e (m @ m2)"
      using run_heads [OF m(3) _ Cons.prems(7) _ m2(3)] m(4) m2(5) b(5) by fastforce
    moreover have "ofo_bufs strm R r lo hi (m @ m2)"
      using gapless_ofo_bufs [OF m(3,4) Cons.prems(5,6)] m2(4) by (auto simp: ofo_bufs_def)
    moreover have "collapse_runs I pre run start lim (b # q) s = Some (pre @ (m @ m2), s2)"
      using cmp(1) gap m(1) m2(1) by simp
    moreover have "\<forall>x \<in> set (m @ m2). a \<le> starts R r x" using m(4) m2(5) b(5) by fastforce
    ultimately show ?thesis using kept_trans [OF m(2) m2(2)] by blast
  next
    case False
    have "gapless strm R r a (run @ [b]) (stops R r b)"
      using gapless_appendI [OF Cons.prems(1), of "[b]" "stops R r b"] False b(1) c(1) by simp
    moreover have "\<forall>x \<in> set ((run @ [b]) @ q). a \<le> starts R r x" using Cons.prems(8) by auto
    moreover have "collapse_runs I pre run start lim (b # q) s = collapse_runs I pre (run @ [b]) start (sg_end_seq b) q s"
      using cmp False by simp
    ultimately show ?thesis
      using Cons.IH [of a "run @ [b]" "stops R r b" start "sg_end_seq b" e pre s] Cons.prems(3,5,7) b(4) q by simp
  qed
qed

lemma collapse_ofo_ok:
  assumes law: "copy_law I" "seq_law (tv I)" "frame_law I" "room_law I"
    and re: "reach R lo hi" and q: "ofo_bufs strm R r lo hi (out_of_order_queue s)" "e < lo"
    and h: "heads (starts R r) (stops R r) e (out_of_order_queue s)"
  shows "\<exists>s1. tcp_collapse_ofo_queue I s = Some s1 \<and> fixed s s1 \<and> sk_receive_queue s1 = sk_receive_queue s \<and>
    ofo_bufs strm R r lo hi (out_of_order_queue s1) \<and> heads (starts R r) (stops R r) e (out_of_order_queue s1)"
proof (cases "out_of_order_queue s")
  case Nil
  then show ?thesis by (simp add: tcp_collapse_ofo_queue_def ofo_bufs_def)
next
  case (Cons b q1)
  have b: "skb_ok strm R r b" "lo \<le> starts R r b" "starts R r b < stops R r b" "stops R r b \<le> hi" "ofo_bufs strm R r lo hi q1"
    using q(1) Cons by (simp_all add: ofo_bufs_def)
  have "heads (starts R r) (stops R r) (stops R r b) q1" "\<forall>c \<in> set q1. starts R r b \<le> starts R r c"
    using h Cons b(2) q(2) by auto
  moreover have "gapless strm R r (starts R r b) [b] (stops R r b)" using b by simp
  ultimately obtain m s1 where m: "collapse_runs I [] [b] (sg_seq b) (sg_end_seq b) q1 s = Some (m, s1)" "kept s s1"
    "heads (starts R r) (stops R r) e m" "ofo_bufs strm R r lo hi m"
    using runs_ok [OF law re _ _ refl refl b(2,4), of strm "[b]" e q1 "[]" s] b(2,5) q(2) by auto
  have "fixed s (s1\<lparr>out_of_order_queue := m\<rparr>)" using m(2) by (simp add: kept_defs)
  then show ?thesis using m Cons by (simp add: tcp_collapse_ofo_queue_def kept_def)
qed

end
