(* ===== verification/Tcp_Rcvq_Correct.thy ===== *)
theory Tcp_Rcvq_Correct
  imports Tcp_Collapse_Correct
begin

text \<open>
  The invariant of the receive queues and its preservation by \<open>tcp_data_queue\<close>: the receive queue holds the stream from
  what the user has read up to the next expected byte, the out-of-order queue holds parts of the stream behind it.
\<close>

section \<open>The invariant\<close>

text \<open>
  \<open>R\<close> is the position of the next expected byte. The receive queue ends at \<open>c\<close>, which is \<open>R\<close> except after a FIN that
  was consumed together with its data by a waiting process.
\<close>

definition ofo_end :: "int \<Rightarrow> int" where
  "ofo_end R = R + 2 ^ 30 + 2 ^ 17"

definition unread_from :: "int \<Rightarrow> tcp_sock \<Rightarrow> int" where
  "unread_from R s = posn R (rcv_nxt s) (copied_seq s)"

definition rcv_ok :: "(int \<Rightarrow> u8) \<Rightarrow> int \<Rightarrow> int \<Rightarrow> tcp_sock \<Rightarrow> bool" where
  "rcv_ok strm R c s \<longleftrightarrow> aux_ok s \<and> gapless strm R (rcv_nxt s) (unread_from R s) (sk_receive_queue s) c \<and>
     ofo_bufs strm R (rcv_nxt s) (R + 1) (ofo_end R) (out_of_order_queue s) \<and>
     heads (starts R (rcv_nxt s)) (stops R (rcv_nxt s)) R (out_of_order_queue s)"

lemma rcv_ok_kept: "kept s s' \<Longrightarrow> rcv_ok strm R c s \<Longrightarrow> rcv_ok strm R c s'"
  by (simp add: rcv_ok_def kept_def fixed_def unread_from_def)

lemma unread_from_fixed: "fixed s s' \<Longrightarrow> unread_from R s' = unread_from R s"
  by (simp add: unread_from_def fixed_def)

lemma rcv_ok_no_ofo:
  assumes "rcv_ok strm R c s" "fixed s s'" "sk_receive_queue s' = sk_receive_queue s" "out_of_order_queue s' = []"
  shows "rcv_ok strm R c s'"
  using assms by (simp add: rcv_ok_def fixed_def unread_from_def ofo_bufs_def)

text \<open>The laws of the environment.\<close>

definition rcv_law :: "ienv \<Rightarrow> bool" where
  "rcv_law I \<longleftrightarrow> copy_law I \<and> seq_law (tv I) \<and> frame_law I \<and> room_law I \<and> win_law I \<and> mss_law I \<and> sack_reset_law (tv I)"

lemma rcv_lawD:
  assumes "rcv_law I"
  shows "copy_law I" "seq_law (tv I)" "frame_law I" "room_law I" "win_law I" "mss_law I" "sack_reset_law (tv I)"
  using assms by (simp_all add: rcv_law_def)

section \<open>Memory pressure\<close>

lemma prune_ofo_ok:
  assumes law: "rcv_law I" and s: "rcv_ok strm R c s"
  shows "rcv_ok strm R c (snd (tcp_prune_ofo_queue I s))" "fixed s (snd (tcp_prune_ofo_queue I s))"
proof -
  define s1 where "s1 = purge_ofo I s"
  define s2 where "s2 = (if sack_ok (rx_opt s1) \<noteq> 0 then reset_sacks I s1 else s1)"
  note f = purge_fixed [OF rcv_lawD(3) [OF law], of s, folded s1_def]
  have "kept s1 s2" using reset_sacks_kept [OF rcv_lawD(7) [OF law]] by (simp add: s2_def)
  then have k: "kept s1 (sk_mem_reclaim I s2)" by (rule kept_trans [OF _ kept_simple(3)])
  have r1: "rcv_ok strm R c s1" by (rule rcv_ok_no_ofo [OF s f])
  have eq: "snd (tcp_prune_ofo_queue I s) = (if out_of_order_queue s \<noteq> [] then sk_mem_reclaim I s2 else s)"
    by (simp add: tcp_prune_ofo_queue_def Let_def s1_def s2_def)
  show "rcv_ok strm R c (snd (tcp_prune_ofo_queue I s))" using rcv_ok_kept [OF k r1] s by (simp add: eq)
  show "fixed s (snd (tcp_prune_ofo_queue I s))" using fixed_trans [OF f(1) kept_fixed [OF k]] by (simp add: eq)
qed

lemma prune_queue_ok:
  assumes law: "rcv_law I" and s: "rcv_ok strm R R s" and near: "R - 2 ^ 29 < unread_from R s"
  shows "\<exists>v s'. tcp_prune_queue I s = Some (v, s') \<and> rcv_ok strm R R s' \<and> fixed s s'"
proof -
  note laws = rcv_lawD(1-4) [OF law]
  define s1 where "s1 = (if sk_rcvbuf s \<le> sk_rmem_alloc s then tcp_clamp_window I s
               else if tcp_memory_pressure I then s\<lparr>rcv_ssthresh := min (rcv_ssthresh s) (4 * ucast (advmss s))\<rparr> else s)"
  have k1: "kept s s1" by (simp add: s1_def)
  have r1: "rcv_ok strm R R s1" by (rule rcv_ok_kept [OF k1 s])
  have "reach R (R + 1) (ofo_end R)" by (simp add: reach_def ofo_end_def)
  from collapse_ofo_ok [OF laws this, of strm "rcv_nxt s1" s1 R] obtain s2 where s2:
    "tcp_collapse_ofo_queue I s1 = Some s2" "fixed s1 s2" "sk_receive_queue s2 = sk_receive_queue s1"
    "ofo_bufs strm R (rcv_nxt s1) (R + 1) (ofo_end R) (out_of_order_queue s2)"
    "heads (starts R (rcv_nxt s1)) (stops R (rcv_nxt s1)) R (out_of_order_queue s2)"
    using r1 by (auto simp: rcv_ok_def)
  have r2: "rcv_ok strm R R s2" using r1 s2 by (simp add: rcv_ok_def fixed_def unread_from_def)
  have f2: "fixed s s2" using fixed_trans [OF kept_fixed [OF k1] s2(2)] .
  define a where "a = unread_from R s2"
  have a: "R - 2 ^ 29 < a" using near by (simp add: a_def unread_from_fixed [OF f2])
  have ch: "gapless strm R (rcv_nxt s2) a (sk_receive_queue s2) R" using r2 by (simp add: rcv_ok_def a_def)
  have re: "reach R a R" using a gapless_le [OF ch] by (simp add: reach_def)
  have lo: "\<forall>b \<in> set (sk_receive_queue s2). a - 2 ^ 16 \<le> starts R (rcv_nxt s2) b" using gapless_mem(4) [OF ch] by blast
  obtain q s3 where q: "tcp_collapse I (copied_seq s2) (rcv_nxt s2) (sk_receive_queue s2) s2 = Some (q, s3)" "kept s2 s3"
    "gapless strm R (rcv_nxt s2) a q R"
    using collapse_ok [OF laws re ch, of "copied_seq s2" "rcv_nxt s2" "a - 2 ^ 16" s2] lo by (auto simp: a_def unread_from_def)
  define s4 where "s4 = (if sk_receive_queue s2 \<noteq> [] then s3\<lparr>sk_receive_queue := q\<rparr> else s2)"
  have "rcv_ok strm R R (s3\<lparr>sk_receive_queue := q\<rparr>)" "fixed s2 (s3\<lparr>sk_receive_queue := q\<rparr>)"
    using r2 q(2,3) by (simp_all add: rcv_ok_def kept_def fixed_def unread_from_def a_def aux_ok_def)
  then have r4: "rcv_ok strm R R s4" "fixed s2 s4" using r2 by (simp_all add: s4_def)
  define s5 where "s5 = sk_mem_reclaim I s4"
  have k5: "kept s4 s5" by (simp add: s5_def)
  have r5: "rcv_ok strm R R s5" "fixed s s5"
    using rcv_ok_kept [OF k5 r4(1)] fixed_trans [OF f2 fixed_trans [OF r4(2) kept_fixed [OF k5]]] .
  define s6 where "s6 = snd (tcp_prune_ofo_queue I s5)"
  have r6: "rcv_ok strm R R s6" "fixed s s6"
    using prune_ofo_ok [OF law r5(1)] fixed_trans [OF r5(2)] by (simp_all add: s6_def)
  have k7: "kept s6 (s6\<lparr>pred_flags := 0\<rparr>)" by simp
  have r7: "rcv_ok strm R R (s6\<lparr>pred_flags := 0\<rparr>)" "fixed s (s6\<lparr>pred_flags := 0\<rparr>)"
    using rcv_ok_kept [OF k7 r6(1)] fixed_trans [OF r6(2) kept_fixed [OF k7]] .
  have "tcp_prune_queue I s = (if sk_rmem_alloc s5 \<le> sk_rcvbuf s5 then Some (0, s5)
      else if sk_rmem_alloc s6 \<le> sk_rcvbuf s6 then Some (0, s6) else Some (- 1, s6\<lparr>pred_flags := 0\<rparr>))"
    unfolding tcp_prune_queue_def s1_def [symmetric] Let_def s2(1) bind.bind_lunit
    by (simp add: q(1) s4_def s5_def s6_def)
  then show ?thesis using r5 r6 r7 by simp
qed

lemma try_rmem_ok:
  assumes law: "rcv_law I" and s: "rcv_ok strm R R s" and near: "R - 2 ^ 29 < unread_from R s"
  shows "\<exists>v s'. tcp_try_rmem_schedule I sz s = Some (v, s') \<and> rcv_ok strm R R s' \<and> fixed s s'"
proof -
  define p where "p = (if sk_rcvbuf s < sk_rmem_alloc s then (False, s) else sk_rmem_schedule I sz s)"
  have k1: "kept s (snd p)" by (simp add: p_def)
  note r1 = rcv_ok_kept [OF k1 s] kept_fixed [OF k1]
  have "R - 2 ^ 29 < unread_from R (snd p)" using near by (simp add: unread_from_fixed [OF r1(2)])
  then obtain v s2 where s2: "tcp_prune_queue I (snd p) = Some (v, s2)" "rcv_ok strm R R s2" "fixed (snd p) s2"
    using prune_queue_ok [OF law r1(1)] by blast
  have f2: "fixed s s2" by (rule fixed_trans [OF r1(2) s2(3)])
  define p3 where "p3 = sk_rmem_schedule I sz s2"
  have k3: "kept s2 (snd p3)" by (simp add: p3_def)
  note r3 = rcv_ok_kept [OF k3 s2(2)] fixed_trans [OF f2 kept_fixed [OF k3]]
  define p4 where "p4 = tcp_prune_ofo_queue I (snd p3)"
  have r4: "rcv_ok strm R R (snd p4)" "fixed s (snd p4)"
    using prune_ofo_ok [OF law r3(1)] fixed_trans [OF r3(2)] by (simp_all add: p4_def)
  define p5 where "p5 = sk_rmem_schedule I sz (snd p4)"
  have k5: "kept (snd p4) (snd p5)" by (simp add: p5_def)
  note r5 = rcv_ok_kept [OF k5 r4(1)] fixed_trans [OF r4(2) kept_fixed [OF k5]]
  have "tcp_try_rmem_schedule I sz s =
    (if fst p then Some (0, snd p) else if v < 0 then Some (- 1, s2) else if fst p3 then Some (0, snd p3)
     else if \<not> fst p4 then Some (- 1, snd p4) else Some (if fst p5 then 0 else - 1, snd p5))"
    unfolding tcp_try_rmem_schedule_def p_def [symmetric] Let_def case_prod_beta s2(1) bind.bind_lunit fst_conv snd_conv
      p3_def [symmetric] p4_def [symmetric] p5_def [symmetric] by (rule refl)
  then show ?thesis using r1 s2(2) f2 r3 r4 r5 by simp
qed

end
