(* ===== verification/Tcp_Data_Correct.thy ===== *)
theory Tcp_Data_Correct
  imports Tcp_Rcvq_Correct
begin

text \<open>
  Queueing the data of a segment: \<open>tcp_data_queue\<close> keeps the invariant of the receive queues, never goes back in the stream
  and hands to a waiting process exactly the bytes of the stream.
\<close>

lemma posn_add_uint: "posn R r x + uint w < R + 2 ^ 31 \<Longrightarrow> posn R r (x + w) = posn R r x + uint w"
proof -
  assume "posn R r x + uint w < R + 2 ^ 31"
  moreover have "R - 2 ^ 31 \<le> posn R r x + uint w" using posn_range [of R r x] uint_ge_0 [of w] by linarith
  ultimately show ?thesis using posn_add [of R r x "uint w"] by simp
qed

section \<open>Out of order\<close>

lemma upd_sacks_ok:
  assumes "aux_ok s" "\<And>x. sacks_ok x \<Longrightarrow> \<exists>y. f x = Some y \<and> sacks_ok y"
  shows "\<exists>s'. upd_sacks f s = Some s' \<and> kept s s'"
proof -
  have "sacks_ok (unat (num_sacks (rx_opt s)), selective_acks s)" using assms(1) by (simp add: aux_ok_def)
  then obtain n a where f: "f (unat (num_sacks (rx_opt s)), selective_acks s) = Some (n, a)" "sacks_ok (n, a)"
    using assms(2) by fastforce
  then have "unat (of_nat n :: u8) = n" by (simp add: sacks_ok_def unat_of_nat)
  with f assms(1) show ?thesis by (simp add: upd_sacks_def kept_defs)
qed

lemma add_sack_ok: "aux_ok s \<Longrightarrow> \<exists>s'. ofo_add_sack I b s = Some s' \<and> kept s s'"
proof -
  assume "aux_ok s"
  then have "\<exists>s'. upd_sacks (tcp_sack_new_ofo_skb (tv I) (sg_seq b) (sg_end_seq b)) s = Some s' \<and> kept s s'"
    using new_ofo_spec by (intro upd_sacks_ok) blast+
  then show ?thesis by (simp add: ofo_add_sack_def)
qed

lemma sack_remove_total:
  assumes "sacks_ok s"
  shows "\<exists>s'. tcp_sack_remove E n e s = Some s' \<and> sacks_ok s'"
proof -
  obtain k a where s: "s = (k, a)" "length a = 4" "k \<le> 4" using assms by (cases s) (simp add: sacks_ok_def)
  show ?thesis
  proof (cases e)
    case True
    then show ?thesis using s by (simp add: tcp_sack_remove_def sacks_ok_def)
  next
    case False
    then show ?thesis using remove_loop_spec [OF s(2,3), of 0 E n] s(1) by (auto simp: tcp_sack_remove_def sacks_ok_def)
  qed
qed

lemma ofo_place_spec:
  assumes "ofo_place I sq q = (pre, post)"
  shows "q = pre @ post" "\<forall>c \<in> set post. after (tv I) (sg_seq c) sq" "pre \<noteq> [] \<Longrightarrow> \<not> after (tv I) (sg_seq (last pre)) sq"
proof -
  let ?P = "\<lambda>b. after (tv I) (sg_seq b) sq"
  have pre: "pre = rev (dropWhile ?P (rev q))" and post: "post = drop (length pre) q"
    using assms by (auto simp: ofo_place_def Let_def)
  have q: "q = pre @ rev (takeWhile ?P (rev q))"
    unfolding pre rev_append [symmetric] by simp
  then have "post = rev (takeWhile ?P (rev q))" unfolding post by (metis append_eq_conv_conj)
  with q show "q = pre @ post" "\<forall>c \<in> set post. ?P c" by (auto dest: set_takeWhileD)
  show "\<not> ?P (last pre)" if "pre \<noteq> []"
    using that hd_dropWhile [of ?P "rev q"] unfolding pre by (simp add: last_rev)
qed

lemma ofo_clean_spec:
  assumes law: "seq_law (tv I)" "frame_law I" and re: "reach R lo hi"
    and "ofo_bufs strm R r lo hi q" "lo \<le> posn R r esq" "posn R r esq \<le> hi" "posn R r esq = stops R r b"
  shows "\<exists>s'. ofo_clean I esq q s = (uncovered (stops R r) b q, s') \<and> kept s s'"
  using assms(4)
proof (induction q arbitrary: s)
  case (Cons c q)
  have c: "lo \<le> starts R r c" "starts R r c < stops R r c" "stops R r c \<le> hi" "ofo_bufs strm R r lo hi q"
    using Cons.prems by (simp_all add: ofo_bufs_def)
  have near: "\<bar>posn R r esq - starts R r c\<bar> < 2 ^ 31" "\<bar>posn R r esq - stops R r c\<bar> < 2 ^ 31"
    using re assms(5,6) c(1-3) by (simp_all add: reach_def abs_less_iff)
  have cmp: "after (tv I) esq (sg_seq c) \<longleftrightarrow> starts R r c < stops R r b" "before (tv I) esq (sg_end_seq c) \<longleftrightarrow> stops R r b < stops R r c"
    unfolding posn_before(2) [OF law(1) near(1)] posn_before(1) [OF law(1) near(2)] assms(7) by simp_all
  show ?case
  proof (cases "stops R r c \<le> stops R r b")
    case True
    define s1 where "s1 = sock_rfree I c (dsack_extend I (sg_seq c) (sg_end_seq c) s)"
    have k: "kept s s1" unfolding s1_def by (rule kept_trans [OF kept_dsack(2) frames(3) [OF law(2)]])
    have "ofo_clean I esq (c # q) s = ofo_clean I esq q s1" using True cmp c(2) by (simp add: s1_def)
    moreover obtain s' where "ofo_clean I esq q s1 = (uncovered (stops R r) b q, s')" "kept s1 s'"
      using Cons.IH [OF c(4)] by blast
    ultimately show ?thesis using True kept_trans [OF k] by (simp add: uncovered_def)
  next
    case False
    then show ?thesis using cmp by (simp add: uncovered_def)
  qed
qed (simp add: uncovered_def)

text \<open>In a queue every buffer behind a gap starts before its last one.\<close>

lemma heads_before_last:
  assumes "heads S T e q" "q \<noteq> []" "i < length q" "end_of T e (take i q) < S (q ! i)"
  shows "S (q ! i) \<le> S (last q)"
proof (cases "i = length q - 1")
  case True
  then show ?thesis using assms(2) by (simp add: last_conv_nth)
next
  case False
  have q: "q = butlast q @ [last q]" using assms(2) by simp
  then have "\<forall>i < length (butlast q). end_of T e (take i (butlast q)) < S (butlast q ! i) \<longrightarrow> S (butlast q ! i) \<le> S (last q)"
    using assms(1) heads_append [of S T e "butlast q" "[last q]"] by auto
  moreover have "i < length (butlast q)" using False assms(3) by auto
  moreover from this have "take i (butlast q) = take i q" "butlast q ! i = q ! i"
    by (simp_all add: take_butlast nth_butlast)
  ultimately show ?thesis using assms(4) by auto
qed

lemma rcv_ok_ofo:
  assumes "rcv_ok strm R c s" "fixed s s'" "sk_receive_queue s' = sk_receive_queue s"
    "ofo_bufs strm R (rcv_nxt s) (R + 1) (ofo_end R) (out_of_order_queue s')"
    "heads (starts R (rcv_nxt s)) (stops R (rcv_nxt s)) R (out_of_order_queue s')"
  shows "rcv_ok strm R c s'"
  using assms by (simp add: rcv_ok_def fixed_def unread_from_def)

text \<open>The place of a new buffer, in terms of positions.\<close>

lemma heads_place:
  fixes S T :: "skb \<Rightarrow> int"
  assumes h: "heads S T e (pre @ post)" and b: "e < S b" "S b < T b" and post: "\<forall>c \<in> set post. S b < S c"
    and pre: "pre \<noteq> [] \<Longrightarrow> S (last pre) \<le> S b" and new: "\<not> (pre \<noteq> [] \<and> S b < T (last pre) \<and> T b \<le> T (last pre))"
  shows "if pre \<noteq> [] \<and> S b < T (last pre) \<and> S b \<le> S (last pre)
    then heads S T e (butlast pre @ [b] @ uncovered T b (last pre # post))
    else heads S T e (pre @ [b] @ uncovered T b post)"
proof (cases "pre \<noteq> [] \<and> S b < T (last pre) \<and> S b \<le> S (last pre)")
  case True
  define p l where "p = butlast pre" and "l = last pre"
  have q: "pre = p @ [l]" using True by (simp add: p_def l_def)
  have h': "heads S T e (p @ (l # post))" using h q by simp
  have l: "S l = S b" "T l < T b" using True pre new by (auto simp: l_def)
  have "end_of T e p < T l" "\<forall>i < length p. end_of T e (take i p) < S (p ! i) \<longrightarrow> S (p ! i) \<le> S b"
    using h' l(1) unfolding heads_append by auto
  then have "heads S T e (p @ [b] @ uncovered T b (l # post))"
    using l post by (intro heads_insert [OF h']) auto
  then show ?thesis using True by (simp add: p_def l_def)
next
  case False
  have "end_of T e pre < T b"
    using False pre new b by (cases "pre = []") (auto simp: end_of_last)
  moreover have "heads S T e pre" using h by (simp add: heads_append)
  then have "\<forall>i < length pre. end_of T e (take i pre) < S (pre ! i) \<longrightarrow> S (pre ! i) \<le> S b"
    using heads_before_last [of S T e pre] pre by fastforce
  ultimately have "heads S T e (pre @ [b] @ uncovered T b post)"
    using post by (intro heads_insert [OF h]) auto
  then show ?thesis unfolding if_not_P [OF False] .
qed

lemma add_sack_rcv:
  assumes "fixed s s1" "rcv_ok strm R R s1"
  shows "\<exists>s'. ofo_add_sack I b s1 = Some s' \<and> rcv_ok strm R R s' \<and> fixed s s'"
proof -
  obtain s' where "ofo_add_sack I b s1 = Some s'" "kept s1 s'"
    using add_sack_ok [of s1 I b] assms(2) by (auto simp: rcv_ok_def)
  then show ?thesis using rcv_ok_kept [OF _ assms(2)] fixed_trans [OF assms(1) kept_fixed] by blast
qed

lemma ofo_put:
  assumes "rcv_ok strm R R s" "kept s s1" "ofo_bufs strm R (rcv_nxt s) (R + 1) (ofo_end R) q1"
    and "heads (starts R (rcv_nxt s)) (stops R (rcv_nxt s)) R q1"
  shows "fixed s (s1\<lparr>out_of_order_queue := q1\<rparr>)" "rcv_ok strm R R (s1\<lparr>out_of_order_queue := q1\<rparr>)"
proof -
  show f: "fixed s (s1\<lparr>out_of_order_queue := q1\<rparr>)" using assms(2) by (simp add: kept_defs)
  show "rcv_ok strm R R (s1\<lparr>out_of_order_queue := q1\<rparr>)"
    using assms by (intro rcv_ok_ofo [OF assms(1) f]) (simp_all add: kept_def)
qed

text \<open>A buffer that may be put into the out-of-order queue.\<close>

definition ahead :: "(int \<Rightarrow> u8) \<Rightarrow> int \<Rightarrow> u32 \<Rightarrow> skb \<Rightarrow> bool" where
  "ahead strm R r b \<longleftrightarrow> skb_ok strm R r b \<and> R < starts R r b \<and> starts R r b < stops R r b \<and> stops R r b \<le> ofo_end R"

lemma ahead_bufs: "ahead strm R r b \<Longrightarrow> ofo_bufs strm R r (R + 1) (ofo_end R) q \<Longrightarrow> ofo_bufs strm R r (R + 1) (ofo_end R) (b # q)"
  by (auto simp: ofo_bufs_def ahead_def)

lemma ofo_insert_first:
  assumes s: "rcv_ok strm R R s" "out_of_order_queue s = []" and b: "ahead strm R (rcv_nxt s) b"
  shows "\<exists>s'. ofo_insert I b s = Some s' \<and> rcv_ok strm R R s' \<and> fixed s s'"
proof -
  let ?f = "\<lambda>(n, a). do { a1 \<leftarrow> aset a 0 \<lparr>start_seq = sg_seq b, end_seq = sg_end_seq b\<rparr>; Some (1 :: nat, a1) }"
  have "aux_ok s" using s(1) by (simp add: rcv_ok_def)
  then have "\<exists>s'. upd_sacks ?f s = Some s' \<and> kept s s'" by (intro upd_sacks_ok) (auto simp: sacks_ok_def)
  then obtain s1 where s1: "(if tcp_is_sack I (rx_opt s) then upd_sacks ?f s else Some s) = Some s1" "kept s s1"
    by (cases "tcp_is_sack I (rx_opt s)") auto
  have "ofo_insert I b s = Some (s1\<lparr>out_of_order_queue := [b]\<rparr>)"
    unfolding ofo_insert_def Let_def s1(1) using s(2) by simp
  moreover have "ofo_bufs strm R (rcv_nxt s) (R + 1) (ofo_end R) [b]" using ahead_bufs [OF b, of "[]"] by (simp add: ofo_bufs_def)
  ultimately show ?thesis using ofo_put [OF s(1) s1(2), of "[b]"] b by (simp add: ahead_def)
qed

lemma ofo_insert_tail:
  assumes s: "rcv_ok strm R R s" "out_of_order_queue s = q" "q \<noteq> []" "sg_seq b = sg_end_seq (last q)"
    and b: "ahead strm R (rcv_nxt s) b"
  shows "\<exists>s'. ofo_insert I b s = Some s' \<and> rcv_ok strm R R s' \<and> fixed s s'"
proof -
  define r where "r = rcv_nxt s"
  have q: "ofo_bufs strm R r (R + 1) (ofo_end R) q" "heads (starts R r) (stops R r) R q" and aux: "aux_ok s"
    using s(1,2) by (simp_all add: rcv_ok_def r_def)
  define s1 where "s1 = s\<lparr>out_of_order_queue := q @ [b]\<rparr>"
  have last: "starts R r (last q) < stops R r (last q)" using q(1) s(3) by (simp add: ofo_bufs_def)
  have st: "stops R r (last q) = starts R r b" using s(4) by simp
  have e: "end_of (stops R r) R q < stops R r b" unfolding end_of_last [OF s(3)] st using b by (simp add: ahead_def r_def)
  have before: "\<forall>i < length q. end_of (stops R r) R (take i q) < starts R r (q ! i) \<longrightarrow> starts R r (q ! i) \<le> starts R r b"
    using heads_before_last [OF q(2) s(3)] last st by fastforce
  have "heads (starts R r) (stops R r) R (q @ [b] @ uncovered (stops R r) b [])"
    by (rule heads_insert [OF _ e _ before]) (simp_all add: q(2))
  then have "heads (starts R r) (stops R r) R (q @ [b])" by (simp add: uncovered_def)
  moreover have "ofo_bufs strm R r (R + 1) (ofo_end R) (q @ [b])"
    using ahead_bufs [OF b] q(1) by (auto simp: ofo_bufs_def r_def)
  ultimately have r1: "fixed s s1" "rcv_ok strm R R s1"
    using ofo_put [OF s(1) kept_refl, of "q @ [b]"] unfolding s1_def r_def by simp_all
  obtain blk where blk: "aref (selective_acks s1) 0 = Some blk"
    using aux by (fastforce simp: aux_ok_def sacks_ok_def aref_def s1_def)
  define s2 where "s2 = s1\<lparr>selective_acks := (selective_acks s1)[0 := blk\<lparr>end_seq := sg_end_seq b\<rparr>]\<rparr>"
  have k2: "kept s1 s2" by (simp add: s2_def kept_defs sacks_ok_def)
  have "ofo_insert I b s = (if num_sacks (rx_opt s1) = 0 \<or> end_seq blk \<noteq> sg_seq b then ofo_add_sack I b s1 else Some s2)"
    unfolding ofo_insert_def Let_def s(2) s1_def [symmetric] using s(3) s(4) [symmetric] blk by (simp add: s2_def)
  then show ?thesis
    using add_sack_rcv [OF r1, of I b] rcv_ok_kept [OF k2 r1(2)] fixed_trans [OF r1(1) kept_fixed [OF k2]] by auto
qed

text \<open>The comparisons with the buffers of the queue are comparisons of positions.\<close>

lemma ofo_compare:
  assumes law: "seq_law (tv I)" and b: "ahead strm R r b" and c: "c \<in> set q" "ofo_bufs strm R r (R + 1) (ofo_end R) q"
  shows "after (tv I) (sg_seq b) (sg_seq c) \<longleftrightarrow> starts R r c < starts R r b"
    "after (tv I) (sg_seq c) (sg_seq b) \<longleftrightarrow> starts R r b < starts R r c"
    "before (tv I) (sg_seq b) (sg_end_seq c) \<longleftrightarrow> starts R r b < stops R r c"
    "after (tv I) (sg_end_seq b) (sg_end_seq c) \<longleftrightarrow> stops R r c < stops R r b"
proof -
  have near: "\<bar>x - y\<bar> < 2 ^ 31" if "R + 1 \<le> x" "x \<le> ofo_end R" "R + 1 \<le> y" "y \<le> ofo_end R" for x y
    using that by (simp add: ofo_end_def abs_less_iff)
  have mem: "R + 1 \<le> starts R r c" "starts R r c < stops R r c" "stops R r c \<le> ofo_end R"
    using c by (simp_all add: ofo_bufs_def)
  have new: "R + 1 \<le> starts R r b" "starts R r b < stops R r b" "stops R r b \<le> ofo_end R" using b by (simp_all add: ahead_def)
  have le: "starts R r c \<le> ofo_end R" "R + 1 \<le> stops R r c" "starts R r b \<le> ofo_end R" "R + 1 \<le> stops R r b"
    using mem new by linarith+
  show "after (tv I) (sg_seq b) (sg_seq c) \<longleftrightarrow> starts R r c < starts R r b"
    by (rule posn_before(2) [OF law near [OF new(1) le(3) mem(1) le(1)]])
  show "after (tv I) (sg_seq c) (sg_seq b) \<longleftrightarrow> starts R r b < starts R r c"
    by (rule posn_before(2) [OF law near [OF mem(1) le(1) new(1) le(3)]])
  show "before (tv I) (sg_seq b) (sg_end_seq c) \<longleftrightarrow> starts R r b < stops R r c"
    by (rule posn_before(1) [OF law near [OF new(1) le(3,2) mem(3)]])
  show "after (tv I) (sg_end_seq b) (sg_end_seq c) \<longleftrightarrow> stops R r c < stops R r b"
    by (rule posn_before(2) [OF law near [OF le(4) new(3) le(2) mem(3)]])
qed

lemma ofo_insert_middle:
  assumes law: "rcv_law I" and s: "rcv_ok strm R R s" "out_of_order_queue s = q" "q \<noteq> []" "sg_seq b \<noteq> sg_end_seq (last q)"
    and b: "ahead strm R (rcv_nxt s) b"
  shows "\<exists>s'. ofo_insert I b s = Some s' \<and> rcv_ok strm R R s' \<and> fixed s s'"
proof -
  define r where "r = rcv_nxt s"
  have q: "ofo_bufs strm R r (R + 1) (ofo_end R) q" "heads (starts R r) (stops R r) R q"
    using s(1,2) by (simp_all add: rcv_ok_def r_def)
  have br: "R < starts R r b" "starts R r b < stops R r b" "stops R r b \<le> ofo_end R" using b by (simp_all add: ahead_def r_def)
  note sl = rcv_lawD(2) [OF law] and fl = rcv_lawD(3) [OF law]
  note cmp = ofo_compare [OF sl b [folded r_def] _ q(1)]
  obtain pre post where pp: "ofo_place I (sg_seq b) q = (pre, post)" by (cases "ofo_place I (sg_seq b) q")
  note pl = ofo_place_spec [OF pp]
  have lastq: "last pre \<in> set q" if "pre \<noteq> []" using that pl(1) by auto
  have post: "\<forall>c \<in> set post. starts R r b < starts R r c" using pl(1,2) cmp(2) by auto
  have pre: "starts R r (last pre) \<le> starts R r b" if "pre \<noteq> []" using pl(3) that cmp(2) [OF lastq] by simp
  have hq: "heads (starts R r) (stops R r) R (pre @ post)" using q(2) pl(1) by simp
  define overlap where "overlap \<longleftrightarrow> pre \<noteq> [] \<and> before (tv I) (sg_seq b) (sg_end_seq (last pre))"
  have ov: "overlap \<longleftrightarrow> pre \<noteq> [] \<and> starts R r b < stops R r (last pre)" using cmp(3) [OF lastq] by (auto simp: overlap_def)
  show ?thesis
  proof (cases "overlap \<and> \<not> after (tv I) (sg_end_seq b) (sg_end_seq (last pre))")
    case True
    define s1 where "s1 = dsack_set I (sg_seq b) (sg_end_seq b) (sock_rfree I b s)"
    have "ofo_insert I b s = ofo_add_sack I b s1"
      unfolding ofo_insert_def Let_def s(2) pp s1_def using s(3,4) True by (simp add: overlap_def)
    moreover have k1: "kept s s1" unfolding s1_def by (rule kept_trans [OF frames(3) [OF fl] kept_dsack(1)])
    ultimately show ?thesis using add_sack_rcv [OF kept_fixed [OF k1] rcv_ok_kept [OF k1 s(1)]] by simp
  next
    case False
    then have new: "\<not> (pre \<noteq> [] \<and> starts R r b < stops R r (last pre) \<and> stops R r b \<le> stops R r (last pre))"
      using cmp(4) [OF lastq] ov by auto
    define partly where "partly \<longleftrightarrow> overlap \<and> after (tv I) (sg_seq b) (sg_seq (last pre))"
    have pa: "overlap \<and> \<not> partly \<longleftrightarrow> pre \<noteq> [] \<and> starts R r b < stops R r (last pre) \<and> starts R r b \<le> starts R r (last pre)"
      using cmp(1) [OF lastq] ov by (auto simp: partly_def)
    define s1 where "s1 = (if partly then dsack_set I (sg_seq b) (sg_end_seq (last pre)) s else s)"
    have k1: "kept s s1" by (simp add: s1_def)
    obtain pre1 post1 where slot: "(if overlap \<and> \<not> partly then (butlast pre, last pre # post) else (pre, post)) = (pre1, post1)"
      by (metis surj_pair)
    have q1: "q = pre1 @ post1" using slot pl(1) ov by (auto split: if_splits)
    have h1: "heads (starts R r) (stops R r) R (pre1 @ [b] @ uncovered (stops R r) b post1)"
      using heads_place [OF hq br(1,2) post pre new] slot unfolding pa [symmetric] by (auto split: if_splits)
    have "ofo_bufs strm R r (R + 1) (ofo_end R) post1" using q(1) q1 by (simp add: ofo_bufs_def)
    moreover have "reach R (R + 1) (ofo_end R)" by (simp add: reach_def ofo_end_def)
    ultimately obtain s2 where s2: "ofo_clean I (sg_end_seq b) post1 s1 = (uncovered (stops R r) b post1, s2)" "kept s1 s2"
      using ofo_clean_spec [OF sl fl, of R "R + 1" "ofo_end R" strm r post1 "sg_end_seq b" b s1] br by auto
    have "ofo_bufs strm R r (R + 1) (ofo_end R) (pre1 @ [b] @ uncovered (stops R r) b post1)"
      using ahead_bufs [OF b, of q] q(1) q1 uncovered_subset [of "stops R r" b post1] by (auto simp: ofo_bufs_def r_def)
    note p = ofo_put [OF s(1) kept_trans [OF k1 s2(2)], folded r_def, OF this h1]
    have "ofo_insert I b s = ofo_add_sack I b (s2\<lparr>out_of_order_queue := pre1 @ [b] @ uncovered (stops R r) b post1\<rparr>)"
      using s(3,4) False slot s2(1) unfolding ofo_insert_def Let_def s(2) pp s1_def partly_def overlap_def
      by (simp only: prod.case if_False simp_thms conj_assoc)
    then show ?thesis using add_sack_rcv [OF p] by simp
  qed
qed

lemma ofo_insert_ok:
  assumes law: "rcv_law I" and s: "rcv_ok strm R R s" and b: "ahead strm R (rcv_nxt s) b"
  shows "\<exists>s'. ofo_insert I b s = Some s' \<and> rcv_ok strm R R s' \<and> fixed s s'"
  using ofo_insert_first [OF s _ b] ofo_insert_tail [OF s refl _ _ b] ofo_insert_middle [OF law s refl _ _ b] by blast

section \<open>Filling the gap\<close>

text \<open>
  The state while the out-of-order queue is emptied, in positions of the time before: the receive queue ends at the
  next expected byte, and what was taken from the out-of-order queue ended before it.
\<close>

definition draining :: "(int \<Rightarrow> u8) \<Rightarrow> int \<Rightarrow> u32 \<Rightarrow> tcp_sock \<Rightarrow> int \<Rightarrow> bool" where
  "draining strm R r s e \<longleftrightarrow> aux_ok s \<and> \<not> sk_dead s \<and> gapless strm R r (posn R r (copied_seq s)) (sk_receive_queue s) (posn R r (rcv_nxt s)) \<and>
     R \<le> posn R r (rcv_nxt s) \<and> posn R r (rcv_nxt s) \<le> ofo_end R \<and> e \<le> posn R r (rcv_nxt s) \<and>
     ofo_bufs strm R r (R + 1) (ofo_end R) (out_of_order_queue s) \<and> heads (starts R r) (stops R r) e (out_of_order_queue s)"

definition drained :: "int \<Rightarrow> u32 \<Rightarrow> tcp_sock \<Rightarrow> bool" where
  "drained R r s \<longleftrightarrow> (\<forall>b \<in> set (out_of_order_queue s). posn R r (rcv_nxt s) < starts R r b)"

definition same_user :: "tcp_sock \<Rightarrow> tcp_sock \<Rightarrow> bool" where
  "same_user s s' \<longleftrightarrow> copied_seq s' = copied_seq s \<and> ucopy_done s' = ucopy_done s \<and> sk_dead s' = sk_dead s"

lemma draining_kept: "kept s s' \<Longrightarrow> draining strm R r s e \<Longrightarrow> draining strm R r s' e"
  by (simp add: draining_def kept_def fixed_def)

lemma same_user_trans: "same_user s s' \<Longrightarrow> same_user s' s'' \<Longrightarrow> same_user s s''"
  by (simp add: same_user_def)

lemma kept_same_user: "kept s s' \<Longrightarrow> same_user s s'"
  by (simp add: kept_def fixed_def same_user_def)

lemma drain_head:
  assumes "draining strm R r s e" "out_of_order_queue s = b # q"
  shows "skb_ok strm R r b" "R + 1 \<le> starts R r b" "starts R r b < stops R r b" "stops R r b \<le> ofo_end R"
    "heads (starts R r) (stops R r) (stops R r b) q" "ofo_bufs strm R r (R + 1) (ofo_end R) q"
    "posn R r (rcv_nxt s) < starts R r b \<Longrightarrow> drained R r s"
proof -
  show "skb_ok strm R r b" "R + 1 \<le> starts R r b" "starts R r b < stops R r b" "stops R r b \<le> ofo_end R"
    "heads (starts R r) (stops R r) (stops R r b) q" "ofo_bufs strm R r (R + 1) (ofo_end R) q"
    using assms by (simp_all add: draining_def ofo_bufs_def)
  have "e \<le> posn R r (rcv_nxt s)" "e < starts R r b \<longrightarrow> (\<forall>c \<in> set q. starts R r b \<le> starts R r c)"
    using assms by (simp_all add: draining_def)
  then show "posn R r (rcv_nxt s) < starts R r b \<Longrightarrow> drained R r s" using assms(2) by (fastforce simp: drained_def)
qed

text \<open>A buffer with new data moves to the receive queue, and ends the stream if it has a FIN.\<close>

definition take_head :: "ienv \<Rightarrow> skb \<Rightarrow> skb list \<Rightarrow> tcp_sock \<Rightarrow> tcp_sock" where
  "take_head I b q s =
     (let s3 = s\<lparr>out_of_order_queue := q, sk_receive_queue := sk_receive_queue s @ [b], rcv_nxt := sg_end_seq b\<rparr>
      in if sg_fin b then tcp_fin I s3 else s3)"

lemma drain_take:
  assumes law: "rcv_law I" and s: "draining strm R r s e" and b: "out_of_order_queue s = b # q"
    and new: "starts R r b \<le> posn R r (rcv_nxt s)" "posn R r (rcv_nxt s) < stops R r b"
  shows "draining strm R r (take_head I b q s) (stops R r b) \<and> same_user s (take_head I b q s) \<and>
    posn R r (rcv_nxt (take_head I b q s)) = stops R r b \<and> length (out_of_order_queue (take_head I b q s)) \<le> length q"
proof -
  define s3 where "s3 = s\<lparr>out_of_order_queue := q, sk_receive_queue := sk_receive_queue s @ [b], rcv_nxt := sg_end_seq b\<rparr>"
  have "gapless strm R r (posn R r (copied_seq s)) (sk_receive_queue s @ [b]) (stops R r b)"
    using s drain_head(1) [OF s b] new by (intro gapless_appendI [where m = "posn R r (rcv_nxt s)"]) (simp_all add: draining_def)
  then have d3: "draining strm R r s3 (stops R r b)"
    using s drain_head(2-6) [OF s b] by (simp add: draining_def s3_def aux_ok_def)
  have "\<not> sk_dead s3" using s by (simp add: s3_def draining_def)
  then have f: "fixed s3 (tcp_fin I s3) \<and> sk_receive_queue (tcp_fin I s3) = sk_receive_queue s3 \<and> out_of_order_queue (tcp_fin I s3) = []"
    by (rule fin_ok [OF rcv_lawD(3,7) [OF law]])
  then have "draining strm R r (tcp_fin I s3) (stops R r b)" "same_user s3 (tcp_fin I s3)" "rcv_nxt (tcp_fin I s3) = rcv_nxt s3"
    using d3 by (simp_all add: draining_def fixed_def same_user_def ofo_bufs_def)
  then show ?thesis
    using d3 f unfolding take_head_def Let_def s3_def [symmetric] by (simp add: s3_def same_user_def)
qed

text \<open>A buffer without new data is freed.\<close>

lemma drain_drop:
  assumes law: "rcv_law I" and s: "draining strm R r s e" and b: "out_of_order_queue s = b # q"
    and old: "stops R r b \<le> posn R r (rcv_nxt s)"
  shows "draining strm R r (sock_rfree I b (s\<lparr>out_of_order_queue := q\<rparr>)) (stops R r b) \<and>
    same_user s (sock_rfree I b (s\<lparr>out_of_order_queue := q\<rparr>)) \<and>
    rcv_nxt (sock_rfree I b (s\<lparr>out_of_order_queue := q\<rparr>)) = rcv_nxt s \<and>
    out_of_order_queue (sock_rfree I b (s\<lparr>out_of_order_queue := q\<rparr>)) = q"
proof -
  have k: "kept (s\<lparr>out_of_order_queue := q\<rparr>) (sock_rfree I b (s\<lparr>out_of_order_queue := q\<rparr>))"
    by (rule frames(3) [OF rcv_lawD(3) [OF law]])
  have "draining strm R r (s\<lparr>out_of_order_queue := q\<rparr>) (stops R r b)"
    using s drain_head(5,6) [OF s b] old by (simp add: draining_def aux_ok_def)
  from draining_kept [OF k this] show ?thesis using k by (simp add: same_user_def kept_def fixed_def)
qed

lemma ofo_loop_ok:
  assumes law: "rcv_law I" and "draining strm R r s e"
  shows "\<exists>s' e'. ofo_loop I high s = Some s' \<and> draining strm R r s' e' \<and> drained R r s' \<and> same_user s s' \<and>
    posn R r (rcv_nxt s) \<le> posn R r (rcv_nxt s')"
  using assms(2)
proof (induction "length (out_of_order_queue s)" arbitrary: s e high rule: less_induct)
  case less
  note sl = rcv_lawD(2) [OF law]
  show ?case
  proof (cases "out_of_order_queue s")
    case Nil
    then show ?thesis using less.prems by (subst ofo_loop.simps) (auto simp: drained_def same_user_def)
  next
    case (Cons b q)
    define x where "x = posn R r (rcv_nxt s)"
    note hd = drain_head [OF less.prems Cons]
    have d: "R \<le> x" "x \<le> ofo_end R" using less.prems by (simp_all add: draining_def x_def)
    have near: "\<bar>starts R r b - x\<bar> < 2 ^ 31" "\<bar>stops R r b - x\<bar> < 2 ^ 31" using d hd(2-4) by (simp_all add: ofo_end_def abs_less_iff)
    have cmp: "after (tv I) (sg_seq b) (rcv_nxt s) \<longleftrightarrow> x < starts R r b" "after (tv I) (sg_end_seq b) (rcv_nxt s) \<longleftrightarrow> x < stops R r b"
      using posn_before(2) [OF sl, of R r "sg_seq b" "rcv_nxt s"] posn_before(2) [OF sl, of R r "sg_end_seq b" "rcv_nxt s"] near
      by (simp_all add: x_def)
    show ?thesis
    proof (cases "x < starts R r b")
      case True
      then have "ofo_loop I high s = Some s" using Cons cmp by (subst ofo_loop.simps) simp
      then show ?thesis using less.prems hd(7) True by (auto simp: same_user_def x_def)
    next
      case False
      define overlap where "overlap = before (tv I) (sg_seq b) high"
      define high1 where "high1 = (if overlap \<and> before (tv I) (sg_end_seq b) high then sg_end_seq b else high)"
      define s1 where "s1 = (if overlap then dsack_extend I (sg_seq b) high s else s)"
      have k1: "kept s s1" by (simp add: s1_def)
      then have o1: "out_of_order_queue s1 = b # q" and n1: "rcv_nxt s1 = rcv_nxt s"
        using Cons by (simp_all add: kept_def fixed_def)
      have d1: "draining strm R r s1 e" by (rule draining_kept [OF k1 less.prems])
      define t where "t = (if x < stops R r b then take_head I b q s1 else sock_rfree I b (s1\<lparr>out_of_order_queue := q\<rparr>))"
      have eq: "ofo_loop I high s = ofo_loop I high1 t"
        using Cons False cmp n1 by (subst ofo_loop.simps)
          (simp add: Let_def overlap_def [symmetric] s1_def [symmetric] high1_def [symmetric] t_def take_head_def)
      have t: "draining strm R r t (stops R r b)" "same_user s1 t" "x \<le> posn R r (rcv_nxt t)" "length (out_of_order_queue t) \<le> length q"
        using drain_take [OF law d1 o1] drain_drop [OF law d1 o1] n1 False by (auto simp: t_def x_def)
      obtain s' e' where "ofo_loop I high1 t = Some s'" "draining strm R r s' e'" "drained R r s'" "same_user t s'"
        "posn R r (rcv_nxt t) \<le> posn R r (rcv_nxt s')"
        using less.hyps [OF _ t(1), of high1] t(4) Cons by auto
      then show ?thesis
        using eq t(3) same_user_trans [OF same_user_trans [OF kept_same_user [OF k1] t(2)]] by (auto simp: x_def)
    qed
  qed
qed

section \<open>Data in sequence\<close>

text \<open>Positions relative to the new next expected byte.\<close>

lemma rebase_rcv_ok:
  assumes x: "x = posn R r (rcv_nxt s)" "R \<le> x" "x \<le> ofo_end R" and aux: "aux_ok s"
    and rq: "gapless strm R r (posn R r (copied_seq s)) (sk_receive_queue s) c" "R - 2 ^ 29 < posn R r (copied_seq s)" "c \<le> x"
    and ofo: "ofo_bufs strm R r (R + 1) (ofo_end R) (out_of_order_queue s)" "heads (starts R r) (stops R r) e (out_of_order_queue s)" "e \<le> x"
    and dr: "drained R r s"
  shows "rcv_ok strm x c s" "unread_from x s = posn R r (copied_seq s)" "rcv_nxt s = r + word_of_int (x - R)"
proof -
  have "rcv_nxt s - r = word_of_int (posn R r (rcv_nxt s) - posn R r r)" by (rule posn_diff)
  then show n: "rcv_nxt s = r + word_of_int (x - R)" by (simp add: x(1) algebra_simps)
  have xR: "R + (x - R) = x" by simp
  note reb = posn_rebase [OF n, of R, unfolded xR]
  have "posn R r (copied_seq s) \<le> c" using gapless_le [OF rq(1)] by simp
  then show u: "unread_from x s = posn R r (copied_seq s)"
    unfolding unread_from_def using rq(2,3) x(2,3) by (intro reb) (simp_all add: ofo_end_def)
  have g: "gapless strm x (rcv_nxt s) (posn R r (copied_seq s)) (sk_receive_queue s) c"
    using gapless_rebase [OF rq(1) n] rq(2,3) x(2,3) unfolding xR by (simp add: ofo_end_def)
  define q where "q = out_of_order_queue s"
  have q: "skb_ok strm R r b" "x < starts R r b" "starts R r b < stops R r b" "stops R r b \<le> ofo_end R" if "b \<in> set q" for b
    using ofo(1) dr that by (simp_all add: ofo_bufs_def drained_def q_def x(1))
  have same: "starts x (rcv_nxt s) b = starts R r b" "stops x (rcv_nxt s) b = stops R r b" if "b \<in> set q" for b
    using q [OF that] x(2) by (auto intro!: reb simp: ofo_end_def)
  have "skb_ok strm x (rcv_nxt s) b" if "b \<in> set q" for b
    using skb_ok_rebase [OF q(1) [OF that] n] q [OF that] x(2) unfolding xR by (simp add: ofo_end_def)
  then have "ofo_bufs strm x (rcv_nxt s) (x + 1) (ofo_end x) q"
    unfolding ofo_bufs_def using q same x(2) by (force simp: ofo_end_def)
  moreover have "heads (starts R r) (stops R r) x q"
  proof (cases q)
    case (Cons b q')
    then have "x < starts R r b" "starts R r b < stops R r b" "e \<le> x" using q ofo(3) by auto
    then show ?thesis using ofo(2) Cons by (auto simp: q_def)
  qed simp
  then have "heads (starts x (rcv_nxt s)) (stops x (rcv_nxt s)) x q"
    using heads_cong [of q "starts x (rcv_nxt s)" "starts R r" "stops x (rcv_nxt s)" "stops R r"] same by simp
  ultimately show "rcv_ok strm x c s" using aux g u by (simp add: rcv_ok_def q_def)
qed

text \<open>What is established for one segment: the stream goes on to \<open>R'\<close>.\<close>

definition advanced :: "(int \<Rightarrow> u8) \<Rightarrow> int \<Rightarrow> skb \<Rightarrow> tcp_sock \<Rightarrow> tcp_sock \<Rightarrow> int \<Rightarrow> int \<Rightarrow> bool" where
  "advanced strm R b s s' R' c \<longleftrightarrow> R \<le> R' \<and> rcv_ok strm R' c s' \<and> (c = R' \<or> sg_fin b \<and> c = R' - 1) \<and>
     rcv_nxt s' = rcv_nxt s + word_of_int (R' - R) \<and> sk_dead s' = sk_dead s \<and>
     ucopy_done s' = ucopy_done s @ stream strm (unread_from R s) (unread_from R' s')"

definition caught_up :: "(int \<Rightarrow> u8) \<Rightarrow> int \<Rightarrow> u32 \<Rightarrow> skb \<Rightarrow> tcp_sock \<Rightarrow> int \<Rightarrow> int \<Rightarrow> bool" where
  "caught_up strm R r b s x c \<longleftrightarrow> aux_ok s \<and> posn R r (rcv_nxt s) = x \<and> stops R r b \<le> x \<and> x \<le> ofo_end R \<and> drained R r s \<and>
     ofo_bufs strm R r (R + 1) (ofo_end R) (out_of_order_queue s) \<and>
     (\<exists>e \<le> x. heads (starts R r) (stops R r) e (out_of_order_queue s)) \<and>
     gapless strm R r (posn R r (copied_seq s)) (sk_receive_queue s) c \<and> (c = x \<or> sg_fin b \<and> c = x - 1)"

lemma caught_up_kept: "kept s s' \<Longrightarrow> caught_up strm R r b s x c \<Longrightarrow> caught_up strm R r b s' x c"
  by (auto simp: caught_up_def kept_def fixed_def drained_def)

lemma caught_up_rcv_ok:
  assumes "caught_up strm R r b s x c" "R < stops R r b" "R - 2 ^ 29 < posn R r (copied_seq s)"
  shows "rcv_ok strm x c s" "unread_from x s = posn R r (copied_seq s)" "rcv_nxt s = r + word_of_int (x - R)"
proof -
  obtain e where e: "e \<le> x" "heads (starts R r) (stops R r) e (out_of_order_queue s)" using assms(1) by (auto simp: caught_up_def)
  have x: "x = posn R r (rcv_nxt s)" "R \<le> x" "x \<le> ofo_end R" "c \<le> x" using assms(1,2) by (auto simp: caught_up_def)
  have s: "aux_ok s" "drained R r s" "ofo_bufs strm R r (R + 1) (ofo_end R) (out_of_order_queue s)"
    "gapless strm R r (posn R r (copied_seq s)) (sk_receive_queue s) c" using assms(1) by (simp_all add: caught_up_def)
  note rb = rebase_rcv_ok [OF x(1-3) s(1,4) assms(3) x(4) s(3) e(2,1) s(2)]
  show "rcv_ok strm x c s" "unread_from x s = posn R r (copied_seq s)" "rcv_nxt s = r + word_of_int (x - R)"
    by (rule rb)+
qed

text \<open>The step from the out-of-order queue.\<close>

definition take_ofo :: "ienv \<Rightarrow> tcp_sock \<Rightarrow> tcp_sock option" where
  "take_ofo I s3 = (if out_of_order_queue s3 \<noteq> [] then do {
       s4 \<leftarrow> tcp_ofo_queue I s3;
       Some (if out_of_order_queue s4 = [] then upd_ack (\<lambda>a. a\<lparr>ack_pingpong := 0\<rparr>) s4 else s4) }
     else Some s3)"

lemma take_ofo_empty:
  assumes "out_of_order_queue s = []" "aux_ok s" "rcv_nxt s = sg_end_seq b" "stops R r b \<le> ofo_end R"
    "gapless strm R r (posn R r (copied_seq s)) (sk_receive_queue s) c" "c = stops R r b \<or> sg_fin b \<and> c = stops R r b - 1"
  shows "take_ofo I s = Some s \<and> caught_up strm R r b s (stops R r b) c"
  using assms by (auto simp: take_ofo_def caught_up_def drained_def ofo_bufs_def)

lemma take_ofo_ok:
  assumes law: "rcv_law I" and s: "draining strm R r s R" "out_of_order_queue s \<noteq> []" "rcv_nxt s = sg_end_seq b"
  shows "\<exists>s' x. take_ofo I s = Some s' \<and> caught_up strm R r b s' x x \<and> same_user s s'"
proof -
  obtain s4 e where s4: "tcp_ofo_queue I s = Some s4" "draining strm R r s4 e" "drained R r s4" "same_user s s4"
    "stops R r b \<le> posn R r (rcv_nxt s4)"
    using ofo_loop_ok [OF law s(1), of "rcv_nxt s"] by (auto simp: tcp_ofo_queue_def s(3))
  define s5 where "s5 = (if out_of_order_queue s4 = [] then upd_ack (\<lambda>a. a\<lparr>ack_pingpong := 0\<rparr>) s4 else s4)"
  have k5: "kept s4 s5" by (simp add: s5_def kept_upd_ack)
  have "caught_up strm R r b s4 (posn R r (rcv_nxt s4)) (posn R r (rcv_nxt s4))"
    using s4(2,3,5) by (auto simp: caught_up_def draining_def)
  from caught_up_kept [OF k5 this] have "caught_up strm R r b s5 (posn R r (rcv_nxt s4)) (posn R r (rcv_nxt s4))" .
  moreover have "same_user s s5" by (rule same_user_trans [OF s4(4) kept_same_user [OF k5]])
  moreover have "take_ofo I s = Some s5" using s(2) s4(1) by (simp add: take_ofo_def s5_def)
  ultimately show ?thesis by blast
qed

text \<open>A segment whose data begin at the next expected byte, or before it, once it is queued or consumed.\<close>

lemma data_queued_ok:
  assumes law: "rcv_law I" and b: "skb_ok strm R r b" "R < stops R r b" "starts R r b \<le> R"
    and s: "aux_ok s" "\<not> sk_dead s" "R - 2 ^ 29 < posn R r (copied_seq s)"
    and rq: "gapless strm R r (posn R r (copied_seq s)) (sk_receive_queue s) c" "c = stops R r b \<or> sg_fin b \<and> c = stops R r b - 1"
    and ofo: "ofo_bufs strm R r (R + 1) (ofo_end R) (out_of_order_queue s)" "heads (starts R r) (stops R r) R (out_of_order_queue s)"
  shows "\<exists>s' R' c'. data_queued I eaten b s = Some s' \<and> caught_up strm R r b s' R' c' \<and> same_user s s'"
proof -
  have T: "stops R r b \<le> ofo_end R" using b seglen_bounds [of b] by (simp add: skb_ok_def ofo_end_def)
  define s1 where "s1 = s\<lparr>rcv_nxt := sg_end_seq b\<rparr>"
  have a1: "aux_ok s1" using s(1) by (simp add: s1_def aux_ok_def)
  have "seg_ok b" using b(1) by (simp add: skb_ok_def seg_ok_def)
  from event_data_recv_kept [OF rcv_lawD(5,6) [OF law] this a1]
  obtain s2 where s2: "(if sg_len b \<noteq> 0 then tcp_event_data_recv I b s1 else Some s1) = Some s2" "kept s1 s2"
    by (cases "sg_len b = 0") auto
  define s3 where "s3 = (if sg_fin b then tcp_fin I s2 else s2)"
  have "sk_dead s2 = sk_dead s" using kept_dead [OF s2(2)] by (simp add: s1_def)
  then have f: "fixed s2 (tcp_fin I s2) \<and> sk_receive_queue (tcp_fin I s2) = sk_receive_queue s2 \<and> out_of_order_queue (tcp_fin I s2) = []"
    using fin_ok [OF rcv_lawD(3,7) [OF law]] s(2) by simp
  have f3: "fixed s1 s3" "sk_receive_queue s3 = sk_receive_queue s" "out_of_order_queue s3 = (if sg_fin b then [] else out_of_order_queue s)"
    using s2(2) f by (auto simp: s3_def kept_def s1_def fixed_def)
  have n3: "rcv_nxt s3 = sg_end_seq b" "copied_seq s3 = copied_seq s" "aux_ok s3" "\<not> sk_dead s3" "same_user s s3"
    using f3(1) a1 s(2) by (simp_all add: fixed_def s1_def same_user_def)
  have "\<exists>s4 x c4. take_ofo I s3 = Some s4 \<and> caught_up strm R r b s4 x c4 \<and> same_user s3 s4"
  proof (cases "out_of_order_queue s3 = []")
    case True
    then show ?thesis using take_ofo_empty [OF True n3(3,1) T, of strm c I] rq by (auto simp: n3(2) f3(2) same_user_def)
  next
    case False
    then have "\<not> sg_fin b" using f3(3) by (simp split: if_splits)
    then have "draining strm R r s3 R" using n3 f3 rq ofo b(2) T by (simp add: draining_def)
    from take_ofo_ok [OF law this False n3(1)] show ?thesis by blast
  qed
  then obtain s4 x c4 where s4: "take_ofo I s3 = Some s4" "caught_up strm R r b s4 x c4" "same_user s3 s4" by blast
  have a4: "aux_ok s4" using s4(2) by (simp add: caught_up_def)
  have "\<exists>s5. upd_sacks (tcp_sack_remove (tv I) (rcv_nxt s4) (out_of_order_queue s4 = [])) s4 = Some s5 \<and> kept s4 s5"
    by (intro upd_sacks_ok a4 sack_remove_total)
  then obtain s5 where s5: "(if num_sacks (rx_opt s4) \<noteq> 0
            then upd_sacks (tcp_sack_remove (tv I) (rcv_nxt s4) (out_of_order_queue s4 = [])) s4 else Some s4) = Some s5" "kept s4 s5"
    by (cases "num_sacks (rx_opt s4) = 0") auto
  define s6 where "s6 = tcp_fast_path_check I s5"
  define s7 where "s7 = (if 0 < eaten then s6 else if \<not> sk_dead s6 then sk_event Data_ready s6 else s6)"
  have k6: "kept s4 s6" unfolding s6_def by (rule kept_trans [OF s5(2) frames(4) [OF rcv_lawD(3) [OF law]]])
  have k7: "kept s4 s7" unfolding s7_def using k6 kept_trans [OF k6 kept_simple(2)] by (simp only: if_split) simp
  have "data_queued I eaten b s = Some s7"
    unfolding data_queued_def Let_def s1_def [symmetric] s2(1) bind.bind_lunit s3_def [symmetric] take_ofo_def [symmetric] s4(1)
      s5(1) s6_def [symmetric] s7_def ..
  moreover have "same_user s s7" by (rule same_user_trans [OF n3(5) same_user_trans [OF s4(3) kept_same_user [OF k7]]])
  ultimately show ?thesis using caught_up_kept [OF k7 s4(2)] by blast
qed

text \<open>What one segment does to the stream.\<close>

lemma caught_up_advanced:
  assumes "caught_up strm R (rcv_nxt s) b s' R' c" "R < stops R (rcv_nxt s) b" "same_user s1 s'" "sk_dead s1 = sk_dead s"
    "R - 2 ^ 29 < posn R (rcv_nxt s) (copied_seq s1)"
    "ucopy_done s1 = ucopy_done s @ stream strm (unread_from R s) (posn R (rcv_nxt s) (copied_seq s1))"
  shows "advanced strm R b s s' R' c \<and> stops R (rcv_nxt s) b \<le> R'"
proof -
  have u: "copied_seq s' = copied_seq s1" "ucopy_done s' = ucopy_done s1" "sk_dead s' = sk_dead s1"
    using assms(3) by (simp_all add: same_user_def)
  then have "R - 2 ^ 29 < posn R (rcv_nxt s) (copied_seq s')" using assms(5) by simp
  note ok = caught_up_rcv_ok [OF assms(1,2) this]
  have "stops R (rcv_nxt s) b \<le> R'" "c = R' \<or> sg_fin b \<and> c = R' - 1" using assms(1) by (simp_all add: caught_up_def)
  then show ?thesis using ok u assms(2,4,6) by (simp add: advanced_def)
qed

lemma advanced_kept:
  assumes "rcv_ok strm R R s" "fixed s s'" "rcv_ok strm R R s'"
  shows "advanced strm R b s s' R R"
  using assms by (simp add: advanced_def fixed_def unread_from_def)

definition in_line :: "(int \<Rightarrow> u8) \<Rightarrow> int \<Rightarrow> u32 \<Rightarrow> skb \<Rightarrow> bool" where
  "in_line strm R r b \<longleftrightarrow> skb_ok strm R r b \<and> starts R r b \<le> R \<and> R < stops R r b"

lemma queued_ok:
  assumes law: "rcv_law I" and b: "in_line strm R (rcv_nxt s) b" and s: "aux_ok s" "\<not> sk_dead s"
    and at: "R - 2 ^ 29 < posn R (rcv_nxt s) (copied_seq s)"
    and rq: "gapless strm R (rcv_nxt s) (posn R (rcv_nxt s) (copied_seq s)) (sk_receive_queue s @ [b]) (stops R (rcv_nxt s) b)"
    and ofo: "ofo_bufs strm R (rcv_nxt s) (R + 1) (ofo_end R) (out_of_order_queue s)"
      "heads (starts R (rcv_nxt s)) (stops R (rcv_nxt s)) R (out_of_order_queue s)"
  shows "\<exists>s' R' c'. data_queued I eaten b ((skb_set_owner_r b s)\<lparr>sk_receive_queue := sk_receive_queue (skb_set_owner_r b s) @ [b]\<rparr>) = Some s' \<and>
    caught_up strm R (rcv_nxt s) b s' R' c' \<and> same_user s s'"
proof -
  define s1 where "s1 = (skb_set_owner_r b s)\<lparr>sk_receive_queue := sk_receive_queue (skb_set_owner_r b s) @ [b]\<rparr>"
  have k: "kept s (skb_set_owner_r b s)" by simp
  have s1: "aux_ok s1" "\<not> sk_dead s1" "copied_seq s1 = copied_seq s" "sk_receive_queue s1 = sk_receive_queue s @ [b]"
    "out_of_order_queue s1 = out_of_order_queue s" "same_user s s1"
    using k s by (simp_all add: s1_def kept_def fixed_def same_user_def aux_ok_def)
  obtain s' R' c' where "data_queued I eaten b s1 = Some s'" "caught_up strm R (rcv_nxt s) b s' R' c'" "same_user s1 s'"
    using data_queued_ok [OF law, of strm R "rcv_nxt s" b s1 "stops R (rcv_nxt s) b" eaten] b s1 at rq ofo
    by (auto simp: in_line_def)
  then show ?thesis unfolding s1_def [symmetric] using same_user_trans [OF s1(6)] by blast
qed

lemma queue_and_out_ok:
  assumes law: "rcv_law I" and s: "rcv_ok strm R R s" "\<not> sk_dead s" "R - 2 ^ 29 < unread_from R s"
    and b: "in_line strm R (rcv_nxt s) b"
  shows "\<exists>s' R' c'. queue_and_out I (- 1) b s = Some s' \<and> advanced strm R b s s' R' c' \<and>
    (sk_rmem_alloc s \<le> sk_rcvbuf s \<and> uint (sg_truesize b) \<le> sk_forward_alloc s \<longrightarrow> stops R (rcv_nxt s) b \<le> R')"
proof -
  obtain v s1 where s1: "tcp_try_rmem_schedule I (uint (sg_truesize b)) s = Some (v, s1)" "rcv_ok strm R R s1" "fixed s s1"
    using try_rmem_ok [OF law s(1,3)] by blast
  show ?thesis
  proof (cases "v = 0")
    case False
    then have "queue_and_out I (- 1) b s = Some s1" by (simp add: queue_and_out_def s1(1))
    moreover have "\<not> (sk_rmem_alloc s \<le> sk_rcvbuf s \<and> uint (sg_truesize b) \<le> sk_forward_alloc s)"
      using s1(1) False by (auto simp: tcp_try_rmem_schedule_def sk_rmem_schedule_def)
    ultimately show ?thesis using advanced_kept [OF s(1) s1(3,2)] by blast
  next
    case True
    have n: "rcv_nxt s1 = rcv_nxt s" "copied_seq s1 = copied_seq s" "ucopy_done s1 = ucopy_done s" "sk_dead s1 = sk_dead s" "aux_ok s1"
      using s1(2,3) by (simp_all add: fixed_def rcv_ok_def)
    have "gapless strm R (rcv_nxt s1) (posn R (rcv_nxt s1) (copied_seq s1)) (sk_receive_queue s1 @ [b]) (stops R (rcv_nxt s1) b)"
      using s1(2) b n(1) by (intro gapless_appendI [where m = R]) (simp_all add: rcv_ok_def unread_from_def in_line_def)
    then obtain s' R' c' where s': "data_queued I (- 1) b ((skb_set_owner_r b s1)\<lparr>sk_receive_queue := sk_receive_queue (skb_set_owner_r b s1) @ [b]\<rparr>) = Some s'"
      "caught_up strm R (rcv_nxt s) b s' R' c'" "same_user s1 s'"
      using queued_ok [OF law, of strm R s1 b "- 1"] b s(2,3) s1(2) n by (auto simp: unread_from_def rcv_ok_def)
    have "queue_and_out I (- 1) b s = Some s'" using s1(1) True s'(1) by (simp add: queue_and_out_def Let_def)
    moreover have "advanced strm R b s s' R' c' \<and> stops R (rcv_nxt s) b \<le> R'"
      using s(3) b n by (intro caught_up_advanced [OF s'(2) _ s'(3)]) (simp_all add: in_line_def unread_from_def)
    ultimately show ?thesis by blast
  qed
qed

text \<open>A waiting process gets the first bytes of the segment.\<close>

definition user_waits :: "tcp_sock \<Rightarrow> bool" where
  "user_waits s \<longleftrightarrow> ucopy_current s \<and> copied_seq s = rcv_nxt s \<and> ucopy_len s \<noteq> 0 \<and> sk_owned s \<and> urg_data s = 0"

lemma copy_to_user_ok:
  assumes law: "rcv_law I" and s: "rcv_ok strm R R s" and b: "skb_ok strm R (rcv_nxt s) b" "starts R (rcv_nxt s) b = R"
  shows "copy_to_user I b s = Some (- 1, s) \<or>
    (\<exists>n s'. copy_to_user I b s = Some (if n = uint (sg_len b) then 1 else 0, s') \<and> user_waits s \<and> 0 \<le> n \<and> n \<le> uint (sg_len b) \<and>
       rcv_nxt s' = rcv_nxt s \<and> sk_dead s' = sk_dead s \<and> aux_ok s' \<and> out_of_order_queue s' = out_of_order_queue s \<and>
       sk_receive_queue s' = [] \<and> unread_from R s = R \<and> posn R (rcv_nxt s) (copied_seq s') = R + n \<and>
       ucopy_done s' = ucopy_done s @ stream strm R (R + n))"
proof (cases "user_waits s")
  case False
  then show ?thesis unfolding copy_to_user_def user_waits_def by (simp only: if_False) blast
next
  case True
  define chunk where "chunk = min (sg_len b) (word_of_int (ucopy_len s))"
  have le: "uint chunk \<le> uint (sg_len b)" by (simp add: chunk_def min_def word_le_def)
  have len: "uint (sg_len b) < 2 ^ 16" using b(1) by (simp add: skb_ok_def word_less_def)
  have si: "sint chunk = uint chunk" using sint_of_int [of "uint chunk"] le len uint_ge_0 [of chunk] by simp
  have at: "unread_from R s = R" using True by (simp add: unread_from_def user_waits_def)
  then have rq: "sk_receive_queue s = []" using s gapless_le [of strm R "rcv_nxt s" R "sk_receive_queue s" R] by (auto simp: rcv_ok_def)
  show ?thesis
  proof (cases "skb_copy_datagram_iovec I b 0 (sint chunk)")
    case None
    then show ?thesis using True by (simp add: copy_to_user_def user_waits_def chunk_def [symmetric] Let_def)
  next
    case (Some bs)
    define s1 where "s1 = s\<lparr>ucopy_len := ucopy_len s - sint chunk, copied_seq := copied_seq s + chunk, ucopy_done := ucopy_done s @ bs\<rparr>"
    have "aux_ok s1" using s by (simp add: rcv_ok_def s1_def aux_ok_def)
    then obtain s2 where s2: "tcp_rcv_space_adjust I s1 = Some s2" "kept s1 s2" using space_adjust_kept [OF rcv_lawD(5) [OF law]] by blast
    have "bs = take (nat (uint chunk)) (sg_bytes b)" using rcv_lawD(1) [OF law] Some unfolding copy_law_def si by blast
    then have bs: "bs = stream strm R (R + uint chunk)"
      using skb_bytes [OF b(1)] b(2) le stream_take [of R "R + uint chunk" "R + uint (sg_len b)" strm] by simp
    have "posn R (rcv_nxt s) (rcv_nxt s + chunk) = R + uint chunk"
      using posn_add_uint [of R "rcv_nxt s" "rcv_nxt s" chunk] le len by simp
    then have pos: "posn R (rcv_nxt s) (copied_seq s2) = R + uint chunk" using s2(2) True by (simp add: kept_def fixed_def s1_def user_waits_def)
    have eaten: "(if chunk = sg_len b then 1 else 0 :: int) = (if uint chunk = uint (sg_len b) then 1 else 0)"
      by (simp only: word_uint_eq_iff)
    have eq: "copy_to_user I b s = Some (if uint chunk = uint (sg_len b) then 1 else 0, s2)"
      unfolding copy_to_user_def user_waits_def [symmetric] Let_def if_P [OF True] chunk_def [symmetric] Some option.case
        s1_def [symmetric] s2(1) bind.bind_lunit eaten ..
    show ?thesis
    proof (rule disjI2, intro exI conjI)
      show "copy_to_user I b s = Some (if uint chunk = uint (sg_len b) then 1 else 0, s2)" by (rule eq)
    qed (use True s2(2) rq at pos bs le s in \<open>simp_all add: kept_def fixed_def s1_def rcv_ok_def aux_ok_def\<close>)
  qed
qed

lemma in_sequence_ok:
  assumes law: "rcv_law I" and s: "rcv_ok strm R R s" "\<not> sk_dead s" "R - 2 ^ 29 < unread_from R s"
    and b: "in_line strm R (rcv_nxt s) b" "starts R (rcv_nxt s) b = R"
  shows "\<exists>s' R' c'. copy_to_user I b s \<bind> (\<lambda>(eaten, s2). queue_and_out I eaten b s2) = Some s' \<and> advanced strm R b s s' R' c' \<and>
    (sk_rmem_alloc s \<le> sk_rcvbuf s \<and> uint (sg_truesize b) \<le> sk_forward_alloc s \<longrightarrow> stops R (rcv_nxt s) b \<le> R')"
proof -
  have ok: "skb_ok strm R (rcv_nxt s) b" and T: "R < stops R (rcv_nxt s) b" using b(1) by (simp_all add: in_line_def)
  from copy_to_user_ok [OF law s(1) ok b(2)] show ?thesis
  proof
    assume "copy_to_user I b s = Some (- 1, s)"
    then show ?thesis using queue_and_out_ok [OF law s b(1)] by fastforce
  next
    assume "\<exists>n s'. copy_to_user I b s = Some (if n = uint (sg_len b) then 1 else 0, s') \<and> user_waits s \<and> 0 \<le> n \<and> n \<le> uint (sg_len b) \<and>
       rcv_nxt s' = rcv_nxt s \<and> sk_dead s' = sk_dead s \<and> aux_ok s' \<and> out_of_order_queue s' = out_of_order_queue s \<and>
       sk_receive_queue s' = [] \<and> unread_from R s = R \<and> posn R (rcv_nxt s) (copied_seq s') = R + n \<and>
       ucopy_done s' = ucopy_done s @ stream strm R (R + n)"
    then obtain n s1 where c: "copy_to_user I b s = Some (if n = uint (sg_len b) then 1 else 0, s1)" "user_waits s" "0 \<le> n" "n \<le> uint (sg_len b)"
      and s1: "rcv_nxt s1 = rcv_nxt s" "sk_dead s1 = sk_dead s" "aux_ok s1" "out_of_order_queue s1 = out_of_order_queue s" "sk_receive_queue s1 = []"
      and at: "unread_from R s = R" "posn R (rcv_nxt s) (copied_seq s1) = R + n" "ucopy_done s1 = ucopy_done s @ stream strm R (R + n)" by blast
    have e: "stops R (rcv_nxt s) b = R + seglen b" using ok b(2) by (simp add: skb_ok_def)
    have ofo: "ofo_bufs strm R (rcv_nxt s) (R + 1) (ofo_end R) (out_of_order_queue s1)"
      "heads (starts R (rcv_nxt s)) (stops R (rcv_nxt s)) R (out_of_order_queue s1)" using s(1) s1(4) by (simp_all add: rcv_ok_def)
    have near: "R - 2 ^ 29 < posn R (rcv_nxt s) (copied_seq s1)" using at c(3) by simp
    have "\<exists>s' R' c'. queue_and_out I (if n = uint (sg_len b) then 1 else 0) b s1 = Some s' \<and> caught_up strm R (rcv_nxt s) b s' R' c' \<and> same_user s1 s'"
    proof (cases "n = uint (sg_len b)")
      case True
      have "gapless strm R (rcv_nxt s) (posn R (rcv_nxt s) (copied_seq s1)) (sk_receive_queue s1) (R + n)" by (simp add: s1(5) at)
      moreover have "R + n = stops R (rcv_nxt s) b \<or> sg_fin b \<and> R + n = stops R (rcv_nxt s) b - 1" using True e by (simp add: seglen_def)
      ultimately show ?thesis
        using data_queued_ok [OF law ok T, of s1 "R + n" 1] b(2) s1(3) s1(2) s(2) near ofo True by (simp add: queue_and_out_def)
    next
      case False
      have "gapless strm R (rcv_nxt s1) (posn R (rcv_nxt s1) (copied_seq s1)) (sk_receive_queue s1 @ [b]) (stops R (rcv_nxt s1) b)"
        using ok b(2) at(2) s1(1,5) e c(3,4) False by (simp add: seglen_def)
      from queued_ok [OF law _ s1(3) _ _ this, of 0] show ?thesis
        using b(1) s1(1,2) s(2) near ofo False by (simp add: queue_and_out_def Let_def)
    qed
    then obtain s' R' c' where s': "queue_and_out I (if n = uint (sg_len b) then 1 else 0) b s1 = Some s'"
      "caught_up strm R (rcv_nxt s) b s' R' c'" "same_user s1 s'" by blast
    have "advanced strm R b s s' R' c' \<and> stops R (rcv_nxt s) b \<le> R'"
      using near at s1(2) by (intro caught_up_advanced [OF s'(2) T s'(3)]) simp_all
    then show ?thesis using c(1) s'(1) by auto
  qed
qed

section \<open>The whole of tcp\_data\_queue\<close>

text \<open>Moving the data pointer of a buffer over the header.\<close>

definition pull_law :: "ienv \<Rightarrow> bool" where
  "pull_law I \<longleftrightarrow> (\<forall>n b. unat n \<le> length (sg_bytes b) \<longrightarrow> skb_pull I n b =
     b\<lparr>sg_len := sg_len b - n, sg_pulled := sg_pulled b + n, sg_bytes := drop (unat n) (sg_bytes b)\<rparr>)"

text \<open>
  A segment of the stream as it arrives: the payload is behind a header of \<open>doff\<close> words, and the segment does not start
  more than 512 MB before the next expected byte.
\<close>

definition segment_of :: "(int \<Rightarrow> u8) \<Rightarrow> int \<Rightarrow> u32 \<Rightarrow> skb \<Rightarrow> bool" where
  "segment_of strm R r b \<longleftrightarrow>
     (let h = ucast (sg_doff b) * 4 :: u32 in
        h \<le> 60 \<and> unat h \<le> length (sg_bytes b) \<and> sg_pulled b = 0 \<and> R - 2 ^ 29 \<le> posn R r (sg_seq b) \<and>
        skb_ok strm R r (b\<lparr>sg_len := sg_len b - h, sg_pulled := h, sg_bytes := drop (unat h) (sg_bytes b)\<rparr>))"

lemma segment_pull:
  assumes "pull_law I" "segment_of strm R r b"
  defines "d \<equiv> skb_pull I (ucast (sg_doff b) * 4) b"
  shows "skb_ok strm R r d" "sg_seq d = sg_seq b" "sg_end_seq d = sg_end_seq b" "sg_fin d = sg_fin b" "sg_cwr d = sg_cwr b"
    "sg_truesize d = sg_truesize b"
  using assms by (simp_all add: pull_law_def segment_of_def Let_def)

lemma out_of_window_ok:
  assumes "rcv_ok strm R R s"
  shows "\<exists>s'. out_of_window I s = Some s' \<and> advanced strm R b s s' R R"
proof -
  have "aux_ok s" using assms by (simp add: rcv_ok_def)
  then obtain s1 where s1: "tcp_enter_quickack_mode I s = Some s1" "kept s s1" using enter_quickack_kept by blast
  have k: "kept s (inet_csk_schedule_ack s1)" by (rule kept_trans [OF s1(2) kept_simple(1)])
  then show ?thesis
    using s1(1) advanced_kept [OF assms kept_fixed [OF k] rcv_ok_kept [OF k assms]] by (simp add: out_of_window_def)
qed

lemma advanced_from:
  assumes k: "kept s s1" and a: "advanced strm R b s1 s' R' c"
  shows "advanced strm R b s s' R' c"
  using assms by (simp add: advanced_def kept_def fixed_def unread_from_def)

lemma out_of_order_ok:
  assumes law: "rcv_law I" and s: "rcv_ok strm R R s" "R - 2 ^ 29 < unread_from R s" and b: "ahead strm R (rcv_nxt s) b"
  shows "\<exists>s'. out_of_order I b s = Some s' \<and> advanced strm R d s s' R R"
proof -
  have "aux_ok s" using s(1) by (simp add: rcv_ok_def)
  then obtain s1 where s1: "TCP_ECN_check_ce I b s = Some s1" "kept s s1" using check_ce_kept by blast
  have r1: "rcv_ok strm R R s1" "R - 2 ^ 29 < unread_from R s1"
    using rcv_ok_kept [OF s1(2) s(1)] s(2) unread_from_fixed [OF kept_fixed [OF s1(2)]] by simp_all
  obtain v s2 where s2: "tcp_try_rmem_schedule I (uint (sg_truesize b)) s1 = Some (v, s2)" "rcv_ok strm R R s2" "fixed s1 s2"
    using try_rmem_ok [OF law r1] by blast
  have f2: "fixed s s2" by (rule fixed_trans [OF kept_fixed [OF s1(2)] s2(3)])
  define s3 where "s3 = skb_set_owner_r b (inet_csk_schedule_ack (s2\<lparr>pred_flags := 0\<rparr>))"
  have k3: "kept s2 s3" unfolding s3_def by (rule kept_trans [OF kept_simple(9) kept_trans [OF kept_simple(1) kept_simple(4)]])
  have r3: "rcv_ok strm R R s3" "fixed s s3" using rcv_ok_kept [OF k3 s2(2)] fixed_trans [OF f2 kept_fixed [OF k3]] .
  have "ahead strm R (rcv_nxt s3) b" using b r3(2) by (simp add: fixed_def)
  from ofo_insert_ok [OF law r3(1) this] obtain s4 where s4: "ofo_insert I b s3 = Some s4" "rcv_ok strm R R s4" "fixed s3 s4" by blast
  have "out_of_order I b s = (if v \<noteq> 0 then Some s2 else Some s4)"
    by (simp add: out_of_order_def s1(1) s2(1) s4(1) s3_def [symmetric])
  then show ?thesis
    using advanced_kept [OF s(1) f2 s2(2)] advanced_kept [OF s(1) fixed_trans [OF r3(2) s4(3)] s4(2)] by simp
qed

text \<open>The comparisons at the beginning, in positions.\<close>

lemma data_compare:
  assumes law: "seq_law E" and d: "skb_ok strm R r d" "sg_seq d \<noteq> sg_end_seq d" "R - 2 ^ 29 \<le> starts R r d" and w: "w \<le> 2 ^ 30"
  shows "sg_seq d = r \<longleftrightarrow> starts R r d = R" "after E (sg_end_seq d) r \<longleftrightarrow> R < stops R r d"
    "before E (sg_seq d) (r + w) \<longleftrightarrow> starts R r d < R + uint w" "before E (sg_seq d) r \<longleftrightarrow> starts R r d < R"
    "starts R r d < stops R r d" "stops R r d \<le> starts R r d + 2 ^ 16" "0 \<le> uint w" "uint w \<le> 2 ^ 30"
proof -
  have T: "stops R r d = starts R r d + seglen d" "0 \<le> seglen d" "seglen d \<le> 2 ^ 16"
    using d(1) seglen_bounds [of d] by (simp_all add: skb_ok_def)
  have "starts R r d \<noteq> stops R r d" using d(2) posn_diff [of "sg_end_seq d" "sg_seq d" R r] by auto
  with T show ST: "starts R r d < stops R r d" "stops R r d \<le> starts R r d + 2 ^ 16" by simp_all
  have hi: "starts R r d < R + 2 ^ 31" "stops R r d < R + 2 ^ 31" using posn_range by simp_all
  show wn: "0 \<le> uint w" "uint w \<le> 2 ^ 30" using w by (simp_all add: word_le_def)
  have pw: "posn R r (r + w) = R + uint w" using posn_add_uint [of R r r w] wn by simp
  show "sg_seq d = r \<longleftrightarrow> starts R r d = R" using posn_diff [of "sg_seq d" r R r] by auto
  show "after E (sg_end_seq d) r \<longleftrightarrow> R < stops R r d"
    using posn_before(2) [OF law, of R r "sg_end_seq d" r] d(3) hi ST by (simp add: abs_less_iff)
  show "before E (sg_seq d) r \<longleftrightarrow> starts R r d < R"
    using posn_before(1) [OF law, of R r "sg_seq d" r] d(3) hi by (simp add: abs_less_iff)
  show "before E (sg_seq d) (r + w) \<longleftrightarrow> starts R r d < R + uint w"
  proof -
    have "\<bar>x - (R + u)\<bar> < 2 ^ 31" if "R - 2 ^ 29 \<le> x" "x < R + 2 ^ 31" "0 \<le> u" "u \<le> 2 ^ 30" for x u :: int
      using that by (simp add: abs_less_iff)
    from posn_before(1) [OF law, of R r "sg_seq d" "r + w", unfolded pw, OF this] d(3) hi(1) wn show ?thesis by simp
  qed
qed

lemma data_queue_eq:
  assumes "sg_seq b \<noteq> sg_end_seq b" "d = skb_pull I (ucast (sg_doff b) * 4) b" "sg_seq d = sg_seq b" "sg_end_seq d = sg_end_seq b"
    and "s2 = (TCP_ECN_accept_cwr I d s)\<lparr>rx_opt := (rx_opt (TCP_ECN_accept_cwr I d s))\<lparr>dsack := False\<rparr>\<rparr>"
    and "tcp_enter_quickack_mode I s2 = Some s3" "rcv_nxt s3 = rcv_nxt s" "s4 = dsack_set I (sg_seq d) (rcv_nxt s) s3"
  shows "tcp_data_queue I b s = (if sg_seq d = rcv_nxt s then
        (if rcv_window I s = 0 then out_of_window I s2 else copy_to_user I d s2 \<bind> (\<lambda>(eaten, t). queue_and_out I eaten d t))
      else if \<not> after (tv I) (sg_end_seq d) (rcv_nxt s) then out_of_window I (dsack_set I (sg_seq d) (sg_end_seq d) s2)
      else if \<not> before (tv I) (sg_seq d) (rcv_nxt s + rcv_window I s) then out_of_window I s2
      else if before (tv I) (sg_seq d) (rcv_nxt s) then (if rcv_window I s4 = 0 then out_of_window I s4 else queue_and_out I (- 1) d s4)
      else out_of_order I d s3)"
proof -
  have n2: "rcv_nxt s2 = rcv_nxt s" "rcv_window I s2 = rcv_window I s"
    by (simp_all add: assms(5) TCP_ECN_accept_cwr_def rcv_window_def)
  show ?thesis
    unfolding tcp_data_queue_def assms(2) [symmetric] Let_def assms(5) [symmetric] n2 assms(6) bind.bind_lunit
      assms(7) assms(8) [symmetric] if_not_P [OF assms(1)] by (rule refl)
qed

lemma data_queue_ok:
  assumes law: "rcv_law I" "pull_law I" and s: "rcv_ok strm R R s" "\<not> sk_dead s" "R - 2 ^ 29 < unread_from R s"
    and w: "rcv_window I s \<le> 2 ^ 30" and b: "segment_of strm R (rcv_nxt s) b"
  shows "\<exists>s' R' c. tcp_data_queue I b s = Some s' \<and> advanced strm R b s s' R' c \<and>
    (sg_seq b = rcv_nxt s \<and> sg_end_seq b \<noteq> sg_seq b \<and> rcv_window I s \<noteq> 0 \<and> sk_rmem_alloc s \<le> sk_rcvbuf s \<and>
       uint (sg_truesize b) \<le> sk_forward_alloc s \<longrightarrow> stops R (rcv_nxt s) b \<le> R')"
proof (cases "sg_seq b = sg_end_seq b")
  case True
  then show ?thesis using advanced_kept [OF s(1) fixed_refl s(1)] by (auto simp: tcp_data_queue_def)
next
  case False
  define r where "r = rcv_nxt s"
  define d where "d = skb_pull I (ucast (sg_doff b) * 4) b"
  note d = segment_pull [OF law(2) b, folded d_def]
  define s2 where "s2 = (TCP_ECN_accept_cwr I d s)\<lparr>rx_opt := (rx_opt (TCP_ECN_accept_cwr I d s))\<lparr>dsack := False\<rparr>\<rparr>"
  have k2: "kept s s2" unfolding s2_def by (rule kept_trans [OF kept_simple(6,11)])
  have n2: "rcv_nxt s2 = r" "sk_rmem_alloc s2 = sk_rmem_alloc s" "sk_rcvbuf s2 = sk_rcvbuf s" "sk_forward_alloc s2 = sk_forward_alloc s"
    by (simp_all add: s2_def TCP_ECN_accept_cwr_def r_def)
  have r2: "rcv_ok strm R R s2" "\<not> sk_dead s2" "R - 2 ^ 29 < unread_from R s2"
    using rcv_ok_kept [OF k2 s(1)] s(2,3) kept_dead [OF k2] unread_from_fixed [OF kept_fixed [OF k2]] by simp_all
  have "aux_ok s2" using r2(1) by (simp add: rcv_ok_def)
  then obtain s3 where s3: "tcp_enter_quickack_mode I s2 = Some s3" "kept s2 s3" using enter_quickack_kept by blast
  define s4 where "s4 = dsack_set I (sg_seq d) r s3"
  have k4: "kept s2 s4" unfolding s4_def by (rule kept_trans [OF s3(2) kept_dsack(1)])
  have r3: "rcv_ok strm R R s3" "R - 2 ^ 29 < unread_from R s3" "rcv_nxt s3 = r"
    and r4: "rcv_ok strm R R s4" "\<not> sk_dead s4" "R - 2 ^ 29 < unread_from R s4" "rcv_nxt s4 = r"
    using rcv_ok_kept [OF s3(2) r2(1)] rcv_ok_kept [OF k4 r2(1)] r2(2,3) n2(1) s3(2) k4 by (simp_all add: kept_def fixed_def unread_from_def)
  have okd: "skb_ok strm R r d" using d(1) by (simp add: r_def)
  have "R - 2 ^ 29 \<le> starts R r d" "sg_seq d \<noteq> sg_end_seq d" using b d(2,3) False by (simp_all add: segment_of_def Let_def r_def)
  note cmp = data_compare [OF rcv_lawD(2) [OF law(1)] okd this(2,1) w]
  note eq = data_queue_eq [OF False d_def d(2,3) s2_def s3(1) r3(3) [unfolded r_def] s4_def [unfolded r_def], folded r_def, unfolded cmp(1-4)]
  have out: "\<exists>t. out_of_window I x = Some t \<and> advanced strm R b s t R R" if "kept s2 x" for x
    using out_of_window_ok [OF rcv_ok_kept [OF that r2(1)], of I b] advanced_from [OF kept_trans [OF k2 that]] by blast
  have lift: "advanced strm R b s t R' c" if "kept s2 x" "advanced strm R d x t R' c" for x t R' c
    using advanced_from [OF kept_trans [OF k2 that(1)] that(2)] d(4) by (simp add: advanced_def)
  have seq: "sg_seq b = rcv_nxt s \<longleftrightarrow> starts R r d = R" using cmp(1) d(2) by (simp add: r_def)
  consider "starts R r d = R" "rcv_window I s \<noteq> 0" | "starts R r d = R" "rcv_window I s = 0" | "starts R r d \<noteq> R" "stops R r d \<le> R"
    | "starts R r d \<noteq> R" "R < stops R r d" "R + uint (rcv_window I s) \<le> starts R r d"
    | "starts R r d < R" "R < stops R r d" "starts R r d < R + uint (rcv_window I s)"
    | "R < starts R r d" "starts R r d < R + uint (rcv_window I s)" by linarith
  then show ?thesis
  proof cases
    case 1
    then have "in_line strm R (rcv_nxt s2) d" "starts R (rcv_nxt s2) d = R" using okd cmp(5) by (simp_all add: in_line_def n2(1))
    from in_sequence_ok [OF law(1) r2 this] obtain t R' c where
      t: "copy_to_user I d s2 \<bind> (\<lambda>(eaten, t). queue_and_out I eaten d t) = Some t" "advanced strm R d s2 t R' c"
        "sk_rmem_alloc s \<le> sk_rcvbuf s \<and> uint (sg_truesize b) \<le> sk_forward_alloc s \<longrightarrow> stops R r b \<le> R'"
      unfolding n2 d(3,6) by blast
    then show ?thesis using 1 eq lift [OF kept_refl t(2)] by (auto simp: r_def)
  next
    case 2
    then show ?thesis using eq out [OF kept_refl] by auto
  next
    case 3
    then show ?thesis using eq seq out [of "dsack_set I (sg_seq d) (sg_end_seq d) s2"] by auto
  next
    case 4
    then show ?thesis using eq seq out [OF kept_refl] by auto
  next
    case 5
    then have "in_line strm R (rcv_nxt s4) d" using okd by (simp add: in_line_def r4(4))
    from queue_and_out_ok [OF law(1) r4(1-3) this] obtain t R' c where t: "queue_and_out I (- 1) d s4 = Some t" "advanced strm R d s4 t R' c" by blast
    from lift [OF k4 t(2)] show ?thesis using 5 eq seq t(1) out [OF k4] by (cases "rcv_window I s4 = 0") auto
  next
    case 6
    then have "ahead strm R (rcv_nxt s3) d" using okd cmp(5,6,8) by (simp add: ahead_def r3(3) ofo_end_def)
    from out_of_order_ok [OF law(1) r3(1,2) this] obtain t where t: "out_of_order I d s3 = Some t" "advanced strm R d s3 t R R" by blast
    from lift [OF s3(2) t(2)] show ?thesis using 6 cmp(5) eq seq t(1) by auto
  qed
qed

end
