(* ===== verification/Tcp_Rcvq_Props.thy ===== *)
theory Tcp_Rcvq_Props
  imports Tcp_Data_Correct Tcp_Input_Example
begin

text \<open>The properties of the receive queues.\<close>

lemma I0_rcv_laws: "rcv_law I0" "pull_law I0"
proof -
  have "copy_law I0" by (auto simp: copy_law_def I0_def copy_bytes_def split: if_splits)
  moreover have "frame_law I0" by (simp add: frame_law_def I0_def kept_defs sk_mem_uncharge_def)
  moreover have "room_law I0" by (simp add: room_law_def I0_def)
  moreover have "seq_law (tv I0)" "sack_reset_law (tv I0)" by (simp_all add: T0_laws)
  ultimately show "rcv_law I0" using I0_laws by (simp add: rcv_law_def)
  show "pull_law I0" by (simp add: pull_law_def I0_def)
qed

text \<open>The stream of the examples: every byte is 7; the connection waits for the byte at position 101.\<close>

lemma tsk0_rcv: "rcv_ok (\<lambda>_. 7) 101 101 tsk0" "\<not> sk_dead tsk0" "unread_from 101 tsk0 = 101" "rcv_nxt tsk0 = 101"
proof -
  have "aux_ok tsk0" by (simp add: aux_ok_def tsk0_def sacks_ok_def rx0_def)
  then show "rcv_ok (\<lambda>_. 7) 101 101 tsk0" "\<not> sk_dead tsk0" "unread_from 101 tsk0 = 101" "rcv_nxt tsk0 = 101"
    by (simp_all add: rcv_ok_def tsk0_def unread_from_def ofo_bufs_def)
qed

lemma skb0_segment: "segment_of (\<lambda>_. 7) 101 101 skb0"
  by (simp add: segment_of_def skb0_def skb_ok_def posn_def seglen_def map_replicate_const)

text \<open>C31.
  Receiving data. Let the receive queue hold the stream of the peer from the first byte the user has not read up to the next
  expected byte, and the out-of-order queue parts of the stream behind it. Whatever segment of the stream arrives (in
  order, a duplicate, one that overlaps, one behind a gap, with or without a FIN), and however short memory is (so that
  the queues are collapsed, pruned or the segment dropped), \<open>tcp_data_queue\<close> ends without a fault, the queues are such
  queues again, and the next expected byte moves from position \<open>R\<close> to a position \<open>R'\<close> that is not before it; a process
  waiting for data is given exactly the next bytes of the stream. A segment in order is accepted when there is memory.
\<close>

theorem data_queue_stream:
  assumes "rcv_law I" "pull_law I" "rcv_ok strm R R s" "\<not> sk_dead s" "R - 2 ^ 29 < unread_from R s"
    and "rcv_window I s \<le> 2 ^ 30" "segment_of strm R (rcv_nxt s) b"
  shows "\<exists>s' R' c. tcp_data_queue I b s = Some s' \<and> R \<le> R' \<and> rcv_nxt s' = rcv_nxt s + word_of_int (R' - R) \<and>
    rcv_ok strm R' c s' \<and> (c = R' \<or> sg_fin b \<and> c = R' - 1) \<and>
    ucopy_done s' = ucopy_done s @ stream strm (unread_from R s) (unread_from R' s') \<and>
    (sg_seq b = rcv_nxt s \<and> sg_end_seq b \<noteq> sg_seq b \<and> rcv_window I s \<noteq> 0 \<and> sk_rmem_alloc s \<le> sk_rcvbuf s \<and>
       uint (sg_truesize b) \<le> sk_forward_alloc s \<longrightarrow> posn R (rcv_nxt s) (sg_end_seq b) \<le> R')"
  using data_queue_ok [OF assms] unfolding advanced_def by blast

theorem data_queue_stream_witness:
  "\<exists>s' R' c. tcp_data_queue I0 skb0 tsk0 = Some s' \<and> 111 \<le> R' \<and> rcv_ok (\<lambda>_. 7) R' c s'"
proof -
  have w: "rcv_window I0 tsk0 \<le> 2 ^ 30" "rcv_window I0 tsk0 \<noteq> 0" by (simp_all add: rcv_window_def tsk0_def M0_def)
  have "posn 101 101 (sg_end_seq skb0) = 111" by (simp add: posn_def skb0_def)
  moreover have "sg_seq skb0 = 101" "sg_end_seq skb0 \<noteq> sg_seq skb0" "sk_rmem_alloc tsk0 \<le> sk_rcvbuf tsk0"
    "uint (sg_truesize skb0) \<le> sk_forward_alloc tsk0" by (simp_all add: skb0_def tsk0_def)
  ultimately show ?thesis
    using data_queue_stream [OF I0_rcv_laws tsk0_rcv(1,2), of skb0] w skb0_segment by (fastforce simp: tsk0_rcv(3,4))
qed

text \<open>C32.
  Memory pressure never costs data that were acknowledged: \<open>tcp_prune_queue\<close>, which copies the bytes of the queued segments into
  new buffers, or stops half way when there is no memory for one, returns (no \<^verbatim>\<open>BUG\<close>, no endless loop); the next
  expected byte and the reader's position are the same, and what the reader gets from the receive queue, if it has no
  FIN, is the same stream of bytes as before.
\<close>

theorem prune_keeps_stream:
  assumes "rcv_law I" "rcv_ok strm R R s" "R - 2 ^ 29 < unread_from R s"
  shows "\<exists>v s'. tcp_prune_queue I s = Some (v, s') \<and> rcv_ok strm R R s' \<and> rcv_nxt s' = rcv_nxt s \<and> copied_seq s' = copied_seq s \<and>
    ((\<forall>b \<in> set (sk_receive_queue s @ sk_receive_queue s'). \<not> sg_fin b) \<longrightarrow>
       unread R (rcv_nxt s') (unread_from R s') (sk_receive_queue s') = unread R (rcv_nxt s) (unread_from R s) (sk_receive_queue s))"
proof -
  obtain v s' where s': "tcp_prune_queue I s = Some (v, s')" "rcv_ok strm R R s'" "fixed s s'" using prune_queue_ok [OF assms] by blast
  have "gapless strm R (rcv_nxt s) (unread_from R s) (sk_receive_queue s) R"
    "gapless strm R (rcv_nxt s') (unread_from R s') (sk_receive_queue s') R" using assms(2) s'(2) by (simp_all add: rcv_ok_def)
  from this [THEN unread_gapless] show ?thesis using s' by (auto simp: fixed_def unread_from_def)
qed

theorem prune_keeps_stream_witness:
  "\<exists>v s'. tcp_prune_queue I0 tsk0 = Some (v, s') \<and> rcv_ok (\<lambda>_. 7) 101 101 s' \<and> rcv_nxt s' = 101"
  using prune_keeps_stream [OF I0_rcv_laws(1) tsk0_rcv(1)] by (auto simp: tsk0_rcv(3,4))

end
