(* ===== verification/Tcp_Sender.thy ===== *)
theory Tcp_Sender
  imports Tcp_Tuning
begin

text \<open>
  The sending side of \<^verbatim>\<open>net/ipv4/tcp_input.c\<close>, first part: the metrics of the route, the tags of the segments in the
  retransmission queue (sacked, retransmitted, lost) with their counters, duplicate acknowledgements of a connection
  without SACK, F-RTO and the loss state. Functions that change a segment of the queue write it
  back by its address (\<open>wput\<close>). Congestion control modules, the functions that send and
  the small accessors of \<^verbatim>\<open>net/tcp.h\<close> are parameters. A pointer to a segment that is not in the queue any more is a fault.
\<close>

section \<open>Parameters\<close>

datatype tcp_ca_event =
    CA_EVENT_FRTO
  | CA_EVENT_LOSS
  | CA_EVENT_COMPLETE_CWR
  | CA_EVENT_FAST_ACK
  | CA_EVENT_SLOW_ACK

record senv =
  inp :: ienv
  TCPCB_SACKED_ACKED :: u8
  TCPCB_SACKED_RETRANS :: u8
  TCPCB_LOST :: u8
  TCPCB_TAGBITS :: u8
  TCPCB_EVER_RETRANS :: u8
  TCPCB_RETRANS :: u8
  TCPHDR_SYN :: u8
  TCP_MAX_REORDERING :: int
  TCP_TIMEOUT_FALLBACK :: u32
  sysctl_tcp_frto :: int
  sysctl_tcp_frto_response :: int
  sysctl_tcp_reordering :: u32
  sysctl_tcp_thin_dupack :: bool
  sysctl_tcp_nometrics_save :: bool
  sysctl_tcp_abc :: bool
  between :: "u32 \<Rightarrow> u32 \<Rightarrow> u32 \<Rightarrow> bool"
  tcp_is_fack :: "tcp_options_received \<Rightarrow> bool"
  tcp_is_reno :: "tcp_options_received \<Rightarrow> bool"
  tcp_skb_pcount :: "wskb \<Rightarrow> u32"
  tcp_skb_mss :: "wskb \<Rightarrow> u32"
  tcp_packets_in_flight :: "tcp_sock \<Rightarrow> u32"
  tcp_left_out :: "tcp_sock \<Rightarrow> u32"
  tcp_in_initial_slowstart :: "tcp_sock \<Rightarrow> bool"
  tcp_current_ssthresh :: "tcp_sock \<Rightarrow> u32"
  tcp_max_burst :: "tcp_sock \<Rightarrow> u32"
  tcp_may_send_now :: "tcp_sock \<Rightarrow> bool"
  tcp_stream_is_thin :: "tcp_sock \<Rightarrow> bool"
  tcp_mss_to_mtu :: "u32 \<Rightarrow> u32"
  tcp_set_ca_state :: "tcp_ca_state \<Rightarrow> tcp_sock \<Rightarrow> tcp_sock"
  tcp_ca_event :: "tcp_ca_event \<Rightarrow> tcp_sock \<Rightarrow> tcp_sock"
  tcp_clear_all_retrans_hints :: "tcp_sock \<Rightarrow> tcp_sock"
  tcp_clear_retrans_hints_partial :: "tcp_sock \<Rightarrow> tcp_sock"
  ca_ssthresh :: "tcp_sock \<Rightarrow> u32"
  ca_cong_avoid :: "u32 \<Rightarrow> u32 \<Rightarrow> tcp_sock \<Rightarrow> tcp_sock"
  ca_min_cwnd :: "(tcp_sock \<Rightarrow> u32) option"
  ca_undo_cwnd :: "(tcp_sock \<Rightarrow> u32) option"
  ca_pkts_acked :: "(u32 \<Rightarrow> int \<Rightarrow> tcp_sock \<Rightarrow> tcp_sock) option"
  ca_rtt_stamp :: bool
  net_invalid_timestamp :: int
  us_since :: "int \<Rightarrow> int"
  jiffies_to_usecs :: "int \<Rightarrow> int"
  tcp_fragment :: "wskb \<Rightarrow> u32 \<Rightarrow> u32 \<Rightarrow> tcp_sock \<Rightarrow> int \<times> tcp_sock"
  tcp_trim_head :: "wskb \<Rightarrow> u32 \<Rightarrow> tcp_sock \<Rightarrow> bool \<times> tcp_sock"
  tcp_retransmit_skb :: "wskb \<Rightarrow> tcp_sock \<Rightarrow> tcp_sock"
  tcp_xmit_retransmit_queue :: "tcp_sock \<Rightarrow> tcp_sock"
  tcp_sync_mss :: "tcp_sock \<Rightarrow> tcp_sock"
  tcp_current_mss :: "tcp_sock \<Rightarrow> u32 \<times> tcp_sock"
  tcp_highest_sack_seq :: "tcp_sock \<Rightarrow> u32"
  tcp_highest_sack :: "tcp_sock \<Rightarrow> ptr option"
  tcp_highest_sack_reset :: "tcp_sock \<Rightarrow> tcp_sock"
  tcp_advance_highest_sack :: "wskb \<Rightarrow> tcp_sock \<Rightarrow> tcp_sock"
  sk_can_gso :: "tcp_sock \<Rightarrow> bool"
  skb_headlen :: "wskb \<Rightarrow> u32"
  skb_is_nonlinear :: "wskb \<Rightarrow> bool"
  skb_shift :: "wskb \<Rightarrow> wskb \<Rightarrow> int \<Rightarrow> (wskb \<times> wskb) option"
  tcp_push_pending_frames :: "tcp_sock \<Rightarrow> tcp_sock"
  tcp_init_wl :: "u32 \<Rightarrow> tcp_sock \<Rightarrow> tcp_sock"
  tcp_update_wl :: "u32 \<Rightarrow> tcp_sock \<Rightarrow> tcp_sock"
  skb_csum_unnecessary :: "skb \<Rightarrow> bool"
  tcp_checksum_complete :: "skb \<Rightarrow> bool"
  skb_copy_and_csum_datagram_iovec :: "skb \<Rightarrow> int \<Rightarrow> u8 list option"
  tcp_mtup_init :: "tcp_sock \<Rightarrow> tcp_sock"
  rebuild_header :: "tcp_sock \<Rightarrow> tcp_sock"
  tcp_init_congestion_control :: "tcp_sock \<Rightarrow> tcp_sock"
  keepalive_time_when :: "tcp_sock \<Rightarrow> u64"
  tcp_fin_time :: "tcp_sock \<Rightarrow> int"
  tcp_fast_path_on_wnd :: "u32 \<Rightarrow> tcp_sock \<Rightarrow> tcp_sock"
  tcp_send_synack :: "tcp_sock \<Rightarrow> tcp_sock"
  conn_request :: "skb \<Rightarrow> tcp_sock \<Rightarrow> int \<times> tcp_sock"
  dst_metric_set :: "rtax \<Rightarrow> u32 \<Rightarrow> dst_entry \<Rightarrow> dst_entry"
  dst_metric_rtt :: "dst_entry \<Rightarrow> rtax \<Rightarrow> u64"
  set_dst_metric_rtt :: "rtax \<Rightarrow> u64 \<Rightarrow> dst_entry \<Rightarrow> dst_entry"

abbreviation bef :: "senv \<Rightarrow> u32 \<Rightarrow> u32 \<Rightarrow> bool" where "bef V \<equiv> before (tv (inp V))"
abbreviation aft :: "senv \<Rightarrow> u32 \<Rightarrow> u32 \<Rightarrow> bool" where "aft V \<equiv> after (tv (inp V))"
abbreviation now :: "senv \<Rightarrow> u32" where "now V \<equiv> tcp_time_stamp (inp V)"
abbreviation is_sack :: "senv \<Rightarrow> tcp_sock \<Rightarrow> bool" where "is_sack V s \<equiv> tcp_is_sack (inp V) (rx_opt s)"
abbreviation is_fack :: "senv \<Rightarrow> tcp_sock \<Rightarrow> bool" where "is_fack V s \<equiv> tcp_is_fack V (rx_opt s)"
abbreviation is_reno :: "senv \<Rightarrow> tcp_sock \<Rightarrow> bool" where "is_reno V s \<equiv> tcp_is_reno V (rx_opt s)"

text \<open>The states of congestion control are compared as the numbers of the enumeration.\<close>

primrec ca_code :: "tcp_ca_state \<Rightarrow> nat" where
  "ca_code TCP_CA_Open = 0"
| "ca_code TCP_CA_Disorder = 1"
| "ca_code TCP_CA_CWR = 2"
| "ca_code TCP_CA_Recovery = 3"
| "ca_code TCP_CA_Loss = 4"

instantiation tcp_ca_state :: linorder
begin

definition less_eq_tcp_ca_state :: "tcp_ca_state \<Rightarrow> tcp_ca_state \<Rightarrow> bool" where
  "a \<le> b \<longleftrightarrow> ca_code a \<le> ca_code b"

definition less_tcp_ca_state :: "tcp_ca_state \<Rightarrow> tcp_ca_state \<Rightarrow> bool" where
  "a < b \<longleftrightarrow> ca_code a < ca_code b"

instance
proof
  fix a b c :: tcp_ca_state
  show "a < b \<longleftrightarrow> a \<le> b \<and> \<not> b \<le> a" "a \<le> a" "a \<le> b \<or> b \<le> a"
    "a \<le> b \<Longrightarrow> b \<le> c \<Longrightarrow> a \<le> c" by (auto simp: less_eq_tcp_ca_state_def less_tcp_ca_state_def)
  show "a \<le> b \<Longrightarrow> b \<le> a \<Longrightarrow> a = b" by (cases a; cases b) (simp_all add: less_eq_tcp_ca_state_def)
qed

end

section \<open>Flags of an acknowledgement\<close>

definition FLAG_DATA :: u32 where "FLAG_DATA = 0x01"
definition FLAG_WIN_UPDATE :: u32 where "FLAG_WIN_UPDATE = 0x02"
definition FLAG_DATA_ACKED :: u32 where "FLAG_DATA_ACKED = 0x04"
definition FLAG_RETRANS_DATA_ACKED :: u32 where "FLAG_RETRANS_DATA_ACKED = 0x08"
definition FLAG_SYN_ACKED :: u32 where "FLAG_SYN_ACKED = 0x10"
definition FLAG_DATA_SACKED :: u32 where "FLAG_DATA_SACKED = 0x20"
definition FLAG_ECE :: u32 where "FLAG_ECE = 0x40"
definition FLAG_DATA_LOST :: u32 where "FLAG_DATA_LOST = 0x80"
definition FLAG_SLOWPATH :: u32 where "FLAG_SLOWPATH = 0x100"
definition FLAG_ONLY_ORIG_SACKED :: u32 where "FLAG_ONLY_ORIG_SACKED = 0x200"
definition FLAG_SND_UNA_ADVANCED :: u32 where "FLAG_SND_UNA_ADVANCED = 0x400"
definition FLAG_DSACKING_ACK :: u32 where "FLAG_DSACKING_ACK = 0x800"
definition FLAG_NONHEAD_RETRANS_ACKED :: u32 where "FLAG_NONHEAD_RETRANS_ACKED = 0x1000"
definition FLAG_SACK_RENEGING :: u32 where "FLAG_SACK_RENEGING = 0x2000"
definition FLAG_ACKED :: u32 where "FLAG_ACKED = FLAG_DATA_ACKED OR FLAG_SYN_ACKED"
definition FLAG_NOT_DUP :: u32 where "FLAG_NOT_DUP = FLAG_DATA OR FLAG_WIN_UPDATE OR FLAG_ACKED"
definition FLAG_CA_ALERT :: u32 where "FLAG_CA_ALERT = FLAG_DATA_SACKED OR FLAG_ECE"
definition FLAG_FORWARD_PROGRESS :: u32 where "FLAG_FORWARD_PROGRESS = FLAG_ACKED OR FLAG_DATA_SACKED"
definition FLAG_ANY_PROGRESS :: u32 where "FLAG_ANY_PROGRESS = FLAG_FORWARD_PROGRESS OR FLAG_SND_UNA_ADVANCED"

lemmas flag_defs = FLAG_DATA_def FLAG_WIN_UPDATE_def FLAG_DATA_ACKED_def FLAG_RETRANS_DATA_ACKED_def FLAG_SYN_ACKED_def
  FLAG_DATA_SACKED_def FLAG_ECE_def FLAG_DATA_LOST_def FLAG_SLOWPATH_def FLAG_ONLY_ORIG_SACKED_def
  FLAG_SND_UNA_ADVANCED_def FLAG_DSACKING_ACK_def FLAG_NONHEAD_RETRANS_ACKED_def FLAG_SACK_RENEGING_def
  FLAG_ACKED_def FLAG_NOT_DUP_def FLAG_CA_ALERT_def FLAG_FORWARD_PROGRESS_def FLAG_ANY_PROGRESS_def

abbreviation has :: "'a::len word \<Rightarrow> 'a word \<Rightarrow> bool" where
  "has w f \<equiv> w AND f \<noteq> 0"

section \<open>Metrics of the route\<close>

definition unlocked :: "rtax \<Rightarrow> (dst_entry \<Rightarrow> dst_entry) \<Rightarrow> dst_entry \<Rightarrow> dst_entry" where
  "unlocked x f d = (if dst_metric_locked d x then d else f d)"

definition save_rtt :: "senv \<Rightarrow> tcp_sock \<Rightarrow> dst_entry \<Rightarrow> dst_entry" where
  "save_rtt V s d =
     (let rtt = dst_metric_rtt V d RTAX_RTT;
          m = sint (ucast (rtt - ucast (srtt s)) :: u32);
          d1 = unlocked RTAX_RTT
                 (set_dst_metric_rtt V RTAX_RTT (if m \<le> 0 then ucast (srtt s) else rtt - word_of_int (drop_bit 3 m))) d
      in unlocked RTAX_RTTVAR (\<lambda>d.
           let m1 = drop_bit 1 \<bar>m\<bar>;
               m2 = word_of_int (if word_of_int m1 < mdev s then sint (mdev s) else m1);
               var = dst_metric_rtt V d RTAX_RTTVAR
           in set_dst_metric_rtt V RTAX_RTTVAR (if var \<le> m2 then m2 else var - drop_bit 2 (var - m2)) d) d1)"

definition save_cwnd :: "senv \<Rightarrow> tcp_sock \<Rightarrow> dst_entry \<Rightarrow> dst_entry" where
  "save_cwnd V s d =
     (if tcp_in_initial_slowstart V s then
        let half = drop_bit 1 (snd_cwnd s);
            d1 = (if dst_metric d RTAX_SSTHRESH \<noteq> 0 \<and> \<not> dst_metric_locked d RTAX_SSTHRESH \<and> dst_metric d RTAX_SSTHRESH < half
                  then dst_metric_set V RTAX_SSTHRESH half d else d)
        in if \<not> dst_metric_locked d1 RTAX_CWND \<and> dst_metric d1 RTAX_CWND < snd_cwnd s
           then dst_metric_set V RTAX_CWND (snd_cwnd s) d1 else d1
      else if snd_ssthresh s < snd_cwnd s \<and> icsk_ca_state s = TCP_CA_Open then
        unlocked RTAX_CWND (\<lambda>d. dst_metric_set V RTAX_CWND (drop_bit 1 (dst_metric d RTAX_CWND + snd_cwnd s)) d)
          (unlocked RTAX_SSTHRESH (dst_metric_set V RTAX_SSTHRESH (max (drop_bit 1 (snd_cwnd s)) (snd_ssthresh s))) d)
      else
        let d1 = unlocked RTAX_CWND (\<lambda>d. dst_metric_set V RTAX_CWND (drop_bit 1 (dst_metric d RTAX_CWND + snd_ssthresh s)) d) d
        in if dst_metric d1 RTAX_SSTHRESH \<noteq> 0 \<and> \<not> dst_metric_locked d1 RTAX_SSTHRESH \<and> dst_metric d1 RTAX_SSTHRESH < snd_ssthresh s
           then dst_metric_set V RTAX_SSTHRESH (snd_ssthresh s) d1 else d1)"

definition save_reordering :: "senv \<Rightarrow> tcp_sock \<Rightarrow> dst_entry \<Rightarrow> dst_entry" where
  "save_reordering V s =
     unlocked RTAX_REORDERING (\<lambda>d.
       if dst_metric d RTAX_REORDERING < ucast (reordering s) \<and> ucast (reordering s) \<noteq> sysctl_tcp_reordering V
       then dst_metric_set V RTAX_REORDERING (ucast (reordering s)) d else d)"

definition tcp_update_metrics :: "senv \<Rightarrow> tcp_sock \<Rightarrow> tcp_sock" where
  "tcp_update_metrics V s =
     (case sk_dst s of
        Some d \<Rightarrow>
          if sysctl_tcp_nometrics_save V \<or> \<not> dst_host d then s
          else if icsk_backoff s \<noteq> 0 \<or> srtt s = 0
          then s\<lparr>sk_dst := Some (unlocked RTAX_RTT (dst_metric_set V RTAX_RTT 0) d)\<rparr>
          else s\<lparr>sk_dst := Some (save_reordering V s (save_cwnd V s (save_rtt V s d)))\<rparr>
      | None \<Rightarrow> s)"

definition tcp_init_cwnd :: "senv \<Rightarrow> tcp_sock \<Rightarrow> u32" where
  "tcp_init_cwnd V s =
     (let cwnd = (case sk_dst s of Some d \<Rightarrow> dst_metric d RTAX_INITCWND | None \<Rightarrow> 0)
      in min (if cwnd = 0 then TCP_INIT_CWND (mv (inp V)) else cwnd) (snd_cwnd_clamp s))"

definition tcp_enter_cwr :: "senv \<Rightarrow> bool \<Rightarrow> tcp_sock \<Rightarrow> tcp_sock" where
  "tcp_enter_cwr V set_ssthresh s =
     (let s1 = s\<lparr>prior_ssthresh := 0, bytes_acked := 0\<rparr>
      in if icsk_ca_state s1 < TCP_CA_CWR then
           let s2 = s1\<lparr>undo_marker := 0\<rparr>;
               s3 = (if set_ssthresh then s2\<lparr>snd_ssthresh := ca_ssthresh V s2\<rparr> else s2);
               s4 = s3\<lparr>snd_cwnd := min (snd_cwnd s3) (tcp_packets_in_flight V s3 + 1), snd_cwnd_cnt := 0,
                       high_seq := snd_nxt s3, snd_cwnd_stamp := now V\<rparr>
           in tcp_set_ca_state V TCP_CA_CWR (TCP_ECN_queue_cwr (inp V) s4)
         else s1)"

definition tcp_disable_fack :: "senv \<Rightarrow> tcp_sock \<Rightarrow> tcp_sock" where
  "tcp_disable_fack V s =
     (let s1 = (if is_fack V s then s\<lparr>lost_skb_hint := None\<rparr> else s)
      in s1\<lparr>rx_opt := (rx_opt s1)\<lparr>sack_ok := sack_ok (rx_opt s1) AND NOT 2\<rparr>\<rparr>)"

definition tcp_dsack_seen :: "tcp_sock \<Rightarrow> tcp_sock" where
  "tcp_dsack_seen s = s\<lparr>rx_opt := (rx_opt s)\<lparr>sack_ok := sack_ok (rx_opt s) OR 4\<rparr>\<rparr>"

text \<open>The part of \<^verbatim>\<open>tcp_init_metrics\<close> before the label \<^verbatim>\<open>reset\<close>, for a socket with a route.\<close>

definition route_metrics :: "senv \<Rightarrow> dst_entry \<Rightarrow> tcp_sock \<Rightarrow> tcp_sock" where
  "route_metrics V d s =
     (let s1 = (if dst_metric_locked d RTAX_CWND then s\<lparr>snd_cwnd_clamp := dst_metric d RTAX_CWND\<rparr> else s);
          s2 = s1\<lparr>snd_ssthresh := (if dst_metric d RTAX_SSTHRESH \<noteq> 0 then min (dst_metric d RTAX_SSTHRESH) (snd_cwnd_clamp s1)
                                   else TCP_INFINITE_SSTHRESH (mv (inp V)))\<rparr>;
          s3 = (if dst_metric d RTAX_REORDERING \<noteq> 0 \<and> ucast (reordering s2) \<noteq> dst_metric d RTAX_REORDERING
                then (tcp_disable_fack V s2)\<lparr>reordering := ucast (dst_metric d RTAX_REORDERING)\<rparr> else s2)
      in if dst_metric d RTAX_RTT = 0 \<or> srtt s3 = 0 then s3
         else let s4 = (if ucast (srtt s3) < dst_metric_rtt V d RTAX_RTT
                        then s3\<lparr>srtt := ucast (dst_metric_rtt V d RTAX_RTT), rtt_seq := snd_nxt s3\<rparr> else s3);
                  s5 = (if ucast (mdev s4) < dst_metric_rtt V d RTAX_RTTVAR
                        then let v = ucast (dst_metric_rtt V d RTAX_RTTVAR); w = max v (tcp_rto_min (inp V))
                             in s4\<lparr>mdev := v, rttvar := w, mdev_max := w\<rparr>
                        else s4)
              in tcp_set_rto (inp V) s5)"

definition tcp_init_metrics :: "senv \<Rightarrow> tcp_sock \<Rightarrow> tcp_sock" where
  "tcp_init_metrics V s =
     (let s1 = (case sk_dst s of Some d \<Rightarrow> route_metrics V d s | None \<Rightarrow> s);
          s2 = (if srtt s1 = 0
                then s1\<lparr>mdev := TCP_TIMEOUT_FALLBACK V, mdev_max := TCP_TIMEOUT_FALLBACK V,
                        rttvar := TCP_TIMEOUT_FALLBACK V, icsk_rto := TCP_TIMEOUT_FALLBACK V\<rparr>
                else s1)
      in s2\<lparr>snd_cwnd := (if 1 < total_retrans s2 then 1 else tcp_init_cwnd V s2), snd_cwnd_stamp := now V\<rparr>)"

definition tcp_update_reordering :: "senv \<Rightarrow> int \<Rightarrow> tcp_sock \<Rightarrow> tcp_sock" where
  "tcp_update_reordering V metric s =
     (if uint (reordering s) < metric
      then tcp_disable_fack V (s\<lparr>reordering := word_of_int (min (TCP_MAX_REORDERING V) metric)\<rparr>) else s)"

section \<open>The retransmission queue\<close>

text \<open>
  \<open>wput\<close> writes a segment of the queue, \<open>wget\<close> reads one by its address. \<open>wq_end\<close> is the address of the head of the list itself,
  which a walk that ran to the end leaves behind. A walk ends at the first segment not sent yet;
  \<open>wq_from\<close> are the segments it visits from a given one on.
\<close>

definition wq_end :: ptr where "wq_end = 0"

definition wput :: "wskb \<Rightarrow> tcp_sock \<Rightarrow> tcp_sock" where
  "wput b s =
     s\<lparr>sk_write_queue := map (\<lambda>c. if w_addr c = w_addr b then b else c) (sk_write_queue s),
       sk_send_queue := map (\<lambda>c. if w_addr c = w_addr b then b else c) (sk_send_queue s)\<rparr>"

definition wget :: "ptr \<Rightarrow> tcp_sock \<Rightarrow> wskb option" where
  "wget p s = find (\<lambda>b. w_addr b = p) (sk_write_queue s @ sk_send_queue s)"

definition write_head :: "tcp_sock \<Rightarrow> wskb option" where
  "write_head s = (case sk_write_queue s @ sk_send_queue s of [] \<Rightarrow> None | b # _ \<Rightarrow> Some b)"

definition walk_end :: "tcp_sock \<Rightarrow> ptr" where
  "walk_end s = (case sk_send_queue s of [] \<Rightarrow> wq_end | b # _ \<Rightarrow> w_addr b)"

definition wq_from :: "ptr \<Rightarrow> tcp_sock \<Rightarrow> wskb list option" where
  "wq_from p s =
     (if p = walk_end s \<or> p = wq_end then Some []
      else if p \<in> w_addr ` set (sk_write_queue s) then Some (dropWhile (\<lambda>b. w_addr b \<noteq> p) (sk_write_queue s))
      else if p \<in> w_addr ` set (sk_send_queue s) then Some (dropWhile (\<lambda>b. w_addr b \<noteq> p) (sk_send_queue s))
      else None)"

definition sk_wmem_free_skb :: "wskb \<Rightarrow> tcp_sock \<Rightarrow> tcp_sock" where
  "sk_wmem_free_skb b s =
     sk_mem_uncharge (uint (w_truesize b)) (s\<lparr>sk_queue_shrunk := True, sk_wmem_queued := sk_wmem_queued s - uint (w_truesize b)\<rparr>)"

definition tcp_verify_retransmit_hint :: "senv \<Rightarrow> wskb \<Rightarrow> tcp_sock \<Rightarrow> tcp_sock option" where
  "tcp_verify_retransmit_hint V b s = do {
     first \<leftarrow> (case retransmit_skb_hint s of
                None \<Rightarrow> Some True
              | Some p \<Rightarrow> map_option (\<lambda>h. bef V (w_seq b) (w_seq h)) (wget p s));
     let s1 = (if first then s\<lparr>retransmit_skb_hint := Some (w_addr b)\<rparr> else s);
     Some (if lost_out s1 = 0 \<or> aft V (w_end_seq b) (retransmit_high s1) then s1\<lparr>retransmit_high := w_end_seq b\<rparr> else s1) }"

definition add_lost :: "senv \<Rightarrow> wskb \<Rightarrow> tcp_sock \<Rightarrow> tcp_sock" where
  "add_lost V b s =
     wput (b\<lparr>w_sacked := w_sacked b OR TCPCB_LOST V\<rparr>) (s\<lparr>lost_out := lost_out s + tcp_skb_pcount V b\<rparr>)"

definition tcp_skb_mark_lost :: "senv \<Rightarrow> wskb \<Rightarrow> tcp_sock \<Rightarrow> tcp_sock option" where
  "tcp_skb_mark_lost V b s =
     (if \<not> has (w_sacked b) (TCPCB_LOST V OR TCPCB_SACKED_ACKED V)
      then map_option (add_lost V b) (tcp_verify_retransmit_hint V b s) else Some s)"

definition tcp_skb_mark_lost_uncond_verify :: "senv \<Rightarrow> wskb \<Rightarrow> tcp_sock \<Rightarrow> tcp_sock option" where
  "tcp_skb_mark_lost_uncond_verify V b s = do {
     s1 \<leftarrow> tcp_verify_retransmit_hint V b s;
     Some (if \<not> has (w_sacked b) (TCPCB_LOST V OR TCPCB_SACKED_ACKED V) then add_lost V b s1 else s1) }"

section \<open>Connections without SACK: duplicate acknowledgements are counted\<close>

definition tcp_limit_reno_sacked :: "tcp_sock \<Rightarrow> bool \<times> tcp_sock" where
  "tcp_limit_reno_sacked s =
     (let holes = min (max (lost_out s) 1) (packets_out s)
      in if packets_out s < sacked_out s + holes then (True, s\<lparr>sacked_out := packets_out s - holes\<rparr>) else (False, s))"

definition tcp_check_reno_reordering :: "senv \<Rightarrow> int \<Rightarrow> tcp_sock \<Rightarrow> tcp_sock" where
  "tcp_check_reno_reordering V addend s =
     (case tcp_limit_reno_sacked s of (limited, s1) \<Rightarrow>
        if limited then tcp_update_reordering V (sint (packets_out s1 + word_of_int addend)) s1 else s1)"

definition tcp_add_reno_sack :: "senv \<Rightarrow> tcp_sock \<Rightarrow> tcp_sock" where
  "tcp_add_reno_sack V s = tcp_check_reno_reordering V 0 (s\<lparr>sacked_out := sacked_out s + 1\<rparr>)"

definition tcp_remove_reno_sacks :: "senv \<Rightarrow> int \<Rightarrow> tcp_sock \<Rightarrow> tcp_sock" where
  "tcp_remove_reno_sacks V pkts s =
     tcp_check_reno_reordering V pkts
       (if 0 < pkts then
          if sacked_out s \<le> word_of_int (pkts - 1) then s\<lparr>sacked_out := 0\<rparr>
          else s\<lparr>sacked_out := sacked_out s - word_of_int (pkts - 1)\<rparr>
        else s)"

definition tcp_reset_reno_sack :: "tcp_sock \<Rightarrow> tcp_sock" where
  "tcp_reset_reno_sack s = s\<lparr>sacked_out := 0\<rparr>"

section \<open>F-RTO and the loss state\<close>

definition tcp_is_sackfrto :: "senv \<Rightarrow> tcp_sock \<Rightarrow> bool" where
  "tcp_is_sackfrto V s \<longleftrightarrow> sysctl_tcp_frto V = 2 \<and> \<not> is_reno V s"

fun frto_scan :: "senv \<Rightarrow> wskb list \<Rightarrow> bool" where
  "frto_scan V [] = True"
| "frto_scan V (b # q) =
     (if has (w_sacked b) (TCPCB_RETRANS V) then False
      else if \<not> has (w_sacked b) (TCPCB_SACKED_ACKED V) then True
      else frto_scan V q)"

definition tcp_use_frto :: "senv \<Rightarrow> tcp_sock \<Rightarrow> bool option" where
  "tcp_use_frto V s =
     (if sysctl_tcp_frto V = 0 \<or> mtup_probe_size s \<noteq> 0 then Some False
      else if tcp_is_sackfrto V s then Some True
      else if 1 < retrans_out s then Some False
      else case sk_write_queue s @ sk_send_queue s of
             [] \<Rightarrow> None
           | [b] \<Rightarrow> Some True
           | _ \<Rightarrow> Some (frto_scan V (if sk_write_queue s = [] then tl (sk_send_queue s) else tl (sk_write_queue s))))"

definition frto_ssthresh :: "senv \<Rightarrow> tcp_sock \<Rightarrow> tcp_sock" where
  "frto_ssthresh V s =
     (if (frto_counter s = 0 \<and> icsk_ca_state s \<le> TCP_CA_Disorder) \<or> snd_una s = high_seq s \<or>
         ((icsk_ca_state s = TCP_CA_Loss \<or> frto_counter s \<noteq> 0) \<and> icsk_retransmits s = 0)
      then let s1 = s\<lparr>prior_ssthresh := tcp_current_ssthresh V s\<rparr>
           in tcp_ca_event V CA_EVENT_FRTO
                (s1\<lparr>snd_ssthresh := ca_ssthresh V (if frto_counter s1 \<noteq> 0 then s1\<lparr>snd_cwnd := 2\<rparr> else s1)\<rparr>)
      else s)"

definition tcp_enter_frto :: "senv \<Rightarrow> tcp_sock \<Rightarrow> tcp_sock option" where
  "tcp_enter_frto V s = do {
     let s1 = frto_ssthresh V s;
     let s2 = s1\<lparr>undo_marker := snd_una s1, undo_retrans := 0\<rparr>;
     b \<leftarrow> write_head s2;
     let s3 = (if has (w_sacked b) (TCPCB_RETRANS V) then s2\<lparr>undo_marker := 0\<rparr> else s2);
     let s4 = (if has (w_sacked b) (TCPCB_SACKED_RETRANS V)
               then wput (b\<lparr>w_sacked := w_sacked b AND NOT (TCPCB_SACKED_RETRANS V)\<rparr>)
                      (s3\<lparr>retrans_out := retrans_out s3 - tcp_skb_pcount V b\<rparr>)
               else s3);
     let s5 = s4\<lparr>snd_cwnd := min (snd_cwnd s4) (tcp_packets_in_flight V s4 + 1)\<rparr>;
     let s6 = s5\<lparr>frto_highmark :=
                   (if tcp_is_sackfrto V s5 \<and> (frto_counter s5 \<noteq> 0 \<or> icsk_ca_state s5 \<in> {TCP_CA_Recovery, TCP_CA_Loss}) \<and>
                       aft V (high_seq s5) (snd_una s5)
                    then high_seq s5 else snd_nxt s5)\<rparr>;
     let s7 = tcp_set_ca_state V TCP_CA_Disorder s6;
     Some (s7\<lparr>high_seq := snd_nxt s7, frto_counter := 1\<rparr>) }"

text \<open>The loop of \<^verbatim>\<open>tcp_enter_frto_loss\<close> over the segments sent; \<open>flag\<close> is changed by the first one.\<close>

fun frto_loss_loop :: "senv \<Rightarrow> u32 \<Rightarrow> wskb list \<Rightarrow> tcp_sock \<Rightarrow> tcp_sock" where
  "frto_loss_loop V flag [] s = s"
| "frto_loss_loop V flag (b # q) s =
     (let b1 = b\<lparr>w_sacked := w_sacked b AND NOT (TCPCB_LOST V)\<rparr>;
          rto_only = (frto_counter s = 1 \<and> \<not> has flag FLAG_DATA_ACKED);
          s1 = (if rto_only
                then if has (w_sacked b1) (TCPCB_SACKED_RETRANS V)
                     then s\<lparr>retrans_out := retrans_out s + tcp_skb_pcount V b1\<rparr> else s
                else if has (w_sacked b1) (TCPCB_RETRANS V) then s\<lparr>undo_marker := 0\<rparr> else s);
          b2 = (if rto_only then b1 else b1\<lparr>w_sacked := w_sacked b1 AND NOT (TCPCB_SACKED_RETRANS V)\<rparr>);
          s2 = (if \<not> has (w_sacked b2) (TCPCB_SACKED_ACKED V)
                then wput (b2\<lparr>w_sacked := w_sacked b2 OR TCPCB_LOST V\<rparr>)
                       (s1\<lparr>lost_out := lost_out s1 + tcp_skb_pcount V b2, retransmit_high := w_end_seq b2\<rparr>)
                else wput b2 s1)
      in frto_loss_loop V (if rto_only then flag OR FLAG_DATA_ACKED else flag) q s2)"

definition tcp_enter_frto_loss :: "senv \<Rightarrow> u32 \<Rightarrow> u32 \<Rightarrow> tcp_sock \<Rightarrow> tcp_sock" where
  "tcp_enter_frto_loss V allowed_segments flag s =
     (let s1 = s\<lparr>lost_out := 0, retrans_out := 0\<rparr>;
          s2 = (if is_reno V s1 then tcp_reset_reno_sack s1 else s1);
          s3 = frto_loss_loop V flag (sk_write_queue s2) s2;
          s4 = s3\<lparr>snd_cwnd := tcp_packets_in_flight V s3 + allowed_segments, snd_cwnd_cnt := 0, snd_cwnd_stamp := now V,
                  frto_counter := 0, bytes_acked := 0,
                  reordering := ucast (min (ucast (reordering s3)) (sysctl_tcp_reordering V))\<rparr>;
          s5 = tcp_set_ca_state V TCP_CA_Loss s4
      in tcp_clear_all_retrans_hints V (TCP_ECN_queue_cwr (inp V) (s5\<lparr>high_seq := snd_nxt s5\<rparr>)))"

definition tcp_clear_retrans_partial :: "tcp_sock \<Rightarrow> tcp_sock" where
  "tcp_clear_retrans_partial s = s\<lparr>retrans_out := 0, lost_out := 0, undo_marker := 0, undo_retrans := 0\<rparr>"

definition tcp_clear_retrans :: "tcp_sock \<Rightarrow> tcp_sock" where
  "tcp_clear_retrans s = (tcp_clear_retrans_partial s)\<lparr>fackets_out := 0, sacked_out := 0\<rparr>"

fun loss_loop :: "senv \<Rightarrow> bool \<Rightarrow> wskb list \<Rightarrow> tcp_sock \<Rightarrow> tcp_sock" where
  "loss_loop V how [] s = s"
| "loss_loop V how (b # q) s =
     (let s1 = (if has (w_sacked b) (TCPCB_RETRANS V) then s\<lparr>undo_marker := 0\<rparr> else s);
          b1 = b\<lparr>w_sacked := w_sacked b AND (NOT (TCPCB_TAGBITS V) OR TCPCB_SACKED_ACKED V)\<rparr>
      in loss_loop V how q
           (if \<not> has (w_sacked b1) (TCPCB_SACKED_ACKED V) \<or> how
            then wput (b1\<lparr>w_sacked := (w_sacked b1 AND NOT (TCPCB_SACKED_ACKED V)) OR TCPCB_LOST V\<rparr>)
                   (s1\<lparr>lost_out := lost_out s1 + tcp_skb_pcount V b1, retransmit_high := w_end_seq b1\<rparr>)
            else wput b1 s1))"

definition loss_ssthresh :: "senv \<Rightarrow> tcp_sock \<Rightarrow> tcp_sock" where
  "loss_ssthresh V s =
     (if icsk_ca_state s \<le> TCP_CA_Disorder \<or> snd_una s = high_seq s \<or> (icsk_ca_state s = TCP_CA_Loss \<and> icsk_retransmits s = 0)
      then let s1 = s\<lparr>prior_ssthresh := tcp_current_ssthresh V s\<rparr>
           in tcp_ca_event V CA_EVENT_LOSS (s1\<lparr>snd_ssthresh := ca_ssthresh V s1\<rparr>)
      else s)"

definition loss_reset :: "senv \<Rightarrow> bool \<Rightarrow> tcp_sock \<Rightarrow> tcp_sock" where
  "loss_reset V how s =
     (let s1 = tcp_clear_retrans_partial
                 ((loss_ssthresh V s)\<lparr>snd_cwnd := 1, snd_cwnd_cnt := 0, snd_cwnd_stamp := now V, bytes_acked := 0\<rparr>);
          s2 = (if is_reno V s1 then tcp_reset_reno_sack s1 else s1)
      in tcp_clear_all_retrans_hints V
           (if \<not> how then s2\<lparr>undo_marker := snd_una s2\<rparr> else s2\<lparr>sacked_out := 0, fackets_out := 0\<rparr>))"

definition tcp_enter_loss :: "senv \<Rightarrow> bool \<Rightarrow> tcp_sock \<Rightarrow> tcp_sock" where
  "tcp_enter_loss V how s =
     (let s1 = loss_reset V how s;
          s2 = loss_loop V how (sk_write_queue s1) s1;
          s3 = tcp_set_ca_state V TCP_CA_Loss
                 (s2\<lparr>reordering := ucast (min (ucast (reordering s2)) (sysctl_tcp_reordering V))\<rparr>)
      in (TCP_ECN_queue_cwr (inp V) (s3\<lparr>high_seq := snd_nxt s3\<rparr>))\<lparr>frto_counter := 0\<rparr>)"

text \<open>The remembered SACKs do not reflect the state of the receiver.\<close>

definition tcp_check_sack_reneging :: "senv \<Rightarrow> u32 \<Rightarrow> tcp_sock \<Rightarrow> (bool \<times> tcp_sock) option" where
  "tcp_check_sack_reneging V flag s =
     (if has flag FLAG_SACK_RENEGING then do {
        let s1 = tcp_enter_loss V True s;
        let s2 = s1\<lparr>icsk_retransmits := icsk_retransmits s1 + 1\<rparr>;
        b \<leftarrow> write_head s2;
        let s3 = tcp_retransmit_skb V b s2;
        Some (True, inet_csk_reset_xmit_timer (inp V) ICSK_TIME_RETRANS (ucast (icsk_rto s3)) (ucast (TCP_RTO_MAX (inp V))) s3) }
      else Some (False, s))"

section \<open>When to recover, and what is lost\<close>

definition tcp_fackets_out :: "senv \<Rightarrow> tcp_sock \<Rightarrow> int" where
  "tcp_fackets_out V s = sint (if is_reno V s then sacked_out s + 1 else fackets_out s)"

definition tcp_dupack_heuristics :: "senv \<Rightarrow> tcp_sock \<Rightarrow> int" where
  "tcp_dupack_heuristics V s = sint (if is_fack V s then fackets_out s else sacked_out s + 1)"

definition tcp_skb_timedout :: "senv \<Rightarrow> wskb \<Rightarrow> tcp_sock \<Rightarrow> bool" where
  "tcp_skb_timedout V b s \<longleftrightarrow> icsk_rto s < now V - w_when b"

definition tcp_head_timedout :: "senv \<Rightarrow> tcp_sock \<Rightarrow> bool option" where
  "tcp_head_timedout V s =
     (if packets_out s = 0 then Some False else map_option (\<lambda>b. tcp_skb_timedout V b s) (write_head s))"

definition tcp_time_to_recover :: "senv \<Rightarrow> tcp_sock \<Rightarrow> bool option" where
  "tcp_time_to_recover V s =
     (if frto_counter s \<noteq> 0 then Some False
      else if lost_out s \<noteq> 0 then Some True
      else if uint (reordering s) < tcp_dupack_heuristics V s then Some True
      else do {
        timedout \<leftarrow> (if is_fack V s then tcp_head_timedout V s else Some False);
        Some (timedout \<or>
          (packets_out s \<le> ucast (reordering s) \<and> max (packets_out s div 2) (sysctl_tcp_reordering V) \<le> sacked_out s \<and>
             \<not> tcp_may_send_now V s) \<or>
          ((thin_dupack s \<or> sysctl_tcp_thin_dupack V) \<and> tcp_stream_is_thin V s \<and> 1 < tcp_dupack_heuristics V s \<and>
             is_sack V s \<and> sk_send_queue s = [])) })"

text \<open>The segments marked by the walk of \<^verbatim>\<open>tcp_timeout_skbs\<close>, and where it stops.\<close>

fun timeout_loop :: "senv \<Rightarrow> wskb list \<Rightarrow> tcp_sock \<Rightarrow> tcp_sock option" where
  "timeout_loop V [] s = Some (s\<lparr>scoreboard_skb_hint := Some (walk_end s)\<rparr>)"
| "timeout_loop V (b # q) s =
     (if \<not> tcp_skb_timedout V b s then Some (s\<lparr>scoreboard_skb_hint := Some (w_addr b)\<rparr>)
      else do { s1 \<leftarrow> tcp_skb_mark_lost V b s; timeout_loop V q s1 })"

definition tcp_timeout_skbs :: "senv \<Rightarrow> tcp_sock \<Rightarrow> tcp_sock option" where
  "tcp_timeout_skbs V s = do {
     timedout \<leftarrow> (if is_fack V s then tcp_head_timedout V s else Some False);
     if \<not> timedout then Some s
     else do {
       q \<leftarrow> (case scoreboard_skb_hint s of None \<Rightarrow> Some (sk_write_queue s) | Some p \<Rightarrow> wq_from p s);
       timeout_loop V q s } }"

text \<open>
  The walk of \<^verbatim>\<open>tcp_mark_head_lost\<close> over the segments \<open>q\<close>. A segment of which only a part is lost is split, which changes the queue.
\<close>

partial_function (option) mark_head_loop ::
    "senv \<Rightarrow> int \<Rightarrow> bool \<Rightarrow> int \<Rightarrow> wskb list \<Rightarrow> tcp_sock \<Rightarrow> tcp_sock option" where
  "mark_head_loop V packets mark_head cnt q s =
     (case q of
        [] \<Rightarrow> Some s
      | b # q1 \<Rightarrow>
          let s1 = s\<lparr>lost_skb_hint := Some (w_addr b), lost_cnt_hint := cnt\<rparr>;
              cnt1 = (if is_fack V s1 \<or> is_reno V s1 \<or> has (w_sacked b) (TCPCB_SACKED_ACKED V)
                      then cnt + uint (tcp_skb_pcount V b) else cnt)
          in if aft V (w_end_seq b) (high_seq s1) then Some s1
             else if packets < cnt1 then
               if (is_sack V s1 \<and> \<not> is_fack V s1) \<or> packets \<le> cnt then Some s1
               else case tcp_fragment V b (word_of_int ((packets - cnt) * uint (w_gso_size b))) (ucast (w_gso_size b)) s1 of
                      (err, s2) \<Rightarrow>
                        if err < 0 then Some s2
                        else do {
                          b2 \<leftarrow> wget (w_addr b) s2;
                          q2 \<leftarrow> wq_from (w_addr b) s2;
                          s3 \<leftarrow> tcp_skb_mark_lost V b2 s2;
                          if mark_head then Some s3 else mark_head_loop V packets mark_head packets (tl q2) s3 }
             else do {
               s2 \<leftarrow> tcp_skb_mark_lost V b s1;
               if mark_head then Some s2 else mark_head_loop V packets mark_head cnt1 q1 s2 })"

definition tcp_mark_head_lost :: "senv \<Rightarrow> int \<Rightarrow> bool \<Rightarrow> tcp_sock \<Rightarrow> tcp_sock option" where
  "tcp_mark_head_lost V packets mark_head s =
     (case lost_skb_hint s of
        None \<Rightarrow> mark_head_loop V packets mark_head 0 (sk_write_queue s) s
      | Some p \<Rightarrow>
          if mark_head \<and> map_option w_addr (write_head s) \<noteq> Some p then Some s
          else do { q \<leftarrow> wq_from p s; mark_head_loop V packets mark_head (lost_cnt_hint s) q s })"

definition tcp_update_scoreboard :: "senv \<Rightarrow> bool \<Rightarrow> tcp_sock \<Rightarrow> tcp_sock option" where
  "tcp_update_scoreboard V fast_rexmit s = do {
     s1 \<leftarrow> (if is_reno V s then tcp_mark_head_lost V 1 True s
            else if is_fack V s then
              let lost = sint (fackets_out s - ucast (reordering s))
              in tcp_mark_head_lost V (if lost \<le> 0 then 1 else lost) False s
            else let sacked_upto = sint (sacked_out s - ucast (reordering s))
                 in if 0 \<le> sacked_upto then tcp_mark_head_lost V sacked_upto False s
                    else if fast_rexmit then tcp_mark_head_lost V 1 True s
                    else Some s);
     tcp_timeout_skbs V s1 }"

end
