(* ===== verification/Tcp_Recover.thy ===== *)
theory Tcp_Recover
  imports Tcp_Sender
begin

text \<open>
  The sending side of \<^verbatim>\<open>net/ipv4/tcp_input.c\<close>, second part: moderation and undoing of a reduced congestion window, the state
  machine of recovery (\<^verbatim>\<open>tcp_fastretrans_alert\<close>), round trip time samples, the removal of acknowledged segments
  from the retransmission queue, and the F-RTO algorithm.
\<close>

section \<open>The congestion window\<close>

definition tcp_moderate_cwnd :: "senv \<Rightarrow> tcp_sock \<Rightarrow> tcp_sock" where
  "tcp_moderate_cwnd V s =
     s\<lparr>snd_cwnd := min (snd_cwnd s) (tcp_packets_in_flight V s + tcp_max_burst V s), snd_cwnd_stamp := now V\<rparr>"

definition tcp_cwnd_min :: "senv \<Rightarrow> tcp_sock \<Rightarrow> u32" where
  "tcp_cwnd_min V s = (case ca_min_cwnd V of Some f \<Rightarrow> f s | None \<Rightarrow> snd_ssthresh s)"

definition tcp_cwnd_down :: "senv \<Rightarrow> u32 \<Rightarrow> tcp_sock \<Rightarrow> tcp_sock" where
  "tcp_cwnd_down V flag s =
     (if has flag (FLAG_ANY_PROGRESS OR FLAG_DSACKING_ACK) \<or> (is_reno V s \<and> \<not> has flag FLAG_NOT_DUP) then
        let decr = snd_cwnd_cnt s + 1;
            s1 = s\<lparr>snd_cwnd_cnt := decr AND 1\<rparr>;
            half = word_of_int (drop_bit 1 (sint decr));
            s2 = (if half \<noteq> 0 \<and> tcp_cwnd_min V s1 < snd_cwnd s1 then s1\<lparr>snd_cwnd := snd_cwnd s1 - half\<rparr> else s1)
        in s2\<lparr>snd_cwnd := min (snd_cwnd s2) (tcp_packets_in_flight V s2 + 1), snd_cwnd_stamp := now V\<rparr>
      else s)"

section \<open>Undoing\<close>

definition tcp_packet_delayed :: "senv \<Rightarrow> tcp_sock \<Rightarrow> bool" where
  "tcp_packet_delayed V s \<longleftrightarrow>
     retrans_stamp s = 0 \<or>
     (saw_tstamp (rx_opt s) \<and> rcv_tsecr (rx_opt s) \<noteq> 0 \<and> bef V (rcv_tsecr (rx_opt s)) (retrans_stamp s))"

definition tcp_undo_cwr :: "senv \<Rightarrow> bool \<Rightarrow> tcp_sock \<Rightarrow> tcp_sock" where
  "tcp_undo_cwr V undo_ssthresh s =
     (let s1 = (if prior_ssthresh s \<noteq> 0 then
                  let s1 = s\<lparr>snd_cwnd := (case ca_undo_cwnd V of Some f \<Rightarrow> f s
                                         | None \<Rightarrow> max (snd_cwnd s) (push_bit 1 (snd_ssthresh s)))\<rparr>
                  in if undo_ssthresh \<and> snd_ssthresh s1 < prior_ssthresh s1
                     then TCP_ECN_withdraw_cwr (inp V) (s1\<lparr>snd_ssthresh := prior_ssthresh s1\<rparr>) else s1
                else s\<lparr>snd_cwnd := max (snd_cwnd s) (snd_ssthresh s)\<rparr>)
      in s1\<lparr>snd_cwnd_stamp := now V\<rparr>)"

definition tcp_may_undo :: "senv \<Rightarrow> tcp_sock \<Rightarrow> bool" where
  "tcp_may_undo V s \<longleftrightarrow> undo_marker s \<noteq> 0 \<and> (undo_retrans s = 0 \<or> tcp_packet_delayed V s)"

definition tcp_try_undo_recovery :: "senv \<Rightarrow> tcp_sock \<Rightarrow> bool \<times> tcp_sock" where
  "tcp_try_undo_recovery V s =
     (let s1 = (if tcp_may_undo V s then (tcp_undo_cwr V True s)\<lparr>undo_marker := 0\<rparr> else s)
      in if snd_una s1 = high_seq s1 \<and> is_reno V s1 then (True, tcp_moderate_cwnd V s1)
         else (False, tcp_set_ca_state V TCP_CA_Open s1))"

definition tcp_try_undo_dsack :: "senv \<Rightarrow> tcp_sock \<Rightarrow> tcp_sock" where
  "tcp_try_undo_dsack V s =
     (if undo_marker s \<noteq> 0 \<and> undo_retrans s = 0 then (tcp_undo_cwr V True s)\<lparr>undo_marker := 0\<rparr> else s)"

definition tcp_any_retrans_done :: "senv \<Rightarrow> tcp_sock \<Rightarrow> bool" where
  "tcp_any_retrans_done V s \<longleftrightarrow>
     retrans_out s \<noteq> 0 \<or> (case write_head s of Some b \<Rightarrow> has (w_sacked b) (TCPCB_EVER_RETRANS V) | None \<Rightarrow> False)"

definition tcp_try_undo_partial :: "senv \<Rightarrow> int \<Rightarrow> tcp_sock \<Rightarrow> bool \<times> tcp_sock" where
  "tcp_try_undo_partial V pkts s =
     (if tcp_may_undo V s then
        let s1 = (if \<not> tcp_any_retrans_done V s then s\<lparr>retrans_stamp := 0\<rparr> else s)
        in (False, tcp_undo_cwr V False (tcp_update_reordering V (tcp_fackets_out V s1 + pkts) s1))
      else (is_reno V s \<or> uint (reordering s) < tcp_fackets_out V s, s))"

definition clear_lost :: "senv \<Rightarrow> tcp_sock \<Rightarrow> tcp_sock" where
  "clear_lost V s =
     s\<lparr>sk_write_queue := map (\<lambda>b. b\<lparr>w_sacked := w_sacked b AND NOT (TCPCB_LOST V)\<rparr>) (sk_write_queue s)\<rparr>"

definition tcp_try_undo_loss :: "senv \<Rightarrow> tcp_sock \<Rightarrow> bool \<times> tcp_sock" where
  "tcp_try_undo_loss V s =
     (if tcp_may_undo V s then
        let s1 = (tcp_clear_all_retrans_hints V (clear_lost V s))\<lparr>lost_out := 0\<rparr>;
            s2 = (tcp_undo_cwr V True s1)\<lparr>icsk_retransmits := 0, undo_marker := 0\<rparr>
        in (True, if is_sack V s2 then tcp_set_ca_state V TCP_CA_Open s2 else s2)
      else (False, s))"

definition tcp_complete_cwr :: "senv \<Rightarrow> tcp_sock \<Rightarrow> tcp_sock" where
  "tcp_complete_cwr V s =
     tcp_ca_event V CA_EVENT_COMPLETE_CWR
       (if undo_marker s \<noteq> 0
        then s\<lparr>snd_cwnd := (if icsk_ca_state s = TCP_CA_CWR then min (snd_cwnd s) (snd_ssthresh s) else snd_ssthresh s),
               snd_cwnd_stamp := now V\<rparr>
        else s)"

definition tcp_try_keep_open :: "senv \<Rightarrow> tcp_sock \<Rightarrow> tcp_sock" where
  "tcp_try_keep_open V s =
     (let state = (if tcp_left_out V s \<noteq> 0 \<or> tcp_any_retrans_done V s \<or> undo_marker s \<noteq> 0
                   then TCP_CA_Disorder else TCP_CA_Open)
      in if icsk_ca_state s \<noteq> state
         then let s1 = tcp_set_ca_state V state s in s1\<lparr>high_seq := snd_nxt s1\<rparr> else s)"

definition tcp_try_to_open :: "senv \<Rightarrow> u32 \<Rightarrow> tcp_sock \<Rightarrow> tcp_sock" where
  "tcp_try_to_open V flag s =
     (let s1 = (if frto_counter s = 0 \<and> \<not> tcp_any_retrans_done V s then s\<lparr>retrans_stamp := 0\<rparr> else s);
          s2 = (if has flag FLAG_ECE then tcp_enter_cwr V True s1 else s1)
      in if icsk_ca_state s2 \<noteq> TCP_CA_CWR then tcp_moderate_cwnd V (tcp_try_keep_open V s2)
         else tcp_cwnd_down V flag s2)"

section \<open>Probes of the path MTU\<close>

definition tcp_mtup_probe_failed :: "tcp_sock \<Rightarrow> tcp_sock" where
  "tcp_mtup_probe_failed s = s\<lparr>mtup_search_high := mtup_probe_size s - 1, mtup_probe_size := 0\<rparr>"

definition tcp_mtup_probe_success :: "senv \<Rightarrow> tcp_sock \<Rightarrow> tcp_sock option" where
  "tcp_mtup_probe_success V s =
     (let sz = word_of_int (mtup_probe_size s) :: u32
      in if sz = 0 then None
         else let s1 = s\<lparr>prior_ssthresh := tcp_current_ssthresh V s\<rparr>;
                  s2 = s1\<lparr>snd_cwnd := (snd_cwnd s1 * tcp_mss_to_mtu V (mss_cache s1)) div sz, snd_cwnd_cnt := 0,
                          snd_cwnd_stamp := now V\<rparr>;
                  s3 = s2\<lparr>snd_ssthresh := tcp_current_ssthresh V s2\<rparr>
              in Some (tcp_sync_mss V (s3\<lparr>mtup_search_low := mtup_probe_size s3, mtup_probe_size := 0\<rparr>)))"

definition tcp_skb_seglen :: "senv \<Rightarrow> wskb \<Rightarrow> u32" where
  "tcp_skb_seglen V b = (if tcp_skb_pcount V b = 1 then w_len b else tcp_skb_mss V b)"

fun simple_loop :: "senv \<Rightarrow> u32 \<Rightarrow> wskb list \<Rightarrow> tcp_sock \<Rightarrow> tcp_sock option" where
  "simple_loop V mss [] s = Some s"
| "simple_loop V mss (b # q) s = do {
     s1 \<leftarrow> (if mss < tcp_skb_seglen V b \<and> \<not> has (w_sacked b) (TCPCB_SACKED_ACKED V) then
              if has (w_sacked b) (TCPCB_SACKED_RETRANS V) then
                let b1 = b\<lparr>w_sacked := w_sacked b AND NOT (TCPCB_SACKED_RETRANS V)\<rparr>
                in tcp_skb_mark_lost_uncond_verify V b1 (wput b1 (s\<lparr>retrans_out := retrans_out s - tcp_skb_pcount V b\<rparr>))
              else tcp_skb_mark_lost_uncond_verify V b s
            else Some s);
     simple_loop V mss q s1 }"

definition tcp_simple_retransmit :: "senv \<Rightarrow> tcp_sock \<Rightarrow> tcp_sock option" where
  "tcp_simple_retransmit V s = (case tcp_current_mss V s of (mss, s0) \<Rightarrow> do {
     s1 \<leftarrow> simple_loop V mss (sk_write_queue s0) s0;
     let s2 = tcp_clear_retrans_hints_partial V s1;
     if lost_out s0 = lost_out s2 then Some s2
     else let s3 = (if is_reno V s2 then snd (tcp_limit_reno_sacked s2) else s2);
              s4 = (if icsk_ca_state s3 \<noteq> TCP_CA_Loss
                    then let t = s3\<lparr>high_seq := snd_nxt s3\<rparr>
                         in tcp_set_ca_state V TCP_CA_Loss
                              (t\<lparr>snd_ssthresh := tcp_current_ssthresh V t, prior_ssthresh := 0, undo_marker := 0\<rparr>)
                    else s3)
          in Some (tcp_xmit_retransmit_queue V s4) })"

section \<open>Recovery\<close>

text \<open>Proportional rate reduction.\<close>

definition tcp_update_cwnd_in_recovery :: "senv \<Rightarrow> int \<Rightarrow> bool \<Rightarrow> tcp_sock \<Rightarrow> tcp_sock option" where
  "tcp_update_cwnd_in_recovery V newly_acked_sacked fast_rexmit s =
     (let in_flight = tcp_packets_in_flight V s;
          delta = sint (snd_ssthresh s - in_flight)
      in do {
        sndcnt \<leftarrow>
          (if snd_ssthresh s < in_flight then
             if prior_cwnd s = 0 then None
             else let dividend = ucast (snd_ssthresh s) * ucast (prr_delivered s) + ucast (prior_cwnd s) - 1 :: u64
                  in Some (sint (ucast (dividend div ucast (prior_cwnd s) - ucast (prr_out s)) :: u32))
           else Some (min delta (max (sint (prr_delivered s - prr_out s)) newly_acked_sacked + 1)));
        Some (s\<lparr>snd_cwnd := in_flight + word_of_int (max sndcnt (if fast_rexmit then 1 else 0))\<rparr>) })"

text \<open>Step E of \<^verbatim>\<open>tcp_fastretrans_alert\<close>. The first result says that the function returns.\<close>

definition exit_state :: "senv \<Rightarrow> tcp_sock \<Rightarrow> bool \<times> tcp_sock" where
  "exit_state V s =
     (if icsk_ca_state s = TCP_CA_Open then (False, s\<lparr>retrans_stamp := 0\<rparr>)
      else if \<not> bef V (snd_una s) (high_seq s) then
        (case icsk_ca_state s of
           TCP_CA_Loss \<Rightarrow> tcp_try_undo_recovery V (s\<lparr>icsk_retransmits := 0\<rparr>)
         | TCP_CA_CWR \<Rightarrow>
             (False, if snd_una s \<noteq> high_seq s then tcp_set_ca_state V TCP_CA_Open (tcp_complete_cwr V s) else s)
         | TCP_CA_Disorder \<Rightarrow>
             (let s1 = tcp_try_undo_dsack V s
              in (False, if undo_marker s1 = 0 \<or> is_reno V s1 \<or> snd_una s1 \<noteq> high_seq s1
                         then tcp_set_ca_state V TCP_CA_Open (s1\<lparr>undo_marker := 0\<rparr>) else s1))
         | TCP_CA_Recovery \<Rightarrow>
             (case tcp_try_undo_recovery V (if is_reno V s then tcp_reset_reno_sack s else s) of (stop, s1) \<Rightarrow>
                if stop then (True, s1) else (False, tcp_complete_cwr V s1))
         | TCP_CA_Open \<Rightarrow> (False, s))
      else (False, s))"

definition enter_recovery :: "senv \<Rightarrow> u32 \<Rightarrow> tcp_sock \<Rightarrow> tcp_sock" where
  "enter_recovery V flag s =
     (let s1 = s\<lparr>high_seq := snd_nxt s, prior_ssthresh := 0, undo_marker := snd_una s, undo_retrans := sint (retrans_out s)\<rparr>;
          s2 = (if icsk_ca_state s1 < TCP_CA_CWR then
                  let t = (if \<not> has flag FLAG_ECE then s1\<lparr>prior_ssthresh := tcp_current_ssthresh V s1\<rparr> else s1)
                  in TCP_ECN_queue_cwr (inp V) (t\<lparr>snd_ssthresh := ca_ssthresh V t\<rparr>)
                else s1)
      in tcp_set_ca_state V TCP_CA_Recovery
           (s2\<lparr>bytes_acked := 0, snd_cwnd_cnt := 0, prior_cwnd := snd_cwnd s2, prr_delivered := 0, prr_out := 0\<rparr>))"

text \<open>
  Step F. The results: the function returns, segments are to be marked as lost, and recovery has just begun.
\<close>

definition default_state ::
    "senv \<Rightarrow> u32 \<Rightarrow> bool \<Rightarrow> bool \<Rightarrow> tcp_sock \<Rightarrow> (bool \<times> bool \<times> bool \<times> tcp_sock) option" where
  "default_state V flag is_dupack do_lost s = do {
     let s1 = (if is_reno V s \<and> has flag FLAG_SND_UNA_ADVANCED then tcp_reset_reno_sack s else s);
     let s2 = (if is_reno V s1 \<and> is_dupack then tcp_add_reno_sack V s1 else s1);
     let s3 = (if icsk_ca_state s2 = TCP_CA_Disorder then tcp_try_undo_dsack V s2 else s2);
     recover \<leftarrow> tcp_time_to_recover V s3;
     if \<not> recover then Some (True, do_lost, False, tcp_try_to_open V flag s3)
     else if icsk_ca_state s3 < TCP_CA_CWR \<and> mtup_probe_size s3 \<noteq> 0 \<and> snd_una s3 = probe_seq_start s3 then do {
       let s4 = tcp_mtup_probe_failed s3;
       s5 \<leftarrow> tcp_simple_retransmit V (s4\<lparr>snd_cwnd := snd_cwnd s4 + 1\<rparr>);
       Some (True, do_lost, False, s5) }
     else Some (False, do_lost, True, enter_recovery V flag s3) }"

definition process_state ::
    "senv \<Rightarrow> u32 \<Rightarrow> int \<Rightarrow> bool \<Rightarrow> bool \<Rightarrow> tcp_sock \<Rightarrow> (bool \<times> bool \<times> bool \<times> tcp_sock) option" where
  "process_state V flag pkts is_dupack do_lost s =
     (case icsk_ca_state s of
        TCP_CA_Recovery \<Rightarrow>
          if \<not> has flag FLAG_SND_UNA_ADVANCED
          then Some (False, do_lost, False, if is_reno V s \<and> is_dupack then tcp_add_reno_sack V s else s)
          else (case tcp_try_undo_partial V pkts s of (lost, s1) \<Rightarrow> Some (False, lost, False, s1))
      | TCP_CA_Loss \<Rightarrow>
          (let s1 = (if has flag FLAG_DATA_ACKED then s\<lparr>icsk_retransmits := 0\<rparr> else s);
               s2 = (if is_reno V s1 \<and> has flag FLAG_SND_UNA_ADVANCED then tcp_reset_reno_sack s1 else s1)
           in case tcp_try_undo_loss V s2 of (undone, s3) \<Rightarrow>
                if \<not> undone
                then Some (True, do_lost, False, tcp_xmit_retransmit_queue V (tcp_moderate_cwnd V s3))
                else if icsk_ca_state s3 \<noteq> TCP_CA_Open then Some (True, do_lost, False, s3)
                else default_state V flag is_dupack do_lost s3)
      | _ \<Rightarrow> default_state V flag is_dupack do_lost s)"

definition tcp_fastretrans_alert :: "senv \<Rightarrow> int \<Rightarrow> int \<Rightarrow> u32 \<Rightarrow> tcp_sock \<Rightarrow> tcp_sock option" where
  "tcp_fastretrans_alert V pkts newly_acked_sacked flag s = do {
     let is_dupack = (\<not> has flag (FLAG_SND_UNA_ADVANCED OR FLAG_NOT_DUP));
     let do_lost = (is_dupack \<or> (has flag FLAG_DATA_SACKED \<and> uint (reordering s) < tcp_fackets_out V s));
     let s1 = (if packets_out s = 0 \<and> sacked_out s \<noteq> 0 then s\<lparr>sacked_out := 0\<rparr> else s);
     let s2 = (if sacked_out s1 = 0 \<and> fackets_out s1 \<noteq> 0 then s1\<lparr>fackets_out := 0\<rparr> else s1);
     let s3 = (if has flag FLAG_ECE then s2\<lparr>prior_ssthresh := 0\<rparr> else s2);
     (reneged, s4) \<leftarrow> tcp_check_sack_reneging V flag s3;
     if reneged then Some s4
     else do {
       s5 \<leftarrow> (if is_fack V s4 \<and> has flag FLAG_DATA_LOST \<and> bef V (snd_una s4) (high_seq s4) \<and>
                 icsk_ca_state s4 \<noteq> TCP_CA_Open \<and> ucast (reordering s4) < fackets_out s4
              then tcp_mark_head_lost V (sint (fackets_out s4 - ucast (reordering s4))) False s4 else Some s4);
       case exit_state V s5 of (stop, s6) \<Rightarrow>
         if stop then Some s6
         else do {
           (stop, lost, fast_rexmit, s7) \<leftarrow> process_state V flag pkts is_dupack do_lost s6;
           if stop then Some s7
           else do {
             mark \<leftarrow> (if lost then Some True else if is_fack V s7 then tcp_head_timedout V s7 else Some False);
             s8 \<leftarrow> (if mark then tcp_update_scoreboard V fast_rexmit s7 else Some s7);
             s9 \<leftarrow> tcp_update_cwnd_in_recovery V newly_acked_sacked fast_rexmit
                     (s8\<lparr>prr_delivered := prr_delivered s8 + word_of_int newly_acked_sacked\<rparr>);
             Some (tcp_xmit_retransmit_queue V s9) } } } }"

section \<open>Samples of the round trip time\<close>

definition tcp_valid_rtt_meas :: "senv \<Rightarrow> u32 \<Rightarrow> tcp_sock \<Rightarrow> tcp_sock" where
  "tcp_valid_rtt_meas V seq_rtt s = (tcp_set_rto (inp V) (tcp_rtt_estimator (inp V) seq_rtt s))\<lparr>icsk_backoff := 0\<rparr>"

definition tcp_ack_saw_tstamp :: "senv \<Rightarrow> tcp_sock \<Rightarrow> tcp_sock" where
  "tcp_ack_saw_tstamp V s = tcp_valid_rtt_meas V (now V - rcv_tsecr (rx_opt s)) s"

definition tcp_ack_no_tstamp :: "senv \<Rightarrow> u32 \<Rightarrow> u32 \<Rightarrow> tcp_sock \<Rightarrow> tcp_sock" where
  "tcp_ack_no_tstamp V seq_rtt flag s =
     (if has flag FLAG_RETRANS_DATA_ACKED then s else tcp_valid_rtt_meas V seq_rtt s)"

definition tcp_ack_update_rtt :: "senv \<Rightarrow> u32 \<Rightarrow> int \<Rightarrow> tcp_sock \<Rightarrow> tcp_sock" where
  "tcp_ack_update_rtt V flag seq_rtt s =
     (if saw_tstamp (rx_opt s) \<and> rcv_tsecr (rx_opt s) \<noteq> 0 then tcp_ack_saw_tstamp V s
      else if 0 \<le> seq_rtt then tcp_ack_no_tstamp V (word_of_int seq_rtt) flag s
      else s)"

definition tcp_cong_avoid :: "senv \<Rightarrow> u32 \<Rightarrow> u32 \<Rightarrow> tcp_sock \<Rightarrow> tcp_sock" where
  "tcp_cong_avoid V ack in_flight s = (ca_cong_avoid V ack in_flight s)\<lparr>snd_cwnd_stamp := now V\<rparr>"

definition tcp_rearm_rto :: "senv \<Rightarrow> tcp_sock \<Rightarrow> tcp_sock" where
  "tcp_rearm_rto V s =
     (if packets_out s = 0 then inet_csk_clear_xmit_timer ICSK_TIME_RETRANS s
      else inet_csk_reset_xmit_timer (inp V) ICSK_TIME_RETRANS (ucast (icsk_rto s)) (ucast (TCP_RTO_MAX (inp V))) s)"

section \<open>Removing acknowledged segments\<close>

text \<open>The number of packets of a segment that are acknowledged, when the end of the segment is not.\<close>

definition tcp_tso_acked :: "senv \<Rightarrow> wskb \<Rightarrow> tcp_sock \<Rightarrow> (u32 \<times> tcp_sock) option" where
  "tcp_tso_acked V b s =
     (if \<not> aft V (w_end_seq b) (snd_una s) then None
      else case tcp_trim_head V b (snd_una s - w_seq b) s of (failed, s1) \<Rightarrow>
        if failed then Some (0, s1)
        else do {
          b1 \<leftarrow> wget (w_addr b) s1;
          let n = tcp_skb_pcount V b - tcp_skb_pcount V b1;
          if n \<noteq> 0 \<and> (tcp_skb_pcount V b1 = 0 \<or> \<not> bef V (w_seq b1) (w_end_seq b1)) then None else Some (n, s1) })"

record cleaned =
  cn_flag :: u32
  cn_pkts :: u32
  cn_reord :: u32
  cn_seq_rtt :: int
  cn_ca_rtt :: int
  cn_ackt :: int

text \<open>The accounting for \<open>n\<close> acknowledged packets of the segment \<open>b\<close>, whose tags were \<open>sacked\<close>.\<close>

definition acked_sample :: "senv \<Rightarrow> wskb \<Rightarrow> u8 \<Rightarrow> u32 \<Rightarrow> cleaned \<Rightarrow> cleaned" where
  "acked_sample V b sacked n c =
     (if has sacked (TCPCB_RETRANS V) then
        c\<lparr>cn_flag := (let f = cn_flag c OR FLAG_RETRANS_DATA_ACKED
                      in if has f FLAG_DATA_ACKED \<or> 1 < n then f OR FLAG_NONHEAD_RETRANS_ACKED else f),
          cn_ca_rtt := - 1, cn_seq_rtt := - 1\<rparr>
      else let rtt = sint (now V - w_when b)
           in c\<lparr>cn_ca_rtt := rtt, cn_ackt := w_tstamp b,
                cn_seq_rtt := (if cn_seq_rtt c < 0 then rtt else cn_seq_rtt c),
                cn_reord := (if \<not> has sacked (TCPCB_SACKED_ACKED V) then min (cn_pkts c) (cn_reord c) else cn_reord c)\<rparr>)"

definition count_acked :: "senv \<Rightarrow> wskb \<Rightarrow> u8 \<Rightarrow> u32 \<Rightarrow> cleaned \<times> tcp_sock \<Rightarrow> cleaned \<times> tcp_sock" where
  "count_acked V b sacked n cs =
     (case cs of (c, s) \<Rightarrow>
        let c1 = acked_sample V b sacked n c;
            syn = has (w_tcp_flags b) (TCPHDR_SYN V)
        in (c1\<lparr>cn_pkts := cn_pkts c1 + n, cn_flag := cn_flag c1 OR (if syn then FLAG_SYN_ACKED else FLAG_DATA_ACKED)\<rparr>,
            s\<lparr>retrans_out := (if has sacked (TCPCB_RETRANS V) \<and> has sacked (TCPCB_SACKED_RETRANS V)
                              then retrans_out s - n else retrans_out s),
              sacked_out := (if has sacked (TCPCB_SACKED_ACKED V) then sacked_out s - n else sacked_out s),
              lost_out := (if has sacked (TCPCB_LOST V) then lost_out s - n else lost_out s),
              packets_out := packets_out s - n,
              retrans_stamp := (if syn then 0 else retrans_stamp s)\<rparr>))"

definition free_acked :: "wskb \<Rightarrow> tcp_sock \<Rightarrow> tcp_sock" where
  "free_acked b s =
     (let s1 = sk_wmem_free_skb b (s\<lparr>sk_write_queue := tl (sk_write_queue s)\<rparr>)
      in s1\<lparr>scoreboard_skb_hint := None,
            retransmit_skb_hint := (if retransmit_skb_hint s1 = Some (w_addr b) then None else retransmit_skb_hint s1),
            lost_skb_hint := (if lost_skb_hint s1 = Some (w_addr b) then None else lost_skb_hint s1)\<rparr>)"

fun clean_loop :: "senv \<Rightarrow> wskb list \<Rightarrow> cleaned \<times> tcp_sock \<Rightarrow> (cleaned \<times> tcp_sock) option" where
  "clean_loop V [] cs = Some cs"
| "clean_loop V (b # q) (c, s) =
     (if aft V (w_end_seq b) (snd_una s) then
        if tcp_skb_pcount V b = 1 \<or> \<not> aft V (snd_una s) (w_seq b) then Some (c, s)
        else do {
          (n, s1) \<leftarrow> tcp_tso_acked V b s;
          if n = 0 then Some (c, s1)
          else do { b1 \<leftarrow> wget (w_addr b) s1; Some (count_acked V b1 (w_sacked b) n (c, s1)) } }
      else case count_acked V b (w_sacked b) (tcp_skb_pcount V b) (c, s) of (c1, s1) \<Rightarrow>
        clean_loop V q (c1, free_acked b s1))"

definition acked_rtt_us :: "senv \<Rightarrow> u32 \<Rightarrow> cleaned \<Rightarrow> int" where
  "acked_rtt_us V flag c =
     (if has flag FLAG_RETRANS_DATA_ACKED then - 1
      else if ca_rtt_stamp V \<and> cn_ackt c \<noteq> net_invalid_timestamp V then us_since V (cn_ackt c)
      else if 0 \<le> cn_ca_rtt c then jiffies_to_usecs V (cn_ca_rtt c)
      else - 1)"

definition acked_update :: "senv \<Rightarrow> u32 \<Rightarrow> u32 \<Rightarrow> u32 \<Rightarrow> cleaned \<Rightarrow> tcp_sock \<Rightarrow> tcp_sock option" where
  "acked_update V prior_fackets prior_sacked flag c s = do {
     s1 \<leftarrow> (if mtup_probe_size s \<noteq> 0 \<and> \<not> aft V (probe_seq_end s) (snd_una s) then tcp_mtup_probe_success V s else Some s);
     let s2 = tcp_rearm_rto V (tcp_ack_update_rtt V flag (cn_seq_rtt c) s1);
     let s3 = (if is_reno V s2 then tcp_remove_reno_sacks V (sint (cn_pkts c)) s2
               else let t = (if cn_reord c < prior_fackets
                             then tcp_update_reordering V (sint (fackets_out s2 - cn_reord c)) s2 else s2);
                        delta = sint (if is_fack V t then cn_pkts c else prior_sacked - sacked_out t)
                    in t\<lparr>lost_cnt_hint := lost_cnt_hint t - min (lost_cnt_hint t) delta\<rparr>);
     let s4 = s3\<lparr>fackets_out := fackets_out s3 - min (cn_pkts c) (fackets_out s3)\<rparr>;
     Some (case ca_pkts_acked V of Some f \<Rightarrow> f (cn_pkts c) (acked_rtt_us V flag c) s4 | None \<Rightarrow> s4) }"

definition tcp_clean_rtx_queue :: "senv \<Rightarrow> u32 \<Rightarrow> u32 \<Rightarrow> tcp_sock \<Rightarrow> (u32 \<times> tcp_sock) option" where
  "tcp_clean_rtx_queue V prior_fackets prior_snd_una s = do {
     (c, s1) \<leftarrow> clean_loop V (sk_write_queue s)
       (\<lparr>cn_flag = 0, cn_pkts = 0, cn_reord = packets_out s, cn_seq_rtt = - 1, cn_ca_rtt = - 1,
         cn_ackt = net_invalid_timestamp V\<rparr>, s);
     let s2 = (if between V (snd_up s1) prior_snd_una (snd_una s1) then s1\<lparr>snd_up := snd_una s1\<rparr> else s1);
     let flag = (case write_head s2 of
                   Some b \<Rightarrow> if has (w_sacked b) (TCPCB_SACKED_ACKED V) then cn_flag c OR FLAG_SACK_RENEGING else cn_flag c
                 | None \<Rightarrow> cn_flag c);
     s3 \<leftarrow> (if has flag FLAG_ACKED then acked_update V prior_fackets (sacked_out s) flag c s2 else Some s2);
     Some (flag, s3) }"

section \<open>F-RTO: was the timeout spurious?\<close>

definition tcp_conservative_spur_to_response :: "senv \<Rightarrow> tcp_sock \<Rightarrow> tcp_sock" where
  "tcp_conservative_spur_to_response V s =
     tcp_moderate_cwnd V (TCP_ECN_queue_cwr (inp V)
       (s\<lparr>snd_cwnd := min (snd_cwnd s) (snd_ssthresh s), snd_cwnd_cnt := 0, bytes_acked := 0\<rparr>))"

definition tcp_ratehalving_spur_to_response :: "senv \<Rightarrow> tcp_sock \<Rightarrow> tcp_sock" where
  "tcp_ratehalving_spur_to_response V s = tcp_enter_cwr V False s"

definition tcp_undo_spur_to_response :: "senv \<Rightarrow> u32 \<Rightarrow> tcp_sock \<Rightarrow> tcp_sock" where
  "tcp_undo_spur_to_response V flag s =
     (if has flag FLAG_ECE then tcp_ratehalving_spur_to_response V s else tcp_undo_cwr V True s)"

definition tcp_process_frto :: "senv \<Rightarrow> u32 \<Rightarrow> tcp_sock \<Rightarrow> bool \<times> tcp_sock" where
  "tcp_process_frto V flag s0 =
     (let s1 = (if has flag FLAG_DATA_ACKED then s0\<lparr>icsk_retransmits := 0\<rparr> else s0);
          s = (if has flag FLAG_NONHEAD_RETRANS_ACKED \<or> (2 \<le> frto_counter s1 \<and> has flag FLAG_RETRANS_DATA_ACKED)
               then s1\<lparr>undo_marker := 0\<rparr> else s1);
          first = (frto_counter s = 1)
      in if \<not> bef V (snd_una s) (frto_highmark s) then (True, tcp_enter_frto_loss V (if first then 2 else 3) flag s)
         else if \<not> tcp_is_sackfrto V s \<and> \<not> has flag FLAG_ANY_PROGRESS \<and> has flag FLAG_NOT_DUP then (True, s)
         else if \<not> tcp_is_sackfrto V s \<and> \<not> has flag FLAG_DATA_ACKED
         then (True, tcp_enter_frto_loss V (if first then 0 else 3) flag s)
         else if tcp_is_sackfrto V s \<and> \<not> has flag FLAG_DATA_ACKED \<and> first
         then (True, s\<lparr>snd_cwnd := min (snd_cwnd s) (tcp_packets_in_flight V s)\<rparr>)
         else if tcp_is_sackfrto V s \<and> 2 \<le> frto_counter s \<and>
                 (\<not> has flag FLAG_FORWARD_PROGRESS \<or> (has flag FLAG_DATA_SACKED \<and> \<not> has flag FLAG_ONLY_ORIG_SACKED))
         then if \<not> has flag FLAG_FORWARD_PROGRESS \<and> has flag FLAG_NOT_DUP then (True, s)
              else (True, tcp_enter_frto_loss V 3 flag s)
         else if first
         then let t = s\<lparr>snd_cwnd := tcp_packets_in_flight V s + 2, frto_counter := 2\<rparr>
              in (True, if \<not> tcp_may_send_now V t then tcp_enter_frto_loss V 2 flag t else t)
         else let t = (if sysctl_tcp_frto_response V = 2 then tcp_undo_spur_to_response V flag s
                       else if sysctl_tcp_frto_response V = 1 then tcp_conservative_spur_to_response V s
                       else tcp_ratehalving_spur_to_response V s)
              in (False, t\<lparr>frto_counter := 0, undo_marker := 0\<rparr>))"

end
