(* ===== verification/Tcp_Sacktag.thy ===== *)
theory Tcp_Sacktag
  imports Tcp_Recover
begin

text \<open>
  The scoreboard of selective acknowledgements (\<^verbatim>\<open>tcp_sacktag_write_queue\<close> of \<^verbatim>\<open>net/ipv4/tcp_input.c\<close>): the blocks of an
  acknowledgement are validated and sorted, and the segments of the retransmission queue they cover are tagged, with the
  blocks seen before as a cache, splitting segments and merging neighbours that are acknowledged. \<^verbatim>\<open>BUG_ON\<close>, a
  read outside the header and a division by zero are faults.
\<close>

section \<open>Which blocks are acceptable\<close>

definition tcp_is_sackblock_valid :: "senv \<Rightarrow> bool \<Rightarrow> tcp_sack_block \<Rightarrow> tcp_sock \<Rightarrow> bool" where
  "tcp_is_sackblock_valid V is_dsack blk s \<longleftrightarrow>
     (if aft V (end_seq blk) (snd_nxt s) \<or> \<not> bef V (start_seq blk) (end_seq blk) then False
      else if \<not> bef V (start_seq blk) (snd_nxt s) then False
      else if aft V (start_seq blk) (snd_una s) then True
      else if \<not> is_dsack \<or> undo_marker s = 0 then False
      else if aft V (end_seq blk) (snd_una s) then False
      else if \<not> bef V (start_seq blk) (undo_marker s) then True
      else if \<not> aft V (end_seq blk) (undo_marker s) then False
      else \<not> bef V (start_seq blk) (end_seq blk - max_window s))"

section \<open>Lost retransmissions\<close>

fun lost_retrans_loop :: "senv \<Rightarrow> u32 \<Rightarrow> u32 \<Rightarrow> u32 \<Rightarrow> wskb list \<Rightarrow> tcp_sock \<Rightarrow> (u32 \<times> tcp_sock) option" where
  "lost_retrans_loop V received_upto cnt low [] s = Some (low, s)"
| "lost_retrans_loop V received_upto cnt low (b # q) s =
     (if cnt = retrans_out s then Some (low, s)
      else if \<not> aft V (w_end_seq b) (snd_una s) \<or> \<not> has (w_sacked b) (TCPCB_SACKED_RETRANS V)
      then lost_retrans_loop V received_upto cnt low q s
      else if aft V received_upto (w_ack_seq b) then do {
        let b1 = b\<lparr>w_sacked := w_sacked b AND NOT (TCPCB_SACKED_RETRANS V)\<rparr>;
        s1 \<leftarrow> tcp_skb_mark_lost_uncond_verify V b1 (wput b1 (s\<lparr>retrans_out := retrans_out s - tcp_skb_pcount V b\<rparr>));
        lost_retrans_loop V received_upto cnt low q s1 }
      else lost_retrans_loop V received_upto (cnt + tcp_skb_pcount V b)
             (if bef V (w_ack_seq b) low then w_ack_seq b else low) q s)"

definition tcp_mark_lost_retrans :: "senv \<Rightarrow> tcp_sock \<Rightarrow> tcp_sock option" where
  "tcp_mark_lost_retrans V s =
     (let received_upto = tcp_highest_sack_seq V s
      in if \<not> is_fack V s \<or> retrans_out s = 0 \<or> \<not> aft V received_upto (lost_retrans_low s) \<or>
            icsk_ca_state s \<noteq> TCP_CA_Recovery
         then Some s
         else do {
           (low, s1) \<leftarrow> lost_retrans_loop V received_upto 0 (snd_nxt s) (sk_write_queue s) s;
           Some (if retrans_out s1 \<noteq> 0 then s1\<lparr>lost_retrans_low := low\<rparr> else s1) })"

section \<open>Duplicate SACKs\<close>

text \<open>The bytes of a SACK option; \<open>pos\<close> counts from the start of the TCP header. \<open>wire_block\<close> is the block number \<open>i\<close>.\<close>

definition hdr_byte :: "skb \<Rightarrow> nat \<Rightarrow> u8 option" where
  "hdr_byte b pos = (if 20 \<le> pos then rd8 (sg_opts b) (pos - 20) else None)"

definition hdr_be32 :: "senv \<Rightarrow> skb \<Rightarrow> nat \<Rightarrow> u32 option" where
  "hdr_be32 V b pos = do {
     x \<leftarrow> hdr_byte b pos; y \<leftarrow> hdr_byte b (pos + 1); z \<leftarrow> hdr_byte b (pos + 2); w \<leftarrow> hdr_byte b (pos + 3);
     Some (get_unaligned_be32 (tv (inp V)) x y z w) }"

definition wire_block :: "senv \<Rightarrow> skb \<Rightarrow> nat \<Rightarrow> tcp_sack_block option" where
  "wire_block V b i = do {
     st \<leftarrow> hdr_be32 V b (unat (sg_sacked b) + 2 + 8 * i);
     en \<leftarrow> hdr_be32 V b (unat (sg_sacked b) + 2 + 8 * i + 4);
     Some \<lparr>start_seq = st, end_seq = en\<rparr> }"

definition tcp_check_dsack :: "senv \<Rightarrow> skb \<Rightarrow> int \<Rightarrow> u32 \<Rightarrow> tcp_sock \<Rightarrow> (bool \<times> tcp_sock) option" where
  "tcp_check_dsack V b n_sacks prior_snd_una s = do {
     blk0 \<leftarrow> wire_block V b 0;
     dup_sack \<leftarrow>
       (if bef V (start_seq blk0) (sg_ack_seq b) then Some True
        else if 1 < n_sacks then do {
          blk1 \<leftarrow> wire_block V b 1;
          Some (\<not> aft V (end_seq blk0) (end_seq blk1) \<and> \<not> bef V (start_seq blk0) (start_seq blk1)) }
        else Some False);
     let s1 = (if dup_sack then tcp_dsack_seen s else s);
     Some (dup_sack,
           if dup_sack \<and> undo_marker s1 \<noteq> 0 \<and> undo_retrans s1 \<noteq> 0 \<and> \<not> aft V (end_seq blk0) prior_snd_una \<and>
              aft V (end_seq blk0) (undo_marker s1)
           then s1\<lparr>undo_retrans := undo_retrans s1 - 1\<rparr> else s1) }"

section \<open>Tagging one segment\<close>

record tcp_sacktag_state =
  st_reord :: int
  st_fack_count :: int
  st_flag :: u32

text \<open>
  Whether a segment is covered by a block: positive if it is (a large segment is split so that it can be), negative if splitting failed.
\<close>

definition tcp_match_skb_to_sack :: "senv \<Rightarrow> wskb \<Rightarrow> tcp_sack_block \<Rightarrow> tcp_sock \<Rightarrow> (int \<times> tcp_sock) option" where
  "tcp_match_skb_to_sack V b blk s =
     (let starts = (\<not> aft V (start_seq blk) (w_seq b));
          inside = (starts \<and> \<not> bef V (end_seq blk) (w_end_seq b));
          code = (\<lambda>c. if c then 1 else 0)
      in if 1 < tcp_skb_pcount V b \<and> \<not> inside \<and> aft V (w_end_seq b) (start_seq blk) then
           let mss = tcp_skb_mss V b;
               pkt_len = (if starts then end_seq blk - w_seq b else max (start_seq blk - w_seq b) mss)
           in if starts \<and> pkt_len < mss then Some (- EINVAL, s)
              else if mss < pkt_len \<and> mss = 0 then None
              else let whole = (pkt_len div mss) * mss;
                       new_len = (if \<not> starts \<and> whole < pkt_len then whole + mss else whole)
                   in if mss < pkt_len \<and> \<not> starts \<and> whole < pkt_len \<and> w_len b < new_len then Some (0, s)
                      else case tcp_fragment V b (if mss < pkt_len then new_len else pkt_len) mss s of (err, s1) \<Rightarrow>
                        Some (if err < 0 then err else code starts, s1)
         else Some (code inside, s))"

definition sack_reorder :: "senv \<Rightarrow> wskb \<Rightarrow> bool \<Rightarrow> tcp_sacktag_state \<Rightarrow> tcp_sock \<Rightarrow> tcp_sacktag_state \<times> tcp_sock" where
  "sack_reorder V b dup_sack st s =
     (if dup_sack \<and> has (w_sacked b) (TCPCB_RETRANS V) then
        (if has (w_sacked b) (TCPCB_SACKED_ACKED V) then st\<lparr>st_reord := min (st_fack_count st) (st_reord st)\<rparr> else st,
         if undo_marker s \<noteq> 0 \<and> undo_retrans s \<noteq> 0 \<and> aft V (w_end_seq b) (undo_marker s)
         then s\<lparr>undo_retrans := undo_retrans s - 1\<rparr> else s)
      else (st, s))"

text \<open>A segment that was not acknowledged selectively before: its new tags, and the counters.\<close>

definition sack_new ::
    "senv \<Rightarrow> wskb \<Rightarrow> u32 \<Rightarrow> tcp_sacktag_state \<Rightarrow> tcp_sock \<Rightarrow> (u8 \<times> tcp_sacktag_state \<times> tcp_sock) option" where
  "sack_new V b pcount st s = do {
     let sacked = w_sacked b;
     let lost = has sacked (TCPCB_LOST V);
     let retrans = has sacked (TCPCB_SACKED_RETRANS V);
     let fresh = (\<not> retrans \<and> \<not> has sacked (TCPCB_RETRANS V));
     let st1 = (if fresh \<and> bef V (w_seq b) (tcp_highest_sack_seq V s)
                then st\<lparr>st_reord := min (st_fack_count st) (st_reord st)\<rparr> else st);
     let st2 = (if fresh \<and> \<not> aft V (w_end_seq b) (frto_highmark s)
                then st1\<lparr>st_flag := st_flag st1 OR FLAG_ONLY_ORIG_SACKED\<rparr> else st1);
     let tags = (if lost \<and> retrans then sacked AND NOT (TCPCB_LOST V OR TCPCB_SACKED_RETRANS V)
                 else if lost then sacked AND NOT (TCPCB_LOST V) else sacked);
     let s1 = s\<lparr>lost_out := (if lost then lost_out s - pcount else lost_out s),
                retrans_out := (if lost \<and> retrans then retrans_out s - pcount else retrans_out s),
                sacked_out := sacked_out s + pcount\<rparr>;
     passed \<leftarrow> (case lost_skb_hint s1 of
                 Some p \<Rightarrow> if is_fack V s1 then Some False else map_option (\<lambda>h. bef V (w_seq b) (w_seq h)) (wget p s1)
               | None \<Rightarrow> Some False);
     let s2 = (if passed then s1\<lparr>lost_cnt_hint := lost_cnt_hint s1 + uint pcount\<rparr> else s1);
     let count = word_of_int (st_fack_count st + uint pcount);
     Some (tags OR TCPCB_SACKED_ACKED V, st2\<lparr>st_flag := st_flag st2 OR FLAG_DATA_SACKED\<rparr>,
           if fackets_out s2 < count then s2\<lparr>fackets_out := count\<rparr> else s2) }"

definition tcp_sacktag_one ::
    "senv \<Rightarrow> wskb \<Rightarrow> bool \<Rightarrow> u32 \<Rightarrow> tcp_sacktag_state \<Rightarrow> tcp_sock \<Rightarrow> (u8 \<times> tcp_sacktag_state \<times> tcp_sock) option" where
  "tcp_sacktag_one V b dup_sack pcount st0 s0 =
     (case sack_reorder V b dup_sack st0 s0 of (st, s) \<Rightarrow>
        if \<not> aft V (w_end_seq b) (snd_una s) then Some (w_sacked b, st, s)
        else do {
          (tags, st1, s1) \<leftarrow> (if \<not> has (w_sacked b) (TCPCB_SACKED_ACKED V) then sack_new V b pcount st s
                             else Some (w_sacked b, st, s));
          Some (if dup_sack \<and> has tags (TCPCB_SACKED_RETRANS V)
                then (tags AND NOT (TCPCB_SACKED_RETRANS V), st1, s1\<lparr>retrans_out := retrans_out s1 - pcount\<rparr>)
                else (tags, st1, s1)) })"

section \<open>Merging neighbours\<close>

text \<open>The neighbours of a segment in the queue. The neighbour of the last segment is the head of the list.\<close>

definition wq_next :: "ptr \<Rightarrow> tcp_sock \<Rightarrow> ptr" where
  "wq_next p s = (case dropWhile (\<lambda>b. w_addr b \<noteq> p) (sk_write_queue s @ sk_send_queue s) of
                    _ # b # _ \<Rightarrow> w_addr b | _ \<Rightarrow> wq_end)"

definition wq_prev :: "ptr \<Rightarrow> tcp_sock \<Rightarrow> wskb option" where
  "wq_prev p s = (case rev (takeWhile (\<lambda>b. w_addr b \<noteq> p) (sk_write_queue s @ sk_send_queue s)) of
                    [] \<Rightarrow> None | b # _ \<Rightarrow> Some b)"

definition unlink_wskb :: "ptr \<Rightarrow> tcp_sock \<Rightarrow> tcp_sock" where
  "unlink_wskb p s =
     s\<lparr>sk_write_queue := filter (\<lambda>b. w_addr b \<noteq> p) (sk_write_queue s),
       sk_send_queue := filter (\<lambda>b. w_addr b \<noteq> p) (sk_send_queue s)\<rparr>"

text \<open>The segment \<open>b\<close>, which was merged as a whole into \<open>prev\<close>, leaves the queue.\<close>

definition eaten_skb :: "senv \<Rightarrow> wskb \<Rightarrow> wskb \<Rightarrow> tcp_sock \<Rightarrow> tcp_sock" where
  "eaten_skb V prev b s =
     (let p = w_addr b; q = w_addr prev;
          s1 = s\<lparr>retransmit_skb_hint := (if retransmit_skb_hint s = Some p then Some q else retransmit_skb_hint s),
                 scoreboard_skb_hint := (if scoreboard_skb_hint s = Some p then Some q else scoreboard_skb_hint s)\<rparr>;
          s2 = (if lost_skb_hint s1 = Some p
                then s1\<lparr>lost_skb_hint := Some q, lost_cnt_hint := lost_cnt_hint s1 - uint (tcp_skb_pcount V prev)\<rparr> else s1);
          b1 = b\<lparr>w_tcp_flags := w_tcp_flags b OR w_tcp_flags prev\<rparr>;
          s3 = (if tcp_highest_sack V s2 = Some p then tcp_advance_highest_sack V b1 (wput b1 s2) else s2)
      in sk_wmem_free_skb b1 (unlink_wskb p s3))"

text \<open>\<open>shifted\<close> bytes in \<open>pcount\<close> packets have moved from \<open>b\<close> to \<open>prev\<close>. The first result says that nothing is left of \<open>b\<close>.\<close>

definition tcp_shifted_skb ::
    "senv \<Rightarrow> wskb \<Rightarrow> wskb \<Rightarrow> u32 \<Rightarrow> int \<Rightarrow> int \<Rightarrow> bool \<Rightarrow> tcp_sacktag_state \<Rightarrow> tcp_sock \<Rightarrow>
       (bool \<times> tcp_sacktag_state \<times> tcp_sock) option" where
  "tcp_shifted_skb V prev b pcount shifted mss dup_sack st s =
     (if pcount = 0 \<or> ucast (w_gso_segs b) < pcount then None
      else do {
        let s1 = (if lost_skb_hint s = Some (w_addr b) then s\<lparr>lost_cnt_hint := lost_cnt_hint s + uint pcount\<rparr> else s);
        let prev1 = prev\<lparr>w_end_seq := w_end_seq prev + word_of_int shifted, w_gso_segs := w_gso_segs prev + ucast pcount,
                         w_gso_size := (if w_gso_size prev = 0 then word_of_int mss else w_gso_size prev)\<rparr>;
        let segs = w_gso_segs b - ucast pcount;
        let b1 = b\<lparr>w_seq := w_seq b + word_of_int shifted, w_gso_segs := segs,
                   w_gso_size := (if segs \<le> 1 then 0 else w_gso_size b)\<rparr>;
        (_, st1, s2) \<leftarrow> tcp_sacktag_one V b1 dup_sack pcount st (wput b1 (wput prev1 s1));
        let prev2 = prev1\<lparr>w_sacked := w_sacked prev1 OR (w_sacked b1 AND TCPCB_EVER_RETRANS V)\<rparr>;
        let s3 = wput prev2 s2;
        if w_len b1 \<noteq> 0 then (if tcp_skb_pcount V b1 = 0 then None else Some (False, st1, s3))
        else Some (True, st1, eaten_skb V prev2 b1 s3) })"

definition skb_can_shift :: "senv \<Rightarrow> wskb \<Rightarrow> bool" where
  "skb_can_shift V b \<longleftrightarrow> skb_headlen V b = 0 \<and> skb_is_nonlinear V b"

text \<open>How much of a segment a block covers: nothing that can be moved, nothing at all, or \<open>len\<close> bytes in \<open>pcount\<close> packets.\<close>

datatype shift_plan = Fallback | Noop | Shift int u32 int

definition shift_plan :: "senv \<Rightarrow> wskb \<Rightarrow> wskb \<Rightarrow> tcp_sack_block \<Rightarrow> shift_plan option" where
  "shift_plan V prev b blk =
     (let starts = (\<not> aft V (start_seq blk) (w_seq b));
          mss = tcp_skb_mss V b;
          len = sint (end_seq blk - w_seq b)
      in if starts \<and> \<not> bef V (end_seq blk) (w_end_seq b) then
           Some (if tcp_skb_seglen V b \<noteq> tcp_skb_seglen V prev then Fallback
                 else Shift (sint (w_len b)) (tcp_skb_pcount V b) (sint (tcp_skb_seglen V b)))
         else if \<not> aft V (w_end_seq b) (start_seq blk) then Some Noop
         else if tcp_skb_pcount V b \<le> 1 then Some Noop
         else if \<not> starts then Some Fallback
         else if len < 0 \<or> w_len b < word_of_int len then None
         else if mss \<noteq> tcp_skb_seglen V prev then Some Fallback
         else if len = sint mss then Some (Shift len 1 (sint mss))
         else if len < sint mss then Some Noop
         else if mss = 0 then None
         else let n = len sdiv sint mss in Some (Shift (n * sint mss) (word_of_int n) (sint mss)))"

text \<open>
  The result is \<^term>\<open>None\<close> for \<^verbatim>\<open>NULL\<close> (the caller has to tag the segment itself), or the segment where the walk goes on.
\<close>

definition tcp_shift_skb_data ::
    "senv \<Rightarrow> wskb \<Rightarrow> tcp_sack_block \<Rightarrow> bool \<Rightarrow> tcp_sacktag_state \<Rightarrow> tcp_sock \<Rightarrow>
       (ptr option \<times> tcp_sacktag_state \<times> tcp_sock) option" where
  "tcp_shift_skb_data V b blk dup_sack st s =
     (let sacked_only = (\<lambda>c. w_sacked c AND TCPCB_TAGBITS V = TCPCB_SACKED_ACKED V)
      in if \<not> sk_can_gso V s \<or>
            (\<not> dup_sack \<and> w_sacked b AND (TCPCB_LOST V OR TCPCB_SACKED_RETRANS V) = TCPCB_SACKED_RETRANS V) \<or>
            \<not> skb_can_shift V b \<or> \<not> aft V (w_end_seq b) (snd_una s) \<or> map_option w_addr (write_head s) = Some (w_addr b)
         then Some (None, st, s)
         else do {
           prev \<leftarrow> wq_prev (w_addr b) s;
           if \<not> sacked_only prev then Some (None, st, s)
           else do {
             plan \<leftarrow> shift_plan V prev b blk;
             case plan of
               Fallback \<Rightarrow> Some (None, st, s)
             | Noop \<Rightarrow> Some (Some (w_addr b), st, s)
             | Shift len pcount mss \<Rightarrow>
                 (case skb_shift V prev b len of
                    None \<Rightarrow> Some (None, st, s)
                  | Some (prev1, b1) \<Rightarrow> do {
                      (all_eaten, st1, s1) \<leftarrow>
                        tcp_shifted_skb V prev1 b1 pcount len mss dup_sack st (wput b1 (wput prev1 s));
                      let out = (\<lambda>n st s. Some (Some (w_addr prev), st\<lparr>st_fack_count := st_fack_count st + uint n\<rparr>, s));
                      prev2 \<leftarrow> wget (w_addr prev) s1;
                      let p = wq_next (w_addr prev) s1;
                      if \<not> all_eaten \<or> p = wq_end then out pcount st1 s1
                      else do {
                        b2 \<leftarrow> wget p s1;
                        if \<not> skb_can_shift V b2 \<or> p = walk_end s1 \<or> \<not> sacked_only b2 \<or> mss \<noteq> sint (tcp_skb_seglen V b2)
                        then out pcount st1 s1
                        else case skb_shift V prev2 b2 (sint (w_len b2)) of
                               None \<Rightarrow> out pcount st1 s1
                             | Some (prev3, b3) \<Rightarrow> do {
                                 (_, st2, s2) \<leftarrow> tcp_shifted_skb V prev3 b3 (tcp_skb_pcount V b3) (sint (w_len b2)) mss False st1
                                                  (wput b3 (wput prev3 s1));
                                 out (pcount + tcp_skb_pcount V b3) st2 s2 } } }) } })"

section \<open>Walking the queue\<close>

text \<open>Walks return the place where they stopped.\<close>

partial_function (option) tcp_sacktag_walk ::
    "senv \<Rightarrow> tcp_sack_block option \<Rightarrow> tcp_sack_block \<Rightarrow> bool \<Rightarrow> ptr \<Rightarrow> tcp_sacktag_state \<Rightarrow> tcp_sock \<Rightarrow>
       (ptr \<times> tcp_sacktag_state \<times> tcp_sock) option" where
  "tcp_sacktag_walk V next_dup blk dup_in p st s =
     (if p = wq_end \<or> p = walk_end s then Some (p, st, s)
      else do {
        b \<leftarrow> wget p s;
        if \<not> bef V (w_seq b) (end_seq blk) then Some (p, st, s)
        else do {
          (found, s1) \<leftarrow> (case next_dup of
                            Some d \<Rightarrow> if bef V (w_seq b) (end_seq d) then tcp_match_skb_to_sack V b d s else Some (0, s)
                          | None \<Rightarrow> Some (0, s));
          let dup_sack = (dup_in \<or> 0 < found);
          b1 \<leftarrow> wget p s1;
          (moved, in_sack, st2, s2) \<leftarrow>
            (if 0 < found then Some (None, found, st, s1)
             else do {
               (tmp, st2, s2) \<leftarrow> tcp_shift_skb_data V b1 blk dup_sack st s1;
               case tmp of
                 Some q \<Rightarrow> Some (if q \<noteq> p then Some q else None, 0, st2, s2)
               | None \<Rightarrow> do { (c, s3) \<leftarrow> tcp_match_skb_to_sack V b1 blk s2; Some (None, c, st2, s3) } });
          case moved of
            Some q \<Rightarrow> tcp_sacktag_walk V next_dup blk dup_in (wq_next q s2) st2 s2
          | None \<Rightarrow>
              if in_sack < 0 then Some (p, st2, s2)
              else do {
                b2 \<leftarrow> wget p s2;
                (st3, s3) \<leftarrow>
                  (if in_sack = 0 then Some (st2, s2)
                   else do {
                     (tags, st3, s3) \<leftarrow> tcp_sacktag_one V b2 dup_sack (tcp_skb_pcount V b2) st2 s2;
                     let b3 = b2\<lparr>w_sacked := tags\<rparr>;
                     let s4 = wput b3 s3;
                     Some (st3, if \<not> bef V (w_seq b3) (tcp_highest_sack_seq V s4) then tcp_advance_highest_sack V b3 s4 else s4) });
                tcp_sacktag_walk V next_dup blk dup_in (wq_next p s3)
                  (st3\<lparr>st_fack_count := st_fack_count st3 + uint (tcp_skb_pcount V b2)\<rparr>) s3 } } })"

partial_function (option) tcp_sacktag_skip ::
    "senv \<Rightarrow> u32 \<Rightarrow> ptr \<Rightarrow> tcp_sacktag_state \<Rightarrow> tcp_sock \<Rightarrow> (ptr \<times> tcp_sacktag_state) option" where
  "tcp_sacktag_skip V skip_to_seq p st s =
     (if p = wq_end \<or> p = walk_end s then Some (p, st)
      else do {
        b \<leftarrow> wget p s;
        if aft V (w_end_seq b) skip_to_seq then Some (p, st)
        else tcp_sacktag_skip V skip_to_seq (wq_next p s)
               (st\<lparr>st_fack_count := st_fack_count st + uint (tcp_skb_pcount V b)\<rparr>) s })"

definition tcp_maybe_skipping_dsack ::
    "senv \<Rightarrow> tcp_sack_block option \<Rightarrow> u32 \<Rightarrow> ptr \<Rightarrow> tcp_sacktag_state \<Rightarrow> tcp_sock \<Rightarrow>
       (ptr \<times> tcp_sacktag_state \<times> tcp_sock) option" where
  "tcp_maybe_skipping_dsack V next_dup skip_to_seq p st s =
     (case next_dup of
        Some d \<Rightarrow>
          if bef V (start_seq d) skip_to_seq then do {
            (p1, st1) \<leftarrow> tcp_sacktag_skip V (start_seq d) p st s;
            tcp_sacktag_walk V None d True p1 st1 s }
          else Some (p, st, s)
      | None \<Rightarrow> Some (p, st, s))"

section \<open>The blocks of an acknowledgement\<close>

text \<open>
  The valid blocks, in the order of the option, and the index of the first one: 0, or -1 if it was discarded as invalid.
\<close>

fun collect_blocks ::
    "senv \<Rightarrow> skb \<Rightarrow> u32 \<Rightarrow> bool \<Rightarrow> nat list \<Rightarrow> tcp_sack_block list \<Rightarrow> int \<Rightarrow> tcp_sock \<Rightarrow> (tcp_sack_block list \<times> int) option" where
  "collect_blocks V b prior_snd_una found_dup [] sp first s = Some (sp, first)"
| "collect_blocks V b prior_snd_una found_dup (i # is) sp first s = do {
     blk \<leftarrow> wire_block V b i;
     let dup_sack = (i = 0 \<and> found_dup);
     if \<not> tcp_is_sackblock_valid V dup_sack blk s then
       collect_blocks V b prior_snd_una found_dup is sp
         (if \<not> dup_sack \<and> sg_ack_seq b \<noteq> snd_una s \<and> \<not> aft V (end_seq blk) (snd_una s) then first
          else if i = 0 then - 1 else first) s
     else if \<not> aft V (end_seq blk) prior_snd_una then collect_blocks V b prior_snd_una found_dup is sp first s
     else collect_blocks V b prior_snd_una found_dup is (sp @ [blk]) first s }"

text \<open>Bubble sort by the start of the blocks, which keeps track of where the first block goes.\<close>

definition sort_step :: "senv \<Rightarrow> nat \<Rightarrow> tcp_sack_block list \<times> int \<Rightarrow> tcp_sack_block list \<times> int" where
  "sort_step V j spf =
     (case spf of (sp, first) \<Rightarrow>
        if aft V (start_seq (sp ! j)) (start_seq (sp ! (j + 1)))
        then (sp[j := sp ! (j + 1), j + 1 := sp ! j], if int j = first then int (j + 1) else first)
        else (sp, first))"

definition sort_blocks :: "senv \<Rightarrow> tcp_sack_block list \<times> int \<Rightarrow> tcp_sack_block list \<times> int" where
  "sort_blocks V spf =
     fold (\<lambda>i. fold (sort_step V) [0..<i]) (rev [1..<length (fst spf)]) spf"

text \<open>
  One iteration of the main loop, for the block \<open>blk\<close>. \<open>cache\<close> are the blocks of the cache that are still ahead; the walk stands at
  the segment \<open>p\<close>. Then the loop ends, or goes on with the same block, or with the next one.
\<close>

datatype sack_next = Done_all | Same_block | Next_block

definition sacktag_block ::
    "senv \<Rightarrow> tcp_sack_block option \<Rightarrow> tcp_sack_block \<Rightarrow> bool \<Rightarrow> tcp_sack_block list \<Rightarrow> ptr \<Rightarrow> tcp_sacktag_state \<Rightarrow> tcp_sock \<Rightarrow>
       (sack_next \<times> tcp_sack_block list \<times> ptr \<times> tcp_sacktag_state \<times> tcp_sock) option" where
  "sacktag_block V next_dup blk dup_sack cache p st s =
     (let walk = (\<lambda>cache p st s. do {
                    (p1, st1, s1) \<leftarrow> tcp_sacktag_walk V next_dup blk dup_sack p st s;
                    Some (Next_block, cache, p1, st1, s1) })
      in if cache \<noteq> [] \<and> \<not> dup_sack \<and> aft V (end_seq blk) (start_seq (hd cache)) then do {
           let c = hd cache;
           (p1, st1, s1) \<leftarrow>
             (if bef V (start_seq blk) (start_seq c) then do {
                (p1, st1) \<leftarrow> tcp_sacktag_skip V (start_seq blk) p st s;
                tcp_sacktag_walk V next_dup (blk\<lparr>end_seq := start_seq c\<rparr>) dup_sack p1 st1 s }
              else Some (p, st, s));
           if \<not> aft V (end_seq blk) (end_seq c) then Some (Next_block, cache, p1, st1, s1)
           else do {
             (p2, st2, s2) \<leftarrow> tcp_maybe_skipping_dsack V next_dup (end_seq c) p1 st1 s1;
             if tcp_highest_sack_seq V s2 = end_seq c then
               (case tcp_highest_sack V s2 of
                  None \<Rightarrow> Some (Done_all, cache, p2, st2, s2)
                | Some h \<Rightarrow> walk (tl cache) h (st2\<lparr>st_fack_count := sint (fackets_out s2)\<rparr>) s2)
             else do {
               (p3, st3) \<leftarrow> tcp_sacktag_skip V (end_seq c) p2 st2 s2;
               Some (Same_block, tl cache, p3, st3, s2) } } }
         else if \<not> bef V (start_seq blk) (tcp_highest_sack_seq V s) then
           (case tcp_highest_sack V s of
              None \<Rightarrow> Some (Done_all, cache, p, st, s)
            | Some h \<Rightarrow> do {
                (p1, st1) \<leftarrow> tcp_sacktag_skip V (start_seq blk) h (st\<lparr>st_fack_count := sint (fackets_out s)\<rparr>) s;
                walk cache p1 st1 s })
         else do { (p1, st1) \<leftarrow> tcp_sacktag_skip V (start_seq blk) p st s; walk cache p1 st1 s })"

partial_function (option) sacktag_loop ::
    "senv \<Rightarrow> tcp_sack_block list \<Rightarrow> bool \<Rightarrow> int \<Rightarrow> nat \<Rightarrow> tcp_sack_block list \<Rightarrow> ptr \<Rightarrow> tcp_sacktag_state \<Rightarrow> tcp_sock \<Rightarrow>
       (tcp_sacktag_state \<times> tcp_sock) option" where
  "sacktag_loop V sp found_dup first i cache p st s =
     (if length sp \<le> i then Some (st, s)
      else let blk = sp ! i in do {
        (go, cache1, p1, st1, s1) \<leftarrow>
          sacktag_block V (if found_dup \<and> int (i + 1) = first \<and> i + 1 < length sp then Some (sp ! (i + 1)) else None) blk
            (found_dup \<and> int i = first)
            (dropWhile (\<lambda>c. \<not> bef V (start_seq blk) (end_seq c)) cache) p
            (if aft V (end_seq blk) (high_seq s) then st\<lparr>st_flag := st_flag st OR FLAG_DATA_LOST\<rparr> else st) s;
        case go of
          Done_all \<Rightarrow> Some (st1, s1)
        | Same_block \<Rightarrow> sacktag_loop V sp found_dup first i cache1 p1 st1 s1
        | Next_block \<Rightarrow>
            sacktag_loop V sp found_dup first (i + 1) cache1 p1
              (if aft V (end_seq blk) (frto_highmark s1)
               then st1\<lparr>st_flag := st_flag st1 AND NOT FLAG_ONLY_ORIG_SACKED\<rparr> else st1) s1 })"

definition empty_block :: tcp_sack_block where
  "empty_block = \<lparr>start_seq = 0, end_seq = 0\<rparr>"

definition sacktag_blocks ::
    "senv \<Rightarrow> tcp_sack_block list \<Rightarrow> bool \<Rightarrow> int \<Rightarrow> tcp_sacktag_state \<Rightarrow> tcp_sock \<Rightarrow> (tcp_sacktag_state \<times> tcp_sock) option" where
  "sacktag_blocks V sp found_dup first st s = do {
     let head = (case write_head s of Some b \<Rightarrow> w_addr b | None \<Rightarrow> wq_end);
     let cache = (if sacked_out s = 0 then [] else dropWhile (\<lambda>c. c = empty_block) (recv_sack_cache s));
     (st1, s1) \<leftarrow> sacktag_loop V sp found_dup first 0 cache head (st\<lparr>st_fack_count := 0\<rparr>) s;
     let s2 = s1\<lparr>recv_sack_cache := replicate (length (recv_sack_cache s1) - length sp) empty_block @ sp\<rparr>;
     s3 \<leftarrow> tcp_mark_lost_retrans V s2;
     Some (st1, if st_reord st1 < sint (fackets_out s3) \<and> (icsk_ca_state s3 \<noteq> TCP_CA_Loss \<or> undo_marker s3 \<noteq> 0) \<and>
                   (frto_highmark s3 = 0 \<or> aft V (snd_una s3) (frto_highmark s3))
                then tcp_update_reordering V (sint (fackets_out s3 - word_of_int (st_reord st1))) s3 else s3) }"

definition tcp_sacktag_write_queue :: "senv \<Rightarrow> skb \<Rightarrow> u32 \<Rightarrow> tcp_sock \<Rightarrow> (u32 \<times> tcp_sock) option" where
  "tcp_sacktag_write_queue V b prior_snd_una s = do {
     len \<leftarrow> hdr_byte b (unat (sg_sacked b) + 1);
     let n_sacks = min (int TCP_NUM_SACKS) (drop_bit 3 (uint len - TCPOLEN_SACK_BASE (tv (inp V))));
     let s1 = (if sacked_out s = 0
               then tcp_highest_sack_reset V (if fackets_out s \<noteq> 0 then s\<lparr>fackets_out := 0\<rparr> else s) else s);
     (found_dup, s2) \<leftarrow> tcp_check_dsack V b n_sacks prior_snd_una s1;
     let flag = (if found_dup then FLAG_DSACKING_ACK else 0);
     if bef V (sg_ack_seq b) (prior_snd_una - max_window s2) then Some (0, s2)
     else if packets_out s2 = 0 then Some (flag, s2)
     else do {
       spf \<leftarrow> collect_blocks V b prior_snd_una found_dup [0..<nat n_sacks] [] 0 s2;
       (st, s3) \<leftarrow> (case sort_blocks V spf of (sp, first) \<Rightarrow>
                      sacktag_blocks V sp found_dup first
                        \<lparr>st_reord = sint (packets_out s), st_fack_count = 0, st_flag = flag\<rparr> s2);
       Some (st_flag st, s3) } }"

end
