(* ===== verification/Tcp_Sender_Frame.thy ===== *)
theory Tcp_Sender_Frame
  imports Tcp_Sacktag
begin

text \<open>
  The scoreboard invariant of the retransmission queue (\<open>board\<close>), what the sending side shares with the rest of a connection
  (\<open>rview\<close>), the laws of the functions of other files, and which functions of \<open>Tcp_Sender\<close> and \<open>Tcp_Recover\<close> touch neither.
\<close>

section \<open>The scoreboard\<close>

definition tagged :: "u8 \<Rightarrow> wskb list \<Rightarrow> u32" where
  "tagged f q = (\<Sum>b\<leftarrow>q. if has (w_sacked b) f then ucast (w_gso_segs b) else 0)"

definition packets :: "wskb list \<Rightarrow> u32" where
  "packets q = (\<Sum>b\<leftarrow>q. ucast (w_gso_segs b))"

lemma tagged_simps [simp]:
  "tagged f [] = 0" "tagged f (b # q) = (if has (w_sacked b) f then ucast (w_gso_segs b) else 0) + tagged f q"
  "tagged f (p @ q) = tagged f p + tagged f q"
  by (simp_all add: tagged_def)

lemma packets_simps [simp]:
  "packets [] = 0" "packets (b # q) = ucast (w_gso_segs b) + packets q" "packets (p @ q) = packets p + packets q"
  by (simp_all add: packets_def)

text \<open>The tags (1 selectively acknowledged, 2 retransmitted, 4 lost); no segment is both acknowledged and lost.\<close>

definition tags_ok :: "wskb \<Rightarrow> bool" where
  "tags_ok b \<longleftrightarrow> w_gso_segs b \<noteq> 0 \<and> \<not> (has (w_sacked b) 1 \<and> has (w_sacked b) 4)"

definition hint_in :: "ptr option \<Rightarrow> tcp_sock \<Rightarrow> bool" where
  "hint_in h s \<longleftrightarrow> (\<forall>p. h = Some p \<longrightarrow> p \<in> w_addr ` set (sk_write_queue s))"

definition board :: "tcp_sock \<Rightarrow> bool" where
  "board s \<longleftrightarrow>
     packets_out s = packets (sk_write_queue s) \<and>
     lost_out s = tagged 4 (sk_write_queue s) \<and>
     retrans_out s = tagged 2 (sk_write_queue s) \<and>
     (if sack_ok (rx_opt s) = 0 then \<forall>b \<in> set (sk_write_queue s). \<not> has (w_sacked b) 1
      else sacked_out s = tagged 1 (sk_write_queue s) \<and> has (sack_ok (rx_opt s)) 1) \<and>
     (\<forall>b \<in> set (sk_write_queue s). tags_ok b) \<and>
     distinct (map w_addr (sk_write_queue s @ sk_send_queue s)) \<and> wq_end \<notin> w_addr ` set (sk_write_queue s @ sk_send_queue s) \<and>
     hint_in (lost_skb_hint s) s \<and> hint_in (retransmit_skb_hint s) s \<and>
     (\<forall>p. scoreboard_skb_hint s = Some p \<longrightarrow> p = wq_end \<or> p = walk_end s \<or> p \<in> w_addr ` set (sk_write_queue s))"

text \<open>What the invariant depends on.\<close>

definition score :: "tcp_sock \<Rightarrow> (wskb list \<times> wskb list) \<times> (u32 \<times> u32 \<times> u32 \<times> u32) \<times> (ptr option \<times> ptr option \<times> ptr option) \<times> u4" where
  "score s = ((sk_write_queue s, sk_send_queue s), (packets_out s, sacked_out s, lost_out s, retrans_out s),
     (lost_skb_hint s, retransmit_skb_hint s, scoreboard_skb_hint s), sack_ok (rx_opt s))"

lemma board_score: "score s' = score s \<Longrightarrow> board s' = board s"
  by (simp add: score_def board_def hint_in_def walk_end_def)

text \<open>What the rest of the connection sees; the sending side does not change it.\<close>

definition rview where
  "rview s = ((sk_state s, sk_shutdown s, sk_dead s, sk_receive_queue s, out_of_order_queue s, sk_rcvbuf s, sk_rmem_alloc s),
     (rcv_nxt s, copied_seq s, rcv_wup s, rcv_wnd s, snd_una s, snd_nxt s, write_seq s),
     (icsk_ack s, advmss s, tcp_header_len s, ucopy_done s, ucopy_len s, ucopy_current s, sk_owned s),
     (urg_data s, urg_seq s, selective_acks s, (rx_opt s)\<lparr>sack_ok := 0\<rparr>, linger2 s))"

definition quiet :: "tcp_sock \<Rightarrow> tcp_sock \<Rightarrow> bool" where
  "quiet s s' \<longleftrightarrow> score s' = score s \<and> rview s' = rview s"

definition calm :: "tcp_sock \<Rightarrow> tcp_sock \<Rightarrow> bool" where
  "calm s s' \<longleftrightarrow> (board s \<longrightarrow> board s') \<and> rview s' = rview s \<and> sk_write_queue s' = sk_write_queue s \<and>
     sk_send_queue s' = sk_send_queue s"

lemma quiet_calm: "quiet s s' \<Longrightarrow> calm s s'"
  using board_score [of s' s] by (simp add: quiet_def calm_def score_def)

lemma quiet_refl [simp]: "quiet s s"
  by (simp add: quiet_def)

lemma calm_refl [simp]: "calm s s"
  by (simp add: calm_def)

lemma quiet_trans: "quiet s s' \<Longrightarrow> quiet s' s'' \<Longrightarrow> quiet s s''"
  by (simp add: quiet_def)

lemma calm_trans: "calm s s' \<Longrightarrow> calm s' s'' \<Longrightarrow> calm s s''"
  by (auto simp: calm_def)

lemmas quiet_defs = quiet_def score_def rview_def

lemma quiet_upd [simp]:
  "quiet s (s\<lparr>snd_cwnd := a\<rparr>)" "quiet s (s\<lparr>snd_cwnd_cnt := a\<rparr>)" "quiet s (s\<lparr>snd_cwnd_stamp := a\<rparr>)" "quiet s (s\<lparr>snd_ssthresh := a\<rparr>)"
  "quiet s (s\<lparr>prior_ssthresh := a\<rparr>)" "quiet s (s\<lparr>undo_marker := a\<rparr>)" "quiet s (s\<lparr>undo_retrans := z\<rparr>)" "quiet s (s\<lparr>high_seq := a\<rparr>)"
  "quiet s (s\<lparr>bytes_acked := a\<rparr>)" "quiet s (s\<lparr>retrans_stamp := a\<rparr>)" "quiet s (s\<lparr>fackets_out := a\<rparr>)"
  "quiet s (s\<lparr>icsk_retransmits := c\<rparr>)" "quiet s (s\<lparr>frto_counter := c\<rparr>)" "quiet s (s\<lparr>frto_highmark := a\<rparr>)" "quiet s (s\<lparr>lost_cnt_hint := z\<rparr>)"
  "quiet s (s\<lparr>snd_up := a\<rparr>)" "quiet s (s\<lparr>prr_delivered := a\<rparr>)" "quiet s (s\<lparr>reordering := c\<rparr>)" "quiet s (s\<lparr>icsk_backoff := c\<rparr>)"
  "quiet s (s\<lparr>retransmit_high := a\<rparr>)" "quiet s (s\<lparr>ecn_flags := c\<rparr>)"
  by (simp_all add: quiet_defs)

section \<open>Laws of other files\<close>

text \<open>The constants and accessors of \<^verbatim>\<open>net/tcp.h\<close>.\<close>

definition tag_law :: "senv \<Rightarrow> bool" where
  "tag_law V \<longleftrightarrow>
     TCPCB_SACKED_ACKED V = 1 \<and> TCPCB_SACKED_RETRANS V = 2 \<and> TCPCB_LOST V = 4 \<and> TCPCB_TAGBITS V = 7 \<and>
     TCPCB_EVER_RETRANS V = 0x80 \<and> TCPCB_RETRANS V = 0x82 \<and>
     (\<forall>b. tcp_skb_pcount V b = ucast (w_gso_segs b)) \<and>
     (\<forall>rx. tcp_is_sack (inp V) rx \<longleftrightarrow> sack_ok rx \<noteq> 0) \<and> (\<forall>rx. tcp_is_reno V rx \<longleftrightarrow> sack_ok rx = 0) \<and>
     (\<forall>rx. tcp_is_fack V rx \<longleftrightarrow> has (sack_ok rx) 2) \<and>
     (\<forall>s. tcp_left_out V s = sacked_out s + lost_out s) \<and>
     (\<forall>s. tcp_clear_all_retrans_hints V s = s\<lparr>lost_skb_hint := None, retransmit_skb_hint := None, scoreboard_skb_hint := None\<rparr>) \<and>
     (\<forall>s. tcp_clear_retrans_hints_partial V s = s\<lparr>lost_skb_hint := None, scoreboard_skb_hint := None\<rparr>) \<and>
     (\<forall>s. tcp_packets_in_flight V s = packets_out s - (sacked_out s + lost_out s) + retrans_out s)"

text \<open>
  Congestion control modules change neither the queue nor what others see, and give windows of at least one segment.
\<close>

definition cwnd_ok :: "tcp_sock \<Rightarrow> bool" where
  "cwnd_ok s \<longleftrightarrow> snd_cwnd s \<noteq> 0 \<and> snd_ssthresh s \<noteq> 0 \<and> (icsk_ca_state s = TCP_CA_Recovery \<longrightarrow> prior_cwnd s \<noteq> 0)"

text \<open>The state of F-RTO, of the probes of the path MTU and of proportional rate reduction is not theirs.\<close>

definition probes :: "tcp_sock \<Rightarrow> u8 \<times> int \<times> u32" where
  "probes s = (frto_counter s, mtup_probe_size s, prior_cwnd s)"

definition module_law :: "senv \<Rightarrow> bool" where
  "module_law V \<longleftrightarrow>
     (\<forall>s e. quiet s (tcp_ca_event V e s) \<and> icsk_ca_state (tcp_ca_event V e s) = icsk_ca_state s \<and>
        probes (tcp_ca_event V e s) = probes s \<and> (cwnd_ok s \<longrightarrow> cwnd_ok (tcp_ca_event V e s))) \<and>
     (\<forall>s st. quiet s (tcp_set_ca_state V st s) \<and> icsk_ca_state (tcp_set_ca_state V st s) = st \<and>
        snd_cwnd (tcp_set_ca_state V st s) = snd_cwnd s \<and> snd_ssthresh (tcp_set_ca_state V st s) = snd_ssthresh s \<and>
        probes (tcp_set_ca_state V st s) = probes s) \<and>
     (\<forall>s a n. quiet s (ca_cong_avoid V a n s) \<and> icsk_ca_state (ca_cong_avoid V a n s) = icsk_ca_state s \<and>
        probes (ca_cong_avoid V a n s) = probes s \<and> (cwnd_ok s \<longrightarrow> cwnd_ok (ca_cong_avoid V a n s))) \<and>
     (\<forall>f. ca_pkts_acked V = Some f \<longrightarrow> (\<forall>n r s. quiet s (f n r s) \<and> icsk_ca_state (f n r s) = icsk_ca_state s \<and>
        probes (f n r s) = probes s \<and> (cwnd_ok s \<longrightarrow> cwnd_ok (f n r s)))) \<and>
     (\<forall>s. ca_ssthresh V s \<noteq> 0) \<and> (\<forall>f s. ca_undo_cwnd V = Some f \<longrightarrow> f s \<noteq> 0)"

definition mview where
  "mview s = (rview s, (icsk_ca_state s, snd_cwnd s, snd_ssthresh s, prior_cwnd s), sack_ok (rx_opt s) = 0, frto_counter s, mtup_probe_size s)"

lemma cwnd_ok_mview: "mview s' = mview s \<Longrightarrow> cwnd_ok s' = cwnd_ok s"
  by (simp add: mview_def cwnd_ok_def)

text \<open>
  Functions of \<^verbatim>\<open>tcp_output.c\<close>. Splitting a segment and trimming the first one keep its address and its tags; splitting adjusts the
  counters, trimming leaves this to its caller. Retransmitting tags segments and counts them.
\<close>

definition output_law :: "senv \<Rightarrow> bool" where
  "output_law V \<longleftrightarrow>
     (\<forall>s pre b q n mss err s'. board s \<and> sk_write_queue s = pre @ b # q \<and> tcp_fragment V b n mss s = (err, s') \<longrightarrow>
        board s' \<and> mview s' = mview s \<and> sack_ok (rx_opt s') = sack_ok (rx_opt s) \<and>
        (\<not> err < 0 \<longrightarrow> (\<exists>b1 b2. sk_write_queue s' = pre @ b1 # b2 # q \<and> w_addr b1 = w_addr b))) \<and>
     (\<forall>s b q n failed s'. board s \<and> sk_write_queue s = b # q \<and> tcp_trim_head V b n s = (failed, s') \<longrightarrow>
        (if failed then quiet s s'
         else \<exists>b1. quiet (s\<lparr>sk_write_queue := b1 # q\<rparr>) s' \<and> w_addr b1 = w_addr b \<and> w_sacked b1 = w_sacked b \<and>
                w_seq b1 = w_seq b + n \<and> w_end_seq b1 = w_end_seq b \<and>
                w_gso_segs b1 \<noteq> 0 \<and> w_gso_segs b1 \<le> w_gso_segs b) \<and>
        mview s' = mview s) \<and>
     (\<forall>s b. (board s \<longrightarrow> board (tcp_retransmit_skb V b s)) \<and> rview (tcp_retransmit_skb V b s) = rview s) \<and>
     (\<forall>s. board s \<longrightarrow> board (tcp_xmit_retransmit_queue V s)) \<and>
     (\<forall>s. quiet s (tcp_sync_mss V s) \<and> mview (tcp_sync_mss V s) = mview s) \<and> (\<forall>s. mview (tcp_xmit_retransmit_queue V s) = mview s) \<and> (\<forall>s. quiet s (snd (tcp_current_mss V s)))"

section \<open>Functions that leave the scoreboard alone\<close>

lemmas quiet_eqs [simp] = quiet_upd [unfolded quiet_def]

lemma moduleD:
  assumes "module_law V"
  shows "score (tcp_ca_event V e s) = score s" "rview (tcp_ca_event V e s) = rview s"
    "icsk_ca_state (tcp_ca_event V e s) = icsk_ca_state s" "cwnd_ok s \<Longrightarrow> cwnd_ok (tcp_ca_event V e s)"
    "score (tcp_set_ca_state V st s) = score s" "rview (tcp_set_ca_state V st s) = rview s"
    "icsk_ca_state (tcp_set_ca_state V st s) = st" "snd_cwnd (tcp_set_ca_state V st s) = snd_cwnd s"
    "snd_ssthresh (tcp_set_ca_state V st s) = snd_ssthresh s" "prior_cwnd (tcp_set_ca_state V st s) = prior_cwnd s"
    "ca_ssthresh V s \<noteq> 0" "ca_undo_cwnd V = Some f \<Longrightarrow> f s \<noteq> 0"
    "probes (tcp_ca_event V e s) = probes s" "probes (tcp_set_ca_state V st s) = probes s"
  using assms by (simp_all add: module_law_def quiet_def probes_def)

lemma ecn_quiet [simp]:
  "score (TCP_ECN_queue_cwr I s) = score s" "rview (TCP_ECN_queue_cwr I s) = rview s"
  "score (TCP_ECN_withdraw_cwr I s) = score s" "rview (TCP_ECN_withdraw_cwr I s) = rview s"
  by (simp_all add: TCP_ECN_queue_cwr_def TCP_ECN_withdraw_cwr_def)

lemma cwnd_quiet [simp]:
  "quiet s (tcp_moderate_cwnd V s)" "quiet s (tcp_cwnd_down V flag s)" "quiet s (tcp_undo_cwr V u s)"
  "quiet s (tcp_try_undo_dsack V s)" "quiet s (tcp_mtup_probe_failed s)"
  by (simp_all add: quiet_def tcp_moderate_cwnd_def tcp_cwnd_down_def tcp_undo_cwr_def tcp_try_undo_dsack_def Let_def)
    (simp_all add: tcp_mtup_probe_failed_def score_def rview_def)

lemma module_quiet:
  assumes "module_law V"
  shows "quiet s (tcp_complete_cwr V s)" "quiet s (snd (tcp_try_undo_recovery V s))" "quiet s (tcp_try_keep_open V s)"
    "quiet s (tcp_enter_cwr V b s)" "quiet s (tcp_try_to_open V flag s)" "quiet s (loss_ssthresh V s)"
proof -
  note [simp] = moduleD [OF assms] cwnd_quiet [unfolded quiet_def]
  show k: "quiet s (tcp_complete_cwr V s)" "quiet s (snd (tcp_try_undo_recovery V s))" "quiet s (tcp_try_keep_open V s)" for s
    by (simp_all add: quiet_def tcp_complete_cwr_def tcp_try_undo_recovery_def tcp_try_keep_open_def Let_def)
  show e: "quiet s (tcp_enter_cwr V b s)" for s b by (simp add: quiet_def tcp_enter_cwr_def Let_def)
  show "quiet s (tcp_try_to_open V flag s)"
    using k(3) e [of _ True] by (simp add: quiet_def tcp_try_to_open_def Let_def)
  show "quiet s (loss_ssthresh V s)" by (simp add: quiet_def loss_ssthresh_def Let_def)
qed

lemma rtt_quiet [simp]:
  "quiet s (tcp_valid_rtt_meas V r s)" "quiet s (tcp_ack_update_rtt V flag z s)" "quiet s (tcp_rearm_rto V s)"
proof -
  show q: "quiet s (tcp_valid_rtt_meas V r s)" for r s
    by (simp add: quiet_defs tcp_valid_rtt_meas_def tcp_set_rto_def tcp_rtt_estimator_def rtt_deviation_def Let_def)
  show "quiet s (tcp_ack_update_rtt V flag z s)"
    using q by (simp add: tcp_ack_update_rtt_def tcp_ack_saw_tstamp_def tcp_ack_no_tstamp_def)
  show "quiet s (tcp_rearm_rto V s)"
    by (simp add: quiet_defs tcp_rearm_rto_def inet_csk_clear_xmit_timer_def inet_csk_reset_xmit_timer_def Let_def)
qed

section \<open>The kind of connection\<close>

lemma has_1: "has x 1 \<longleftrightarrow> odd (x::'a::len word)"
  by (simp add: and_one_eq even_iff_mod_2_eq_zero)

lemma has_not_2 [simp]: "has (x AND NOT 2) 1 \<longleftrightarrow> has (x::u4) 1"
proof -
  have "odd (x AND NOT 2) \<longleftrightarrow> odd x" unfolding even_and_iff by simp
  then show ?thesis unfolding has_1 .
qed

lemma disable_fack_calm: "calm s (tcp_disable_fack V s)"
proof -
  have r: "rview (tcp_disable_fack V s) = rview s" "sk_write_queue (tcp_disable_fack V s) = sk_write_queue s"
    "sk_send_queue (tcp_disable_fack V s) = sk_send_queue s" by (simp_all add: tcp_disable_fack_def rview_def Let_def)
  have z: "x AND NOT 2 \<noteq> 0" if "has x 1" for x :: u4 using has_not_2 [of x] that by force
  have "board (tcp_disable_fack V s)" if "board s"
  proof (cases "sack_ok (rx_opt s) = 0")
    case True
    then show ?thesis using that by (simp add: board_def tcp_disable_fack_def Let_def hint_in_def walk_end_def)
  next
    case False
    then have "has (sack_ok (rx_opt s)) 1" using that by (simp add: board_def)
    then show ?thesis using that False z has_not_2 [of "sack_ok (rx_opt s)"] unfolding board_def tcp_disable_fack_def Let_def
      by (simp add: hint_in_def walk_end_def del: has_not_2)
  qed
  then show ?thesis using r by (simp add: calm_def)
qed

lemma update_reordering_calm: "calm s (tcp_update_reordering V n s)"
proof -
  have "calm s (tcp_disable_fack V (s\<lparr>reordering := r\<rparr>))" for r
    by (rule calm_trans [OF quiet_calm disable_fack_calm]) simp
  then show ?thesis by (simp add: tcp_update_reordering_def)
qed

lemma reno_sacked_calm: "sack_ok (rx_opt s) = 0 \<Longrightarrow> calm s (s\<lparr>sacked_out := n\<rparr>)"
  by (simp add: calm_def board_def hint_in_def walk_end_def rview_def)

lemma limit_reno_calm: "sack_ok (rx_opt s) = 0 \<Longrightarrow> calm s (snd (tcp_limit_reno_sacked s))"
  by (simp add: tcp_limit_reno_sacked_def Let_def reno_sacked_calm)

lemma check_reno_calm:
  assumes "sack_ok (rx_opt s) = 0"
  shows "calm s (tcp_check_reno_reordering V n s)"
proof -
  obtain l s1 where l: "tcp_limit_reno_sacked s = (l, s1)" by force
  then have "calm s s1" using limit_reno_calm [OF assms] by simp
  then show ?thesis using calm_trans [OF _ update_reordering_calm] by (simp add: tcp_check_reno_reordering_def l)
qed

lemma reno_calm:
  assumes "sack_ok (rx_opt s) = 0"
  shows "calm s (tcp_add_reno_sack V s)" "calm s (tcp_remove_reno_sacks V n s)" "calm s (tcp_reset_reno_sack s)"
proof -
  have c: "calm s (tcp_check_reno_reordering V n (s\<lparr>sacked_out := m\<rparr>))" for n m
    using calm_trans [OF reno_sacked_calm [OF assms] check_reno_calm] assms by simp
  show "calm s (tcp_add_reno_sack V s)" using c by (simp add: tcp_add_reno_sack_def)
  show "calm s (tcp_reset_reno_sack s)" by (simp add: tcp_reset_reno_sack_def reno_sacked_calm assms)
  show "calm s (tcp_remove_reno_sacks V n s)" using c check_reno_calm [OF assms] by (simp add: tcp_remove_reno_sacks_def)
qed

end
