(* ===== verification/Tcp_Sender_Correct.thy ===== *)
theory Tcp_Sender_Correct
  imports Tcp_Sender_Frame
begin

text \<open>
  The functions that change the tags of segments keep the scoreboard: marking segments as lost, entering the loss state, and the
  removal of acknowledged segments, which frees exactly the segments that are acknowledged as a whole.
\<close>

lemma tagD:
  assumes "tag_law V"
  shows "TCPCB_SACKED_ACKED V = 1" "TCPCB_SACKED_RETRANS V = 2" "TCPCB_LOST V = 4" "TCPCB_TAGBITS V = 7"
    "TCPCB_EVER_RETRANS V = 0x80" "TCPCB_RETRANS V = 0x82" "tcp_skb_pcount V b = ucast (w_gso_segs b)"
    "tcp_is_sack (inp V) rx \<longleftrightarrow> sack_ok rx \<noteq> 0" "tcp_is_reno V rx \<longleftrightarrow> sack_ok rx = 0" "tcp_is_fack V rx \<longleftrightarrow> has (sack_ok rx) 2"
    "tcp_packets_in_flight V s = packets_out s - (sacked_out s + lost_out s) + retrans_out s"
    "tcp_clear_all_retrans_hints V s = s\<lparr>lost_skb_hint := None, retransmit_skb_hint := None, scoreboard_skb_hint := None\<rparr>"
    "tcp_clear_retrans_hints_partial V s = s\<lparr>lost_skb_hint := None, scoreboard_skb_hint := None\<rparr>"
  using assms by (simp_all add: tag_law_def)

section \<open>Replacing a segment\<close>

lemma map_replace_none: "(\<forall>c \<in> set l. w_addr c \<noteq> a) \<Longrightarrow> map (\<lambda>c. if w_addr c = a then b else c) l = l"
  by (induction l) auto

lemma wput_split:
  assumes "distinct (map w_addr (sk_write_queue s @ sk_send_queue s))" "sk_write_queue s = pre @ b # q" "w_addr b' = w_addr b"
  shows "sk_write_queue (wput b' s) = pre @ b' # q" "sk_send_queue (wput b' s) = sk_send_queue s"
proof -
  have "\<forall>c \<in> set pre. w_addr c \<noteq> w_addr b" "\<forall>c \<in> set q. w_addr c \<noteq> w_addr b" "\<forall>c \<in> set (sk_send_queue s). w_addr c \<noteq> w_addr b"
    using assms(1,2) by (simp_all add: image_iff) metis+
  then show "sk_write_queue (wput b' s) = pre @ b' # q" "sk_send_queue (wput b' s) = sk_send_queue s"
    using assms(2,3) by (simp_all add: wput_def map_replace_none)
qed

lemma wput_sel [simp]:
  "packets_out (wput b s) = packets_out s" "sacked_out (wput b s) = sacked_out s" "lost_out (wput b s) = lost_out s"
  "retrans_out (wput b s) = retrans_out s" "lost_skb_hint (wput b s) = lost_skb_hint s"
  "retransmit_skb_hint (wput b s) = retransmit_skb_hint s" "scoreboard_skb_hint (wput b s) = scoreboard_skb_hint s"
  "rx_opt (wput b s) = rx_opt s" "rview (wput b s) = rview s" "mview (wput b s) = mview s"
  by (simp_all add: wput_def rview_def mview_def)

lemma board_distinct: "board s \<Longrightarrow> distinct (map w_addr (sk_write_queue s @ sk_send_queue s))"
  by (simp add: board_def)

text \<open>The segment \<open>b\<close> is replaced by \<open>b'\<close>, and the counters follow.\<close>

lemma board_replace:
  assumes b: "board s" "sk_write_queue s = pre @ b # q"
    and s': "sk_write_queue s' = pre @ b' # q" "sk_send_queue s' = sk_send_queue s" "w_addr b' = w_addr b" "tags_ok b'"
    and c: "packets_out s' = packets_out s - ucast (w_gso_segs b) + ucast (w_gso_segs b')"
      "lost_out s' = lost_out s - tagged 4 [b] + tagged 4 [b']" "retrans_out s' = retrans_out s - tagged 2 [b] + tagged 2 [b']"
      "sack_ok (rx_opt s') = sack_ok (rx_opt s)" "sack_ok (rx_opt s) = 0 \<Longrightarrow> \<not> has (w_sacked b') 1"
      "sack_ok (rx_opt s) \<noteq> 0 \<Longrightarrow> sacked_out s' = sacked_out s - tagged 1 [b] + tagged 1 [b']"
    and h: "hint_in (lost_skb_hint s') s" "hint_in (retransmit_skb_hint s') s" "scoreboard_skb_hint s' = scoreboard_skb_hint s"
  shows "board s'"
proof -
  have w: "w_addr ` set (sk_write_queue s') = w_addr ` set (sk_write_queue s)" using b s' by simp
  have "map w_addr (sk_write_queue s' @ sk_send_queue s') = map w_addr (sk_write_queue s @ sk_send_queue s)" using b s' by simp
  then have m: "distinct (map w_addr (sk_write_queue s' @ sk_send_queue s'))" "wq_end \<notin> w_addr ` set (sk_write_queue s' @ sk_send_queue s')"
    using b(1) w s'(2) unfolding board_def by (metis, simp add: image_Un)
  have hs: "hint_in (lost_skb_hint s') s'" "hint_in (retransmit_skb_hint s') s'" using h w by (simp_all add: hint_in_def)
  have "walk_end s' = walk_end s" using s'(2) by (simp add: walk_end_def)
  then have sc: "\<forall>p. scoreboard_skb_hint s' = Some p \<longrightarrow> p = wq_end \<or> p = walk_end s' \<or> p \<in> w_addr ` set (sk_write_queue s')"
    using b(1) h(3) w unfolding board_def by simp
  have n: "packets_out s = packets (pre @ b # q)" "lost_out s = tagged 4 (pre @ b # q)" "retrans_out s = tagged 2 (pre @ b # q)"
    using b unfolding board_def by simp_all
  have k: "if sack_ok (rx_opt s) = 0 then \<forall>c \<in> set (pre @ b # q). \<not> has (w_sacked c) 1
      else sacked_out s = tagged 1 (pre @ b # q) \<and> has (sack_ok (rx_opt s)) 1"
    using b(1) unfolding board_def b(2) by blast
  have t: "\<forall>c \<in> set (sk_write_queue s'). tags_ok c" using b s' unfolding board_def by simp
  have p: "packets_out s' = packets (sk_write_queue s')" "lost_out s' = tagged 4 (sk_write_queue s')"
    "retrans_out s' = tagged 2 (sk_write_queue s')" using c(1-3) n s'(1) by (simp_all add: algebra_simps)
  have z: "if sack_ok (rx_opt s') = 0
      then \<forall>c \<in> set (sk_write_queue s'). \<not> has (w_sacked c) 1
      else sacked_out s' = tagged 1 (sk_write_queue s') \<and> has (sack_ok (rx_opt s')) 1"
  proof (cases "sack_ok (rx_opt s) = 0")
    case True
    then show ?thesis using k c(4,5) s'(1) by (simp split: if_splits)
  next
    case False
    then show ?thesis using k c(4,6) s'(1) by (simp add: algebra_simps)
  qed
  show ?thesis unfolding board_def using p z t m hs sc by blast
qed

section \<open>Marking segments as lost\<close>

lemma has_bit:
  "has x 1 \<longleftrightarrow> bit (x::u8) 0" "has x 2 \<longleftrightarrow> bit (x::u8) 1" "has x 4 \<longleftrightarrow> bit (x::u8) 2" "has x 0x80 \<longleftrightarrow> bit (x::u8) 7"
  using and_exp_eq_0_iff_not_bit [of x 0] and_exp_eq_0_iff_not_bit [of x 1] and_exp_eq_0_iff_not_bit [of x 2]
    and_exp_eq_0_iff_not_bit [of x 7] by simp_all

lemma has_or: "has x (a OR b) \<longleftrightarrow> has x a \<or> has (x::u8) b"
  by (simp add: bit.conj_disj_distrib or_eq_0_iff)

lemma bits_mask:
  "bit (1::u8) n \<longleftrightarrow> n = 0" "bit (2::u8) n \<longleftrightarrow> n = 1" "bit (4::u8) n \<longleftrightarrow> n = 2" "bit (7::u8) n \<longleftrightarrow> n < 3" "bit (0x80::u8) n \<longleftrightarrow> n = 7"
proof -
  have e: "bit (2 ^ k :: u8) n \<longleftrightarrow> n = k" if "k < 8" for k using that by (auto simp: bit_exp_iff)
  show "bit (1::u8) n \<longleftrightarrow> n = 0" "bit (2::u8) n \<longleftrightarrow> n = 1" "bit (4::u8) n \<longleftrightarrow> n = 2" "bit (0x80::u8) n \<longleftrightarrow> n = 7"
    using e [of 0] e [of 1] e [of 2] e [of 7] by simp_all
  have "bit (mask 3 :: u8) n \<longleftrightarrow> n < 3" by (auto simp: bit_mask_iff)
  then show "bit (7::u8) n \<longleftrightarrow> n < 3" by (simp add: mask_eq_exp_minus_1)
qed

lemmas tag_bits = has_bit has_or bits_mask bit_or_iff bit_and_iff bit_not_iff possible_bit_word

lemma wget_hint:
  assumes "hint_in (Some p) s"
  shows "\<exists>h. wget p s = Some h"
proof -
  obtain b where "b \<in> set (sk_write_queue s @ sk_send_queue s)" "w_addr b = p" using assms by (auto simp: hint_in_def)
  then show ?thesis unfolding wget_def by (metis (mono_tags, lifting) find_None_iff2 not_None_eq)
qed

text \<open>Where a segment stands in the queue.\<close>

definition at_split :: "tcp_sock \<Rightarrow> wskb list \<Rightarrow> wskb \<Rightarrow> wskb list \<Rightarrow> bool" where
  "at_split s pre b q \<longleftrightarrow> board s \<and> sk_write_queue s = pre @ b # q"

lemma board_hint:
  assumes "board s" "w_addr b \<in> w_addr ` set (sk_write_queue s)"
  shows "board (s\<lparr>scoreboard_skb_hint := Some (w_addr b)\<rparr>)" "board (s\<lparr>lost_skb_hint := Some (w_addr b), lost_cnt_hint := n\<rparr>)"
    "board (s\<lparr>retransmit_skb_hint := Some (w_addr b)\<rparr>)"
  using assms by (simp_all add: board_def hint_in_def walk_end_def)

lemma verify_hint_ok:
  assumes "at_split s pre b q"
  shows "\<exists>s'. tcp_verify_retransmit_hint V b s = Some s' \<and> at_split s' pre b q \<and> mview s' = mview s \<and>
    sack_ok (rx_opt s') = sack_ok (rx_opt s) \<and> high_seq s' = high_seq s"
proof -
  have h: "hint_in (retransmit_skb_hint s) s" using assms by (simp add: at_split_def board_def)
  have "\<exists>r. (case retransmit_skb_hint s of None \<Rightarrow> Some True
      | Some p \<Rightarrow> map_option (\<lambda>h. bef V (w_seq b) (w_seq h)) (wget p s)) = Some r"
  proof (cases "retransmit_skb_hint s")
    case (Some p)
    then obtain c where "wget p s = Some c" using wget_hint h by metis
    then show ?thesis using Some by simp
  qed auto
  then obtain r where r: "(case retransmit_skb_hint s of None \<Rightarrow> Some True
      | Some p \<Rightarrow> map_option (\<lambda>h. bef V (w_seq b) (w_seq h)) (wget p s)) = Some r" by blast
  define s1 where "s1 = (if r then s\<lparr>retransmit_skb_hint := Some (w_addr b)\<rparr> else s)"
  have s1: "at_split s1 pre b q" "mview s1 = mview s" "sack_ok (rx_opt s1) = sack_ok (rx_opt s)" "high_seq s1 = high_seq s"
    using assms board_hint(3) [of s b] by (simp_all add: s1_def at_split_def mview_def rview_def)
  have "at_split (s1\<lparr>retransmit_high := x\<rparr>) pre b q" "mview (s1\<lparr>retransmit_high := x\<rparr>) = mview s1" for x
    using s1(1) board_score [of "s1\<lparr>retransmit_high := x\<rparr>" s1] by (simp_all add: at_split_def mview_def rview_def)
  then show ?thesis using s1 by (simp add: tcp_verify_retransmit_hint_def r s1_def [symmetric] Let_def)
qed

lemma add_lost_ok:
  assumes "tag_law V" "at_split s pre b q" "\<not> has (w_sacked b) 4" "\<not> has (w_sacked b) 1"
  shows "\<exists>b'. at_split (add_lost V b s) pre b' q \<and> w_addr b' = w_addr b"
proof -
  let ?b = "b\<lparr>w_sacked := w_sacked b OR 4\<rparr>"
  have s: "board s" "sk_write_queue s = pre @ b # q" using assms(2) by (simp_all add: at_split_def)
  have q: "sk_write_queue (add_lost V b s) = pre @ ?b # q" "sk_send_queue (add_lost V b s) = sk_send_queue s"
    using wput_split [of "s\<lparr>lost_out := lost_out s + tcp_skb_pcount V b\<rparr>" pre b q ?b] board_distinct [OF s(1)] s(2)
    by (simp_all add: add_lost_def tagD(3) [OF assms(1)])
  have "tags_ok b" using s by (simp add: board_def)
  then have t: "tags_ok ?b" using assms(4) by (simp add: tags_ok_def tag_bits)
  have h: "hint_in (lost_skb_hint s) s" "hint_in (retransmit_skb_hint s) s" using s by (simp_all add: board_def)
  have z: "sack_ok (rx_opt s) = 0 \<Longrightarrow> \<not> has (w_sacked ?b) 1" using assms(4) by (simp add: tag_bits)
  have "board (add_lost V b s)"
    by (rule board_replace [OF s q _ t]; (rule z)?)
      (use h assms(3,4) in \<open>simp_all add: add_lost_def tagD [OF assms(1)] tag_bits\<close>)
  then show ?thesis using q(1) by (force simp: at_split_def)
qed

lemma mark_lost_ok:
  assumes "tag_law V" "at_split s pre b q"
  shows "\<exists>s' b'. tcp_skb_mark_lost V b s = Some s' \<and> at_split s' pre b' q \<and> w_addr b' = w_addr b \<and> mview s' = mview s \<and>
      sack_ok (rx_opt s') = sack_ok (rx_opt s) \<and> high_seq s' = high_seq s" (is ?mark)
    and "\<exists>s' b'. tcp_skb_mark_lost_uncond_verify V b s = Some s' \<and> at_split s' pre b' q \<and> w_addr b' = w_addr b \<and> mview s' = mview s \<and>
      sack_ok (rx_opt s') = sack_ok (rx_opt s) \<and> high_seq s' = high_seq s" (is ?uncond)
proof -
  obtain s1 where s1: "tcp_verify_retransmit_hint V b s = Some s1" "at_split s1 pre b q" "mview s1 = mview s"
    "sack_ok (rx_opt s1) = sack_ok (rx_opt s)" "high_seq s1 = high_seq s" using verify_hint_ok [OF assms(2)] by blast
  have m: "mview (add_lost V b s1) = mview s1" "sack_ok (rx_opt (add_lost V b s1)) = sack_ok (rx_opt s1)"
    "high_seq (add_lost V b s1) = high_seq s1" by (simp_all add: add_lost_def wput_def mview_def rview_def)
  have n: "\<not> has (w_sacked b) (TCPCB_LOST V OR TCPCB_SACKED_ACKED V) \<longleftrightarrow> \<not> has (w_sacked b) 4 \<and> \<not> has (w_sacked b) 1"
    by (simp only: tagD [OF assms(1)] has_or) blast
  show ?mark ?uncond
    using s1 m n add_lost_ok [OF assms(1) s1(2)] assms(2)
    by (auto simp: tcp_skb_mark_lost_def tcp_skb_mark_lost_uncond_verify_def simp del: de_Morgan_disj)
qed

lemma board_walk_end: "board s \<Longrightarrow> board (s\<lparr>scoreboard_skb_hint := Some (walk_end s)\<rparr>)"
  by (simp add: board_def hint_in_def walk_end_def)

lemma mview_hint [simp]:
  "mview (s\<lparr>scoreboard_skb_hint := h\<rparr>) = mview s" "mview (s\<lparr>lost_skb_hint := h\<rparr>) = mview s" "mview (s\<lparr>lost_cnt_hint := n\<rparr>) = mview s"
  by (simp_all add: mview_def rview_def)

lemma timeout_loop_ok:
  assumes "tag_law V"
  shows "board s \<Longrightarrow> sk_write_queue s = pre @ q \<Longrightarrow> \<exists>s'. timeout_loop V q s = Some s' \<and> board s' \<and> mview s' = mview s"
proof (induction q arbitrary: pre s)
  case Nil
  then show ?case using board_walk_end by simp
next
  case (Cons b q)
  have m: "w_addr b \<in> w_addr ` set (sk_write_queue s)" using Cons.prems by simp
  obtain s1 b1 where s1: "tcp_skb_mark_lost V b s = Some s1" "at_split s1 pre b1 q" "mview s1 = mview s"
    using mark_lost_ok(1) [OF assms, of s pre b q] Cons.prems by (auto simp: at_split_def)
  then have "board s1" "sk_write_queue s1 = (pre @ [b1]) @ q" by (simp_all add: at_split_def)
  then obtain s2 where "timeout_loop V q s1 = Some s2" "board s2" "mview s2 = mview s1" using Cons.IH by blast
  then show ?case using s1 board_hint(1) [OF Cons.prems(1) m] by simp
qed

lemma wq_from_ok:
  assumes "board s" "p = wq_end \<or> p = walk_end s \<or> p \<in> w_addr ` set (sk_write_queue s)"
  shows "\<exists>pre q. wq_from p s = Some q \<and> sk_write_queue s = pre @ q"
proof (cases "p = walk_end s \<or> p = wq_end")
  case True
  then show ?thesis by (auto simp: wq_from_def)
next
  case False
  then have "wq_from p s = Some (dropWhile (\<lambda>b. w_addr b \<noteq> p) (sk_write_queue s))" using assms(2) by (simp add: wq_from_def)
  moreover have "sk_write_queue s = takeWhile (\<lambda>b. w_addr b \<noteq> p) (sk_write_queue s) @ dropWhile (\<lambda>b. w_addr b \<noteq> p) (sk_write_queue s)"
    by simp
  ultimately show ?thesis by blast
qed

lemma wq_from_at:
  assumes "board s" "sk_write_queue s = pre @ b # q"
  shows "wq_from (w_addr b) s = Some (b # q)" "wget (w_addr b) s = Some b"
proof -
  have d: "distinct (map w_addr (pre @ b # q @ sk_send_queue s))" "wq_end \<noteq> w_addr b" using assms by (simp_all add: board_def)
  have n: "w_addr b \<notin> w_addr ` set pre" "w_addr b \<notin> w_addr ` set (sk_send_queue s)" using d(1) by simp_all
  then have n1: "\<forall>c \<in> set pre. w_addr c \<noteq> w_addr b" by (metis imageI)
  have "walk_end s \<noteq> w_addr b" using d(2) n(2) by (auto simp: walk_end_def split: list.splits)
  moreover have "dropWhile (\<lambda>c. w_addr c \<noteq> w_addr b) (pre @ b # q) = b # q" using n1 by (simp add: dropWhile_append2)
  ultimately show "wq_from (w_addr b) s = Some (b # q)" using d(2) assms(2) by (simp add: wq_from_def)
  have "find (\<lambda>c. w_addr c = w_addr b) (l @ b # r) = Some b" if "\<forall>c \<in> set l. w_addr c \<noteq> w_addr b" for l r
    using that by (induction l) simp_all
  then show "wget (w_addr b) s = Some b" using n1 assms(2) by (simp add: wget_def)
qed

lemma timeout_skbs_ok:
  assumes "tag_law V" "board s"
  shows "\<exists>s'. tcp_timeout_skbs V s = Some s' \<and> board s' \<and> mview s' = mview s"
proof -
  have ht: "\<exists>t. tcp_head_timedout V s = Some t"
  proof (cases "packets_out s = 0")
    case False
    then have "sk_write_queue s \<noteq> []" using assms(2) by (auto simp: board_def)
    then show ?thesis by (auto simp: tcp_head_timedout_def write_head_def split: list.splits)
  qed (auto simp: tcp_head_timedout_def)
  have "\<exists>pre q. (case scoreboard_skb_hint s of None \<Rightarrow> Some (sk_write_queue s) | Some p \<Rightarrow> wq_from p s) = Some q \<and> sk_write_queue s = pre @ q"
  proof (cases "scoreboard_skb_hint s")
    case (Some p)
    then have "p = wq_end \<or> p = walk_end s \<or> p \<in> w_addr ` set (sk_write_queue s)" using assms(2) by (simp add: board_def)
    then show ?thesis using wq_from_ok [OF assms(2)] Some by simp
  qed simp
  then obtain pre q where q: "(case scoreboard_skb_hint s of None \<Rightarrow> Some (sk_write_queue s) | Some p \<Rightarrow> wq_from p s) = Some q"
    "sk_write_queue s = pre @ q" by blast
  obtain s' where "timeout_loop V q s = Some s'" "board s'" "mview s' = mview s"
    using timeout_loop_ok [OF assms q(2)] by blast
  then show ?thesis using ht assms(2) q(1) by (auto simp: tcp_timeout_skbs_def)
qed

lemma outputD:
  assumes "output_law V" "board s"
  shows "\<And>pre b q n mss err s'. sk_write_queue s = pre @ b # q \<Longrightarrow> tcp_fragment V b n mss s = (err, s') \<Longrightarrow>
      board s' \<and> mview s' = mview s \<and> sack_ok (rx_opt s') = sack_ok (rx_opt s) \<and>
      (\<not> err < 0 \<longrightarrow> (\<exists>b1 b2. sk_write_queue s' = pre @ b1 # b2 # q \<and> w_addr b1 = w_addr b))"
    and "\<And>b q n failed s'. sk_write_queue s = b # q \<Longrightarrow> tcp_trim_head V b n s = (failed, s') \<Longrightarrow>
      (if failed then quiet s s'
       else \<exists>b1. quiet (s\<lparr>sk_write_queue := b1 # q\<rparr>) s' \<and> w_addr b1 = w_addr b \<and> w_sacked b1 = w_sacked b \<and>
              w_seq b1 = w_seq b + n \<and> w_end_seq b1 = w_end_seq b \<and> w_gso_segs b1 \<noteq> 0 \<and> w_gso_segs b1 \<le> w_gso_segs b) \<and>
      mview s' = mview s"
    and "board (tcp_retransmit_skb V b s)" "rview (tcp_retransmit_skb V b s) = rview s"
    and "board (tcp_xmit_retransmit_queue V s)" "mview (tcp_xmit_retransmit_queue V s) = mview s"
proof -
  note law = assms(1) [unfolded output_law_def]
  show "board s' \<and> mview s' = mview s \<and> sack_ok (rx_opt s') = sack_ok (rx_opt s) \<and>
      (\<not> err < 0 \<longrightarrow> (\<exists>b1 b2. sk_write_queue s' = pre @ b1 # b2 # q \<and> w_addr b1 = w_addr b))"
    if "sk_write_queue s = pre @ b # q" "tcp_fragment V b n mss s = (err, s')" for pre b q n mss err s'
    using conjunct1 [OF law, rule_format, of s pre b q n mss err s'] that assms(2) by blast
  show "(if failed then quiet s s'
       else \<exists>b1. quiet (s\<lparr>sk_write_queue := b1 # q\<rparr>) s' \<and> w_addr b1 = w_addr b \<and> w_sacked b1 = w_sacked b \<and>
              w_seq b1 = w_seq b + n \<and> w_end_seq b1 = w_end_seq b \<and> w_gso_segs b1 \<noteq> 0 \<and> w_gso_segs b1 \<le> w_gso_segs b) \<and>
      mview s' = mview s"
    if "sk_write_queue s = b # q" "tcp_trim_head V b n s = (failed, s')" for b q n failed s'
    using conjunct1 [OF conjunct2 [OF law], rule_format, of s b q n failed s'] that assms(2) by blast
  show "board (tcp_retransmit_skb V b s)" "rview (tcp_retransmit_skb V b s) = rview s"
    "board (tcp_xmit_retransmit_queue V s)" "mview (tcp_xmit_retransmit_queue V s) = mview s"
    using law assms(2) unfolding calm_def by blast+
qed

lemma segs_pos: "w \<noteq> 0 \<Longrightarrow> 0 < uint (ucast (w::u16) :: u32)"
proof -
  assume "w \<noteq> 0"
  moreover have "uint (ucast w :: u32) = uint w" by (rule uint_up_ucast) (simp add: is_up)
  ultimately show ?thesis using uint_ge_0 [of w] uint_0_iff [of w] by linarith
qed

text \<open>After a split the walk stops at the second part: it has counted enough packets.\<close>

lemma mark_head_stop:
  assumes "tag_law V" "board s" "sk_write_queue s = pre @ b # q" "is_fack V s \<or> is_reno V s"
  shows "mark_head_loop V n m n (b # q) s = Some (s\<lparr>lost_skb_hint := Some (w_addr b), lost_cnt_hint := n\<rparr>)"
proof -
  have "tags_ok b" using assms by (simp add: board_def)
  then have "0 < uint (ucast (w_gso_segs b) :: u32)" by (simp add: tags_ok_def segs_pos)
  then show ?thesis using assms(4) by (simp add: mark_head_loop.simps [of V n m n] tagD [OF assms(1)] Let_def)
qed

lemma mark_head_loop_ok:
  assumes law: "tag_law V" "output_law V"
  shows "board s \<Longrightarrow> sk_write_queue s = pre @ q \<Longrightarrow>
    \<exists>s'. mark_head_loop V n m cnt q s = Some s' \<and> board s' \<and> mview s' = mview s"
proof (induction q arbitrary: pre s cnt)
  case Nil
  then show ?case by (simp add: mark_head_loop.simps)
next
  case (Cons b q)
  define s1 where "s1 = s\<lparr>lost_skb_hint := Some (w_addr b), lost_cnt_hint := cnt\<rparr>"
  have s1: "board s1" "sk_write_queue s1 = pre @ b # q" "mview s1 = mview s" "rx_opt s1 = rx_opt s" "high_seq s1 = high_seq s"
    using Cons.prems board_hint(2) [of s b cnt] by (simp_all add: s1_def)
  define cnt1 where "cnt1 = (if is_fack V s1 \<or> is_reno V s1 \<or> has (w_sacked b) (TCPCB_SACKED_ACKED V)
      then cnt + uint (tcp_skb_pcount V b) else cnt)"
  obtain err s2 where f: "tcp_fragment V b (word_of_int ((n - cnt) * uint (w_gso_size b))) (ucast (w_gso_size b)) s1 = (err, s2)" by force
  note frag = outputD(1) [OF law(2) s1(1,2) f]
  have split_case: "\<exists>s'. (do { b2 \<leftarrow> wget (w_addr b) s2; q2 \<leftarrow> wq_from (w_addr b) s2; s3 \<leftarrow> tcp_skb_mark_lost V b2 s2;
        if m then Some s3 else mark_head_loop V n m n (tl q2) s3 }) = Some s' \<and> board s' \<and> mview s' = mview s"
    if err: "\<not> err < 0" and fr: "is_fack V s1 \<or> is_reno V s1"
  proof -
    obtain b1 b2 where q2: "sk_write_queue s2 = pre @ b1 # b2 # q" "w_addr b1 = w_addr b" using frag err by blast
    obtain s3 b3 where s3: "tcp_skb_mark_lost V b1 s2 = Some s3" "at_split s3 pre b3 (b2 # q)" "mview s3 = mview s2"
      "sack_ok (rx_opt s3) = sack_ok (rx_opt s2)"
      using mark_lost_ok(1) [OF law(1), of s2 pre b1 "b2 # q"] frag q2 by (auto simp: at_split_def)
    have "is_fack V s3 \<or> is_reno V s3" using fr s3(4) frag by (simp add: tagD [OF law(1)])
    moreover have k: "board s3" "sk_write_queue s3 = (pre @ [b3]) @ b2 # q" using s3(2) by (simp_all add: at_split_def)
    ultimately have "mark_head_loop V n m n (b2 # q) s3 = Some (s3\<lparr>lost_skb_hint := Some (w_addr b2), lost_cnt_hint := n\<rparr>)"
      using mark_head_stop [OF law(1)] by blast
    moreover have "board (s3\<lparr>lost_skb_hint := Some (w_addr b2), lost_cnt_hint := n\<rparr>)" using board_hint(2) [OF k(1), of b2 n] k(2) by simp
    moreover have "wget (w_addr b) s2 = Some b1" "wq_from (w_addr b) s2 = Some (b1 # b2 # q)"
      using wq_from_at [of s2 pre b1] frag q2 by simp_all
    ultimately show ?thesis using s3 s1(3) frag k(1) by auto
  qed
  obtain s4 b4 where s4: "tcp_skb_mark_lost V b s1 = Some s4" "at_split s4 pre b4 q" "mview s4 = mview s1"
    using mark_lost_ok(1) [OF law(1), of s1 pre b q] s1 by (auto simp: at_split_def)
  then have k: "board s4" "sk_write_queue s4 = (pre @ [b4]) @ q" by (simp_all add: at_split_def)
  then obtain s5 where s5: "mark_head_loop V n m cnt1 q s4 = Some s5" "board s5" "mview s5 = mview s4" using Cons.IH by blast
  have "is_fack V s1 \<or> is_reno V s1" if "\<not> (is_sack V s1 \<and> \<not> is_fack V s1)" using that by (simp add: tagD [OF law(1)]) blast
  then show ?case
    using split_case s4 s5 k s1 frag unfolding mark_head_loop.simps [of V n m cnt] list.case Let_def s1_def [symmetric] cnt1_def [symmetric] f
    by auto
qed

lemma mark_head_lost_ok:
  assumes law: "tag_law V" "output_law V" and s: "board s"
  shows "\<exists>s'. tcp_mark_head_lost V n m s = Some s' \<and> board s' \<and> mview s' = mview s"
proof (cases "lost_skb_hint s")
  case None
  then show ?thesis using mark_head_loop_ok [OF law s, of "[]"] by (simp add: tcp_mark_head_lost_def)
next
  case (Some p)
  then have "p \<in> w_addr ` set (sk_write_queue s)" using s by (simp add: board_def hint_in_def)
  then obtain pre q where q: "wq_from p s = Some q" "sk_write_queue s = pre @ q" using wq_from_ok [OF s] by blast
  then show ?thesis using mark_head_loop_ok [OF law s q(2), of n m "lost_cnt_hint s"] Some s by (auto simp: tcp_mark_head_lost_def)
qed

lemma update_scoreboard_ok:
  assumes law: "tag_law V" "output_law V" and s: "board s"
  shows "\<exists>s'. tcp_update_scoreboard V fast s = Some s' \<and> board s' \<and> mview s' = mview s"
proof -
  have "\<exists>s1. (if is_reno V s then tcp_mark_head_lost V 1 True s
            else if is_fack V s then
              let lost = sint (fackets_out s - ucast (reordering s)) in tcp_mark_head_lost V (if lost \<le> 0 then 1 else lost) False s
            else let sacked_upto = sint (sacked_out s - ucast (reordering s))
                 in if 0 \<le> sacked_upto then tcp_mark_head_lost V sacked_upto False s
                    else if fast then tcp_mark_head_lost V 1 True s else Some s) = Some s1 \<and> board s1 \<and> mview s1 = mview s"
    using mark_head_lost_ok [OF law s] s by (simp add: Let_def)
  then obtain s1 where s1: "(if is_reno V s then tcp_mark_head_lost V 1 True s
            else if is_fack V s then
              let lost = sint (fackets_out s - ucast (reordering s)) in tcp_mark_head_lost V (if lost \<le> 0 then 1 else lost) False s
            else let sacked_upto = sint (sacked_out s - ucast (reordering s))
                 in if 0 \<le> sacked_upto then tcp_mark_head_lost V sacked_upto False s
                    else if fast then tcp_mark_head_lost V 1 True s else Some s) = Some s1" "board s1" "mview s1 = mview s" by blast
  obtain s2 where "tcp_timeout_skbs V s1 = Some s2" "board s2" "mview s2 = mview s1" using timeout_skbs_ok [OF law(1) s1(2)] by blast
  then show ?thesis using s1(3) unfolding tcp_update_scoreboard_def s1(1) by simp
qed

section \<open>The loss state\<close>

definition lost_tag :: "bool \<Rightarrow> wskb \<Rightarrow> wskb" where
  "lost_tag how b = b\<lparr>w_sacked := (let t = w_sacked b AND (NOT 7 OR 1) in if \<not> has t 1 \<or> how then (t AND NOT 1) OR 4 else t)\<rparr>"

lemma lost_tag_simps [simp]:
  "w_addr (lost_tag how b) = w_addr b" "w_gso_segs (lost_tag how b) = w_gso_segs b" "w_seq (lost_tag how b) = w_seq b"
  "w_end_seq (lost_tag how b) = w_end_seq b"
  "has (w_sacked (lost_tag how b)) 1 \<longleftrightarrow> has (w_sacked b) 1 \<and> \<not> how" "\<not> has (w_sacked (lost_tag how b)) 2"
  "has (w_sacked (lost_tag how b)) 4 \<longleftrightarrow> \<not> has (w_sacked b) 1 \<or> how"
proof -
  show "has (w_sacked (lost_tag how b)) 1 \<longleftrightarrow> has (w_sacked b) 1 \<and> \<not> how" by (simp add: lost_tag_def Let_def tag_bits) 
  show "\<not> has (w_sacked (lost_tag how b)) 2" by (simp add: lost_tag_def Let_def tag_bits)
  show "has (w_sacked (lost_tag how b)) 4 \<longleftrightarrow> \<not> has (w_sacked b) 1 \<or> how" by (simp add: lost_tag_def Let_def tag_bits)
qed (simp_all add: lost_tag_def)

lemma loss_loop_eq:
  assumes law: "tag_law V"
  shows "distinct (map w_addr (sk_write_queue s @ sk_send_queue s)) \<Longrightarrow> sk_write_queue s = pre @ q \<Longrightarrow>
    sk_write_queue (loss_loop V how q s) = pre @ map (lost_tag how) q \<and>
    lost_out (loss_loop V how q s) = lost_out s + tagged 4 (map (lost_tag how) q) \<and>
    score ((loss_loop V how q s)\<lparr>sk_write_queue := [], lost_out := 0\<rparr>) = score (s\<lparr>sk_write_queue := [], lost_out := 0\<rparr>) \<and>
    mview (loss_loop V how q s) = mview s"
proof (induction q arbitrary: pre s)
  case Nil
  then show ?case by simp
next
  case (Cons b q)
  define s1 where "s1 = (if has (w_sacked b) (TCPCB_RETRANS V) then s\<lparr>undo_marker := 0\<rparr> else s)"
  define s2 where "s2 = (if has (w_sacked (lost_tag how b)) 4
      then s1\<lparr>lost_out := lost_out s1 + ucast (w_gso_segs b), retransmit_high := w_end_seq b\<rparr> else s1)"
  have e: "loss_loop V how (b # q) s = loss_loop V how q (wput (lost_tag how b) s2)"
    by (simp add: s2_def s1_def Let_def lost_tag_def tagD [OF law] tag_bits)
  have "sk_write_queue s2 = sk_write_queue s" "sk_send_queue s2 = sk_send_queue s" by (simp_all add: s2_def s1_def)
  then have d: "distinct (map w_addr (sk_write_queue s2 @ sk_send_queue s2))" "sk_write_queue s2 = pre @ b # q"
    using Cons.prems by metis+
  note w = wput_split [OF d, of "lost_tag how b", simplified]
  have f: "lost_out s2 = lost_out s + tagged 4 [lost_tag how b]" "mview s2 = mview s"
    "score (s2\<lparr>sk_write_queue := [], lost_out := 0\<rparr>) = score (s\<lparr>sk_write_queue := [], lost_out := 0\<rparr>)"
    by (simp_all add: s2_def s1_def mview_def rview_def score_def)
  have "distinct (map w_addr (sk_write_queue (wput (lost_tag how b) s2) @ sk_send_queue (wput (lost_tag how b) s2)))"
    "sk_write_queue (wput (lost_tag how b) s2) = (pre @ [lost_tag how b]) @ q"
    using d w by simp_all
  note ih = Cons.IH [OF this]
  have "score ((wput (lost_tag how b) s2)\<lparr>sk_write_queue := [], lost_out := 0\<rparr>) = score (s2\<lparr>sk_write_queue := [], lost_out := 0\<rparr>)"
    using w(2) by (simp add: score_def)
  then show ?case using ih f unfolding e by (simp add: algebra_simps)
qed

lemma packets_lost_tag:
  "packets (map (lost_tag how) q) = packets q" "tagged 2 (map (lost_tag how) q) = 0"
  "tagged 1 (map (lost_tag how) q) + tagged 4 (map (lost_tag how) q) = packets q"
  "tagged 1 (map (lost_tag True) q) = 0" "tagged 1 (map (lost_tag False) q) = tagged 1 q"
proof -
  show "packets (map (lost_tag how) q) = packets q" "tagged 2 (map (lost_tag how) q) = 0"
    "tagged 1 (map (lost_tag True) q) = 0" "tagged 1 (map (lost_tag False) q) = tagged 1 q" by (induction q) simp_all
  show "tagged 1 (map (lost_tag how) q) + tagged 4 (map (lost_tag how) q) = packets q"
    by (induction q; cases how) (simp_all add: algebra_simps)
qed

lemma enter_loss_ok:
  fixes how :: bool
  assumes law: "tag_law V" "module_law V" "output_law V" and s: "board s"
  defines "s' \<equiv> tcp_enter_loss V how s"
  shows "board s'" "rview s' = rview s" "icsk_ca_state s' = TCP_CA_Loss" "snd_cwnd s' = 1"
    "sk_write_queue s' = map (lost_tag how) (sk_write_queue s)" "tcp_packets_in_flight V s' = 0"
    "sk_send_queue s' = sk_send_queue s"
proof -
  note [simp] = moduleD [OF law(2)]
  define s5 where "s5 = loss_reset V how s"
  define s6 where "s6 = loss_loop V how (sk_write_queue s5) s5"
  define n where "n = (if sack_ok (rx_opt s) = 0 \<or> how then 0 else sacked_out s)"
  have l: "score (loss_ssthresh V s) = score s" "rview (loss_ssthresh V s) = rview s" using module_quiet(6) [OF law(2)] by (simp_all add: quiet_def)
  have s5: "score s5 = ((sk_write_queue s, sk_send_queue s), (packets_out s, n, 0, 0), (None, None, None), sack_ok (rx_opt s))"
    "rview s5 = rview s" "snd_cwnd s5 = 1"
    using l by (simp_all add: s5_def loss_reset_def n_def Let_def tcp_clear_retrans_partial_def tcp_reset_reno_sack_def
        score_def rview_def tagD [OF law(1)])
  then have q5: "sk_write_queue s5 = sk_write_queue s" "sk_send_queue s5 = sk_send_queue s" "lost_out s5 = 0" by (simp_all add: score_def)
  have d: "distinct (map w_addr (sk_write_queue s5 @ sk_send_queue s5))" using board_distinct [OF s] q5 by metis
  note loop = loss_loop_eq [OF law(1) d, of "[]" "sk_write_queue s5" how, folded s6_def, simplified]
  let ?q = "map (lost_tag how) (sk_write_queue s)"
  have s6: "score s6 = ((?q, sk_send_queue s), (packets_out s, n, tagged 4 ?q, 0), (None, None, None), sack_ok (rx_opt s))" "rview s6 = rview s" "snd_cwnd s6 = 1"
    using loop s5 q5 by (simp_all add: score_def mview_def)
  define s7 where "s7 = tcp_set_ca_state V TCP_CA_Loss (s6\<lparr>reordering := ucast (min (ucast (reordering s6)) (sysctl_tcp_reordering V))\<rparr>)"
  have e: "s' = (TCP_ECN_queue_cwr (inp V) (s7\<lparr>high_seq := snd_nxt s7\<rparr>))\<lparr>frto_counter := 0\<rparr>"
    unfolding s'_def tcp_enter_loss_def s7_def s6_def s5_def Let_def by (rule refl)
  have s7: "score s7 = score s6" "rview s7 = rview s6" "snd_cwnd s7 = snd_cwnd s6" "icsk_ca_state s7 = TCP_CA_Loss" by (simp_all add: s7_def)
  have s': "score s' = score s6" "rview s' = rview s" using s6 s7 by (simp_all add: e)
  then show "rview s' = rview s" "sk_write_queue s' = ?q" using s6 by (simp_all add: score_def)
  show "icsk_ca_state s' = TCP_CA_Loss" using s7 by (simp add: e TCP_ECN_queue_cwr_def)
  have k1: "tagged 1 ?q = n" if "sack_ok (rx_opt s) \<noteq> 0" using that s packets_lost_tag(4,5) by (cases how) (simp_all add: n_def board_def)
  have k0: "\<forall>b \<in> set ?q. \<not> has (w_sacked b) 1" if "\<forall>b \<in> set (sk_write_queue s). \<not> has (w_sacked b) 1" using that lost_tag_simps(5) unfolding set_map by blast
  have k2: "\<forall>b \<in> set ?q. \<not> has (w_sacked b) 1" "n = 0" if "sack_ok (rx_opt s) = 0" using that s k0 by (simp_all add: n_def board_def)
  have k3: "\<forall>b \<in> set ?q. tags_ok b" using s by (auto simp: tags_ok_def board_def)
  have k4: "map w_addr (?q @ sk_send_queue s) = map w_addr (sk_write_queue s @ sk_send_queue s)" by simp
  then have k5: "distinct (map w_addr (?q @ sk_send_queue s))" using board_distinct [OF s] by argo
  have k6: "wq_end \<notin> w_addr ` set (?q @ sk_send_queue s)" using s k4 unfolding board_def by (metis list.set_map)
  have k7: "packets_out s = packets ?q" "tagged 2 ?q = 0" using s packets_lost_tag by (simp_all add: board_def)
  have sel: "sk_write_queue s' = ?q" "sk_send_queue s' = sk_send_queue s" "packets_out s' = packets_out s" "sacked_out s' = n"
    "lost_out s' = tagged 4 ?q" "retrans_out s' = 0" "lost_skb_hint s' = None" "retransmit_skb_hint s' = None"
    "scoreboard_skb_hint s' = None" "sack_ok (rx_opt s') = sack_ok (rx_opt s)" using s'(1) s6(1) by (simp_all add: score_def)
  have k8: "has (sack_ok (rx_opt s)) 1" if "sack_ok (rx_opt s) \<noteq> 0" using that s by (simp add: board_def)
  show "board s'" unfolding board_def sel using k1 k2 k3 k5 k6 k7 k8 by (simp add: hint_in_def del: map_append set_map set_append)
  have "n + tagged 4 ?q = packets_out s"
  proof (cases "sack_ok (rx_opt s) = 0")
    case True
    have "tagged 1 q = 0" if "\<forall>b \<in> set q. \<not> has (w_sacked b) 1" for q using that by (induction q) auto
    then show ?thesis using k2 [OF True] k7 packets_lost_tag(1,3) [of how "sk_write_queue s"] by simp
  next
    case False
    then show ?thesis using k1 k7 packets_lost_tag(1,3) [of how "sk_write_queue s"] by simp
  qed
  then show "tcp_packets_in_flight V s' = 0" using sel by (simp add: tagD [OF law(1)])
  show "sk_send_queue s' = sk_send_queue s" by (rule sel(2))
  show "snd_cwnd s' = 1" using s6(3) s7(3) by (simp add: e TCP_ECN_queue_cwr_def)
qed

section \<open>Removing acknowledged segments\<close>

lemma has_82: "has (x::u8) 0x82 \<longleftrightarrow> has x 2 \<or> has x 0x80"
  using has_or [of x 2 "0x80"] by simp

lemma count_acked_sel:
  assumes "tag_law V" "count_acked V b t n (c, s) = (c1, s1)"
  shows "retrans_out s1 = (if has t 2 then retrans_out s - n else retrans_out s)"
    "sacked_out s1 = (if has t 1 then sacked_out s - n else sacked_out s)"
    "lost_out s1 = (if has t 4 then lost_out s - n else lost_out s)" "packets_out s1 = packets_out s - n"
    "sk_write_queue s1 = sk_write_queue s" "sk_send_queue s1 = sk_send_queue s" "rx_opt s1 = rx_opt s" "mview s1 = mview s"
    "lost_skb_hint s1 = lost_skb_hint s" "retransmit_skb_hint s1 = retransmit_skb_hint s" "scoreboard_skb_hint s1 = scoreboard_skb_hint s"
  using assms(2) by (auto simp: count_acked_def Let_def tagD [OF assms(1)] has_82 mview_def rview_def)

lemma free_acked_sel:
  "sk_write_queue (free_acked b s) = tl (sk_write_queue s)" "sk_send_queue (free_acked b s) = sk_send_queue s"
  "packets_out (free_acked b s) = packets_out s" "sacked_out (free_acked b s) = sacked_out s" "lost_out (free_acked b s) = lost_out s"
  "retrans_out (free_acked b s) = retrans_out s" "rx_opt (free_acked b s) = rx_opt s" "mview (free_acked b s) = mview s"
  "lost_skb_hint (free_acked b s) = (if lost_skb_hint s = Some (w_addr b) then None else lost_skb_hint s)"
  "retransmit_skb_hint (free_acked b s) = (if retransmit_skb_hint s = Some (w_addr b) then None else retransmit_skb_hint s)"
  "scoreboard_skb_hint (free_acked b s) = None"
  by (simp_all add: free_acked_def sk_wmem_free_skb_def sk_mem_uncharge_def Let_def mview_def rview_def)

lemma free_head_ok:
  assumes "tag_law V" "board s" "sk_write_queue s = b # q" "count_acked V b (w_sacked b) (tcp_skb_pcount V b) (c, s) = (c1, s1)"
  shows "board (free_acked b s1)" "sk_write_queue (free_acked b s1) = q" "mview (free_acked b s1) = mview s"
proof -
  note sel = count_acked_sel [OF assms(1,4), unfolded tagD(7) [OF assms(1)]]
  show q: "sk_write_queue (free_acked b s1) = q" "mview (free_acked b s1) = mview s" using sel assms(3) by (simp_all add: free_acked_sel)
  have hk: "hint_in (if k = Some (w_addr b) then None else k) (free_acked b s1)" if "hint_in k s" for k
    using that q(1) assms(3) by (auto simp: hint_in_def split: if_splits)
  have "hint_in (lost_skb_hint s) s" "hint_in (retransmit_skb_hint s) s" using assms(2) by (simp_all add: board_def)
  then have h: "hint_in (lost_skb_hint (free_acked b s1)) (free_acked b s1)" "hint_in (retransmit_skb_hint (free_acked b s1)) (free_acked b s1)"
    unfolding free_acked_sel(9,10) sel(9,10) by (blast intro: hk)+
  have c: "packets_out (free_acked b s1) = packets q" "lost_out (free_acked b s1) = tagged 4 q" "retrans_out (free_acked b s1) = tagged 2 q"
    "sack_ok (rx_opt s) \<noteq> 0 \<Longrightarrow> sacked_out (free_acked b s1) = tagged 1 q"
    unfolding free_acked_sel sel(1-4) using assms(2,3) by (simp_all add: board_def)
  have r: "rx_opt (free_acked b s1) = rx_opt s" "sk_send_queue (free_acked b s1) = sk_send_queue s" "scoreboard_skb_hint (free_acked b s1) = None"
    using sel by (simp_all add: free_acked_sel)
  show "board (free_acked b s1)"
    using assms(2,3) c unfolding board_def [of "free_acked b s1"] q(1) r
    by (simp add: board_def h)
qed

text \<open>A segment that is acknowledged in part is trimmed.\<close>

lemma count_part_ok:
  assumes law: "tag_law V" and s: "board s" "sk_write_queue s = b # q"
    and b1: "w_addr b1 = w_addr b" "w_sacked b1 = w_sacked b" "w_gso_segs b1 \<noteq> 0" and t: "quiet (s\<lparr>sk_write_queue := b1 # q\<rparr>) s1"
    and c: "count_acked V b1 (w_sacked b) (ucast (w_gso_segs b) - ucast (w_gso_segs b1)) (c, s1) = (c2, s2)"
  shows "board s2"
proof -
  note sel = count_acked_sel [OF law c]
  have q: "sk_write_queue s1 = b1 # q" "sk_send_queue s1 = sk_send_queue s" "packets_out s1 = packets_out s" "sacked_out s1 = sacked_out s"
    "lost_out s1 = lost_out s" "retrans_out s1 = retrans_out s" "lost_skb_hint s1 = lost_skb_hint s"
    "retransmit_skb_hint s1 = retransmit_skb_hint s" "scoreboard_skb_hint s1 = scoreboard_skb_hint s"
    "sack_ok (rx_opt s1) = sack_ok (rx_opt s)" using t by (simp_all add: quiet_def score_def)
  have "tags_ok b" "sack_ok (rx_opt s) = 0 \<Longrightarrow> \<not> has (w_sacked b) 1" using s by (simp_all add: board_def)
  then have k: "tags_ok b1" "sack_ok (rx_opt s) = 0 \<Longrightarrow> \<not> has (w_sacked b1) 1" using b1 by (simp_all add: tags_ok_def)
  have h: "hint_in (lost_skb_hint s) s" "hint_in (retransmit_skb_hint s) s" using s(1) by (simp_all add: board_def)
  show ?thesis
    by (rule board_replace [OF s(1), of "[]" b q s2 b1, OF _ _ _ b1(1) k(1) _ _ _ _ k(2)])
      (use s(2) sel q h b1(2) in \<open>simp_all add: algebra_simps\<close>)
qed

end
