(* ===== verification/Tcp_Sender_Example.thy ===== *)
theory Tcp_Sender_Example
  imports Tcp_Sender_Correct Tcp_Input_Example
begin

text \<open>
  A concrete environment of the sending side: the tags of \<^verbatim>\<open>net/tcp.h\<close>, a congestion control module that halves the
  window, no memory to split a segment; and a connection with three segments in flight, the second of them sacked.
\<close>

definition trim0 :: "wskb \<Rightarrow> u32 \<Rightarrow> tcp_sock \<Rightarrow> bool \<times> tcp_sock" where
  "trim0 b n s =
     (False, wput (b\<lparr>w_seq := w_seq b + n, w_len := w_len b - n, w_gso_segs := (if w_gso_segs b = 2 then 1 else w_gso_segs b)\<rparr>) s)"

definition V0 :: senv where
  "V0 = \<lparr>
     inp = I0, TCPCB_SACKED_ACKED = 1, TCPCB_SACKED_RETRANS = 2, TCPCB_LOST = 4, TCPCB_TAGBITS = 7, TCPCB_EVER_RETRANS = 0x80,
     TCPCB_RETRANS = 0x82, TCPHDR_SYN = 2, TCP_MAX_REORDERING = 127, TCP_TIMEOUT_FALLBACK = 3000, sysctl_tcp_frto = 2,
     sysctl_tcp_frto_response = 0, sysctl_tcp_reordering = 3, sysctl_tcp_thin_dupack = False, sysctl_tcp_nometrics_save = False,
     sysctl_tcp_abc = False, between = (\<lambda>a b c. b - a \<le> c - a), tcp_is_fack = (\<lambda>rx. has (sack_ok rx) 2),
     tcp_is_reno = (\<lambda>rx. sack_ok rx = 0), tcp_skb_pcount = (\<lambda>b. ucast (w_gso_segs b)), tcp_skb_mss = (\<lambda>b. ucast (w_gso_size b)),
     tcp_packets_in_flight = (\<lambda>s. packets_out s - (sacked_out s + lost_out s) + retrans_out s),
     tcp_left_out = (\<lambda>s. sacked_out s + lost_out s), tcp_in_initial_slowstart = (\<lambda>s. 0x7fffffff \<le> snd_ssthresh s),
     tcp_current_ssthresh = snd_ssthresh, tcp_max_burst = (\<lambda>s. ucast (reordering s)), tcp_may_send_now = (\<lambda>s. sk_send_queue s \<noteq> []),
     tcp_stream_is_thin = (\<lambda>s. packets_out s < 4), tcp_mss_to_mtu = (\<lambda>n. n + 40), tcp_set_ca_state = (\<lambda>st s. s\<lparr>icsk_ca_state := st\<rparr>),
     tcp_ca_event = (\<lambda>e s. s),
     tcp_clear_all_retrans_hints = (\<lambda>s. s\<lparr>lost_skb_hint := None, retransmit_skb_hint := None, scoreboard_skb_hint := None\<rparr>),
     tcp_clear_retrans_hints_partial = (\<lambda>s. s\<lparr>lost_skb_hint := None, scoreboard_skb_hint := None\<rparr>),
     ca_ssthresh = (\<lambda>s. max (drop_bit 1 (snd_cwnd s)) 2), ca_cong_avoid = (\<lambda>a n s. s\<lparr>snd_cwnd_cnt := snd_cwnd_cnt s + 1\<rparr>),
     ca_min_cwnd = None, ca_undo_cwnd = None, ca_pkts_acked = None, ca_rtt_stamp = False, net_invalid_timestamp = - 1,
     us_since = (\<lambda>t. 0), jiffies_to_usecs = (\<lambda>j. j * 1000), tcp_fragment = (\<lambda>b n mss s. (- 12, s)), tcp_trim_head = trim0,
     tcp_retransmit_skb = (\<lambda>b s. s), tcp_xmit_retransmit_queue = (\<lambda>s. s), tcp_sync_mss = (\<lambda>s. s),
     tcp_current_mss = (\<lambda>s. (mss_cache s, s)), tcp_highest_sack_seq = (\<lambda>s. if sacked_out s = 0 then snd_una s else snd_nxt s),
     tcp_highest_sack = highest_sack, tcp_highest_sack_reset = (\<lambda>s. s\<lparr>highest_sack := None\<rparr>),
     tcp_advance_highest_sack = (\<lambda>b s. s\<lparr>highest_sack := (if wq_next (w_addr b) s = wq_end then None else Some (wq_next (w_addr b) s))\<rparr>), sk_can_gso = (\<lambda>s. False),
     skb_headlen = (\<lambda>b. 0), skb_is_nonlinear = (\<lambda>b. True), skb_shift = (\<lambda>a b n. None), tcp_push_pending_frames = (\<lambda>s. s),
     tcp_init_wl = (\<lambda>n s. s\<lparr>snd_wl1 := n\<rparr>), tcp_update_wl = (\<lambda>n s. s\<lparr>snd_wl1 := n\<rparr>), skb_csum_unnecessary = (\<lambda>b. True),
     tcp_checksum_complete = (\<lambda>b. False), skb_copy_and_csum_datagram_iovec = (\<lambda>b n. None), tcp_mtup_init = (\<lambda>s. s),
     rebuild_header = (\<lambda>s. s), tcp_init_congestion_control = (\<lambda>s. s), keepalive_time_when = (\<lambda>s. 7200000),
     tcp_fin_time = (\<lambda>s. 60000), tcp_fast_path_on_wnd = (\<lambda>n s. s), tcp_send_synack = (\<lambda>s. s), conn_request = (\<lambda>b s. (0, s)),
     dst_metric_set = (\<lambda>m v d. d\<lparr>dst_metric := (dst_metric d)(m := v)\<rparr>), dst_metric_rtt = (\<lambda>d m. ucast (dst_metric d m)),
     set_dst_metric_rtt = (\<lambda>m v d. d\<lparr>dst_metric := (dst_metric d)(m := ucast v)\<rparr>)\<rparr>"

definition wseg :: "ptr \<Rightarrow> u32 \<Rightarrow> u32 \<Rightarrow> u8 \<Rightarrow> u16 \<Rightarrow> wskb" where
  "wseg p a e t n = \<lparr>w_addr = p, w_seq = a, w_end_seq = e, w_len = e - a, w_when = 900, w_tcp_flags = 16, w_sacked = t, w_ack_seq = 0,
     w_gso_segs = n, w_gso_size = 500, w_truesize = 1000, w_tstamp = 0\<rparr>"

definition tskw :: tcp_sock where
  "tskw = tsk0\<lparr>sk_write_queue := [wseg 1 501 1001 0 1, wseg 2 1001 1501 1 1, wseg 3 1501 2501 0 2], packets_out := 4, sacked_out := 1,
     fackets_out := 2, snd_nxt := 2501, write_seq := 2501, sk_wmem_queued := 3000\<rparr>"

lemma V0_simps [simp]: "inp V0 = I0"
  by (simp add: V0_def)

lemma V0_tag: "tag_law V0"
  by (simp add: tag_law_def V0_def I0_def)

lemma V0_module: "module_law V0"
proof -
  have "max (drop_bit 1 (x::u32)) 2 \<noteq> 0" for x by (auto simp: max_def)
  then show ?thesis by (simp add: module_law_def V0_def quiet_defs cwnd_ok_def probes_def)
qed

lemma V0_trim:
  assumes "board s" "sk_write_queue s = b # q"
  shows "\<exists>b1. quiet (s\<lparr>sk_write_queue := b1 # q\<rparr>) (snd (trim0 b n s)) \<and> w_addr b1 = w_addr b \<and> w_sacked b1 = w_sacked b \<and>
    w_seq b1 = w_seq b + n \<and> w_end_seq b1 = w_end_seq b \<and> w_gso_segs b1 \<noteq> 0 \<and> w_gso_segs b1 \<le> w_gso_segs b"
proof -
  let ?b = "b\<lparr>w_seq := w_seq b + n, w_len := w_len b - n, w_gso_segs := (if w_gso_segs b = 2 then 1 else w_gso_segs b)\<rparr>"
  have "sk_write_queue (wput ?b s) = [] @ ?b # q" "sk_send_queue (wput ?b s) = sk_send_queue s"
    using wput_split [of s "[]" b q ?b] assms(2) board_distinct [OF assms(1)] by simp_all
  then have "quiet (s\<lparr>sk_write_queue := ?b # q\<rparr>) (wput ?b s)" by (simp add: quiet_defs wput_def)
  moreover have "w_gso_segs b \<noteq> 0" using assms by (simp add: board_def tags_ok_def)
  ultimately show ?thesis by (intro exI [of _ ?b]) (simp add: trim0_def)
qed

lemma V0_output: "output_law V0"
proof -
  have "mview (snd (trim0 b n s)) = mview s" for b n s by (simp add: trim0_def mview_def rview_def wput_def)
  then show ?thesis using V0_trim by (auto simp: output_law_def V0_def trim0_def)
qed

lemma tskw_board: "board tskw"
  by (simp add: board_def tskw_def tsk0_def wseg_def rx0_def tags_ok_def hint_in_def wq_end_def)

end
