(* ===== verification/Tcp_Clean_Correct.thy ===== *)
theory Tcp_Clean_Correct
  imports Tcp_Sender_Correct Tcp_Seq
begin

text \<open>
  The removal of acknowledged segments from the retransmission queue: exactly the segments that are acknowledged as a whole are
  freed, the next one is trimmed at most, and the scoreboard stays exact.
\<close>

section \<open>The loop\<close>

text \<open>What is left of a queue when everything before \<open>una\<close> is acknowledged.\<close>

definition unacked :: "senv \<Rightarrow> u32 \<Rightarrow> wskb list \<Rightarrow> wskb list" where
  "unacked V una q = dropWhile (\<lambda>b. \<not> aft V (w_end_seq b) una) q"

definition trimmed :: "u32 \<Rightarrow> wskb list \<Rightarrow> wskb list \<Rightarrow> bool" where
  "trimmed una q q' \<longleftrightarrow> q' = q \<or>
     (\<exists>b b1 r. q = b # r \<and> q' = b1 # r \<and> w_addr b1 = w_addr b \<and> w_seq b1 = una \<and> w_end_seq b1 = w_end_seq b \<and>
        w_gso_segs b1 \<le> w_gso_segs b)"

lemma trimmed_refl [simp]: "trimmed una q q"
  by (simp add: trimmed_def)

lemma wget_head:
  assumes "sk_write_queue s = b # q"
  shows "wget (w_addr b) s = Some b"
  using assms by (simp add: wget_def)

lemma tso_acked_ok:
  assumes law: "tag_law V" "output_law V" "seq_law (tv (inp V))" and s: "board s" "sk_write_queue s = b # q"
    and e: "aft V (w_end_seq b) (snd_una s)" and t: "tcp_trim_head V b (snd_una s - w_seq b) s = (False, s1)"
  shows "\<exists>b1. tcp_tso_acked V b s = Some (ucast (w_gso_segs b) - ucast (w_gso_segs b1), s1) \<and> quiet (s\<lparr>sk_write_queue := b1 # q\<rparr>) s1 \<and>
    w_addr b1 = w_addr b \<and> w_sacked b1 = w_sacked b \<and> w_seq b1 = snd_una s \<and> w_end_seq b1 = w_end_seq b \<and> w_gso_segs b1 \<noteq> 0 \<and>
    w_gso_segs b1 \<le> w_gso_segs b \<and> mview s1 = mview s"
proof -
  obtain b1 where b1: "quiet (s\<lparr>sk_write_queue := b1 # q\<rparr>) s1" "w_addr b1 = w_addr b" "w_sacked b1 = w_sacked b"
    "w_seq b1 = w_seq b + (snd_una s - w_seq b)" "w_end_seq b1 = w_end_seq b" "w_gso_segs b1 \<noteq> 0" "w_gso_segs b1 \<le> w_gso_segs b"
    and m: "mview s1 = mview s"
    using outputD(2) [OF law(2) s t] by auto
  have q: "sk_write_queue s1 = b1 # q" using b1(1) by (simp add: quiet_def score_def)
  have "bef V (snd_una s) (w_end_seq b)" using e law(3) by (simp add: seq_law_def)
  moreover have "ucast (w_gso_segs b1) \<noteq> (0::u32)" using segs_pos [OF b1(6)] by auto
  ultimately have "tcp_tso_acked V b s = Some (ucast (w_gso_segs b) - ucast (w_gso_segs b1), s1)"
    using e t b1 wget_head [OF q] by (simp add: tcp_tso_acked_def tagD [OF law(1)])
  then show ?thesis using b1 m by (intro exI [of _ b1]) simp
qed

lemma clean_part_ok:
  assumes law: "tag_law V" "output_law V" "seq_law (tv (inp V))" and s: "board s" "sk_write_queue s = b # q" and e: "aft V (w_end_seq b) (snd_una s)"
  shows "\<exists>c' s'. clean_loop V (b # q) (c, s) = Some (c', s') \<and> board s' \<and> mview s' = mview s \<and> trimmed (snd_una s) (b # q) (sk_write_queue s')"
proof -
  obtain failed s1 where t: "tcp_trim_head V b (snd_una s - w_seq b) s = (failed, s1)" by force
  consider "tcp_skb_pcount V b = 1 \<or> \<not> aft V (snd_una s) (w_seq b)" | "tcp_skb_pcount V b \<noteq> 1" "aft V (snd_una s) (w_seq b)" failed
    | "tcp_skb_pcount V b \<noteq> 1" "aft V (snd_una s) (w_seq b)" "\<not> failed" by blast
  then show ?thesis
  proof cases
    case 1
    then show ?thesis using s e by auto
  next
    case 2
    have "quiet s s1" "mview s1 = mview s" using outputD(2) [OF law(2) s t] 2 by simp_all
    moreover from this have "board s1" "sk_write_queue s1 = b # q"
      using s board_score [of s1 s] by (simp_all add: quiet_def score_def)
    ultimately show ?thesis using 2 e t by (simp add: tcp_tso_acked_def)
  next
    case 3
    then have t0: "tcp_trim_head V b (snd_una s - w_seq b) s = (False, s1)" using t by simp
    obtain b1 where b1: "tcp_tso_acked V b s = Some (ucast (w_gso_segs b) - ucast (w_gso_segs b1), s1)" "quiet (s\<lparr>sk_write_queue := b1 # q\<rparr>) s1"
      "w_addr b1 = w_addr b" "w_sacked b1 = w_sacked b" "w_seq b1 = snd_una s" "w_end_seq b1 = w_end_seq b" "w_gso_segs b1 \<noteq> 0"
      "w_gso_segs b1 \<le> w_gso_segs b" "mview s1 = mview s"
      using tso_acked_ok [OF law s e t0] by blast
    let ?n = "ucast (w_gso_segs b) - ucast (w_gso_segs b1) :: u32"
    have q: "sk_write_queue s1 = b1 # q" using b1(2) by (simp add: quiet_def score_def)
    obtain c2 s2 where c2: "count_acked V b1 (w_sacked b) ?n (c, s1) = (c2, s2)" by force
    note part = count_part_ok [OF law(1) s b1(3,4,7,2) c2]
    note sel = count_acked_sel [OF law(1) c2]
    have r: "clean_loop V (b # q) (c, s) = (if ?n = 0 then Some (c, s1) else Some (c2, s2))"
      using 3 e b1(1) wget_head [OF q] b1(3) c2 by simp
    have tr: "trimmed (snd_una s) (b # q) (b1 # q)" using b1 by (auto simp: trimmed_def)
    show ?thesis
    proof (cases "?n = 0")
      case True
      have "score s1 = score s2" using sel c2 True by (simp add: score_def)
      then have "board s1" using part board_score [of s1 s2] by simp
      then show ?thesis using r True q tr b1(9) by simp
    next
      case False
      then show ?thesis using r part sel(5,8) q tr b1(9) by simp
    qed
  qed
qed

lemma clean_loop_ok:
  assumes law: "tag_law V" "output_law V" "seq_law (tv (inp V))"
  shows "board s \<Longrightarrow> sk_write_queue s = q \<Longrightarrow>
    \<exists>c' s'. clean_loop V q (c, s) = Some (c', s') \<and> board s' \<and> mview s' = mview s \<and> trimmed (snd_una s) (unacked V (snd_una s) q) (sk_write_queue s')"
proof (induction q arbitrary: c s)
  case (Cons b q)
  show ?case
  proof (cases "aft V (w_end_seq b) (snd_una s)")
    case True
    then show ?thesis using clean_part_ok [OF law Cons.prems True, of c] by (simp add: unacked_def del: clean_loop.simps)
  next
    case False
    obtain c1 s1 where c1: "count_acked V b (w_sacked b) (tcp_skb_pcount V b) (c, s) = (c1, s1)" by force
    note fr = free_head_ok [OF law(1) Cons.prems c1]
    have "snd_una (free_acked b s1) = snd_una s" using fr(3) by (simp add: mview_def rview_def)
    then show ?thesis using Cons.IH [OF fr(1,2), of c1] fr(3) False c1 by (simp add: unacked_def)
  qed
qed (simp add: unacked_def)

section \<open>What follows\<close>

lemma probe_success_quiet:
  assumes "output_law V" "0 < mtup_probe_size s" "mtup_probe_size s < 2 ^ 32"
  shows "\<exists>s'. tcp_mtup_probe_success V s = Some s' \<and> quiet s s'"
proof -
  have "(word_of_int (mtup_probe_size s) :: u32) \<noteq> 0"
  proof
    assume "(word_of_int (mtup_probe_size s) :: u32) = 0"
    then have "uint (word_of_int (mtup_probe_size s) :: u32) = 0" by simp
    then show False using assms(2,3) by (simp add: uint_word_of_int)
  qed
  moreover have "quiet s (s\<lparr>prior_ssthresh := a, snd_cwnd := b, snd_cwnd_cnt := c, snd_cwnd_stamp := d, snd_ssthresh := e, mtup_search_low := f, mtup_probe_size := g\<rparr>)"
    for a b c d e f g by (simp add: quiet_defs)
  moreover have "quiet t (tcp_sync_mss V t)" for t using assms(1) by (simp add: output_law_def)
  ultimately show ?thesis using quiet_trans by (fastforce simp: tcp_mtup_probe_success_def Let_def)
qed

lemma acked_update_ok:
  assumes law: "tag_law V" "module_law V" "output_law V" and p: "0 \<le> mtup_probe_size s" "mtup_probe_size s < 2 ^ 32"
  shows "\<exists>s'. acked_update V pf ps flag c s = Some s' \<and> calm s s'"
proof -
  obtain s1 where s1: "(if mtup_probe_size s \<noteq> 0 \<and> \<not> aft V (probe_seq_end s) (snd_una s) then tcp_mtup_probe_success V s else Some s) = Some s1"
    "quiet s s1"
  proof (cases "mtup_probe_size s = 0")
    case False
    then show ?thesis using that probe_success_quiet [OF law(3), of s] p by (cases "aft V (probe_seq_end s) (snd_una s)") auto
  qed (use that in simp)
  define s2 where "s2 = tcp_rearm_rto V (tcp_ack_update_rtt V flag (cn_seq_rtt c) s1)"
  have c2: "calm s s2" unfolding s2_def by (intro quiet_calm quiet_trans [OF s1(2)] quiet_trans [OF rtt_quiet(2) rtt_quiet(3)])
  define s3 where "s3 = (if is_reno V s2 then tcp_remove_reno_sacks V (sint (cn_pkts c)) s2
     else let t = (if cn_reord c < pf then tcp_update_reordering V (sint (fackets_out s2 - cn_reord c)) s2 else s2);
              delta = sint (if is_fack V t then cn_pkts c else ps - sacked_out t)
          in t\<lparr>lost_cnt_hint := lost_cnt_hint t - min (lost_cnt_hint t) delta\<rparr>)"
  have l: "calm t (t\<lparr>lost_cnt_hint := z\<rparr>)" for t z by (rule quiet_calm) simp
  have "calm s2 s3"
  proof (cases "is_reno V s2")
    case True
    then show ?thesis using reno_calm(2) by (simp add: s3_def tagD [OF law(1)])
  next
    case False
    then show ?thesis using calm_trans [OF update_reordering_calm l] l by (simp add: s3_def Let_def)
  qed
  moreover have "calm s3 (s3\<lparr>fackets_out := z\<rparr>)" for z by (rule quiet_calm) simp
  moreover have "calm t (case ca_pkts_acked V of Some f \<Rightarrow> f n r t | None \<Rightarrow> t)" for t n r
    using law(2) by (auto simp: module_law_def intro: quiet_calm split: option.split)
  ultimately have "calm s (let s4 = s3\<lparr>fackets_out := fackets_out s3 - min (cn_pkts c) (fackets_out s3)\<rparr>
      in case ca_pkts_acked V of Some f \<Rightarrow> f (cn_pkts c) (acked_rtt_us V flag c) s4 | None \<Rightarrow> s4)"
    unfolding Let_def using calm_trans c2 by meson
  moreover have "acked_update V pf ps flag c s = Some (let s4 = s3\<lparr>fackets_out := fackets_out s3 - min (cn_pkts c) (fackets_out s3)\<rparr>
      in case ca_pkts_acked V of Some f \<Rightarrow> f (cn_pkts c) (acked_rtt_us V flag c) s4 | None \<Rightarrow> s4)"
    unfolding acked_update_def s1(1) Option.bind.bind_lunit s3_def s2_def Let_def by (rule refl)
  ultimately show ?thesis by blast
qed

text \<open>The congestion window is not changed by samples of the round trip time and by counting.\<close>

definition cview where
  "cview s = (icsk_ca_state s, snd_cwnd s, snd_ssthresh s, probes s)"

lemma cview_upd [simp]:
  "cview (s\<lparr>lost_cnt_hint := z\<rparr>) = cview s" "cview (s\<lparr>fackets_out := a\<rparr>) = cview s" "cview (s\<lparr>sacked_out := a\<rparr>) = cview s"
  by (simp_all add: cview_def probes_def)

lemma cview_rtt [simp]:
  "cview (tcp_valid_rtt_meas V r s) = cview s" "cview (tcp_ack_update_rtt V flag z s) = cview s" "cview (tcp_rearm_rto V s) = cview s"
proof -
  show q: "cview (tcp_valid_rtt_meas V r s) = cview s" for r
    by (simp add: cview_def probes_def tcp_valid_rtt_meas_def tcp_set_rto_def tcp_rtt_estimator_def rtt_deviation_def Let_def)
  show "cview (tcp_ack_update_rtt V flag z s) = cview s"
    using q by (simp add: tcp_ack_update_rtt_def tcp_ack_saw_tstamp_def tcp_ack_no_tstamp_def)
  show "cview (tcp_rearm_rto V s) = cview s"
    by (simp add: cview_def probes_def tcp_rearm_rto_def inet_csk_clear_xmit_timer_def inet_csk_reset_xmit_timer_def Let_def)
qed

lemma cview_reno [simp]:
  "cview (tcp_update_reordering V n s) = cview s" "cview (tcp_check_reno_reordering V n s) = cview s"
  "cview (tcp_remove_reno_sacks V n s) = cview s" "cview (tcp_add_reno_sack V s) = cview s" "cview (tcp_reset_reno_sack s) = cview s"
proof -
  show u: "cview (tcp_update_reordering V n s) = cview s" for n s
    by (simp add: cview_def probes_def tcp_update_reordering_def tcp_disable_fack_def Let_def)
  show c: "cview (tcp_check_reno_reordering V n s) = cview s" for n s
    by (simp add: tcp_check_reno_reordering_def tcp_limit_reno_sacked_def u Let_def)
  show "cview (tcp_remove_reno_sacks V n s) = cview s" "cview (tcp_add_reno_sack V s) = cview s" "cview (tcp_reset_reno_sack s) = cview s"
    by (simp_all add: tcp_remove_reno_sacks_def tcp_add_reno_sack_def tcp_reset_reno_sack_def c)
qed

lemma acked_update_unprobed:
  assumes law: "module_law V" and r: "acked_update V pf ps flag c s = Some s'" "mtup_probe_size s = 0"
  shows "cwnd_ok s \<Longrightarrow> cwnd_ok s'" "probes s' = probes s"
proof -
  define s2 where "s2 = tcp_rearm_rto V (tcp_ack_update_rtt V flag (cn_seq_rtt c) s)"
  define s3 where "s3 = (if is_reno V s2 then tcp_remove_reno_sacks V (sint (cn_pkts c)) s2
     else let t = (if cn_reord c < pf then tcp_update_reordering V (sint (fackets_out s2 - cn_reord c)) s2 else s2);
              delta = sint (if is_fack V t then cn_pkts c else ps - sacked_out t)
          in t\<lparr>lost_cnt_hint := lost_cnt_hint t - min (lost_cnt_hint t) delta\<rparr>)"
  define s4 where "s4 = s3\<lparr>fackets_out := fackets_out s3 - min (cn_pkts c) (fackets_out s3)\<rparr>"
  have w: "cview s4 = cview s" by (simp add: s4_def s3_def s2_def Let_def)
  have e: "s' = (case ca_pkts_acked V of Some f \<Rightarrow> f (cn_pkts c) (acked_rtt_us V flag c) s4 | None \<Rightarrow> s4)"
  proof -
    have z: "(if mtup_probe_size s \<noteq> 0 \<and> \<not> aft V (probe_seq_end s) (snd_una s) then tcp_mtup_probe_success V s else Some s) = Some s"
      using r(2) by simp
    have "acked_update V pf ps flag c s = Some (case ca_pkts_acked V of Some f \<Rightarrow> f (cn_pkts c) (acked_rtt_us V flag c) s4 | None \<Rightarrow> s4)"
      unfolding acked_update_def z Option.bind.bind_lunit s4_def s3_def s2_def Let_def by (rule refl)
    then show ?thesis using r(1) by simp
  qed
  show "cwnd_ok s \<Longrightarrow> cwnd_ok s'" "probes s' = probes s"
    using w law unfolding e by (auto simp: module_law_def cwnd_ok_def cview_def probes_def split: option.split)
qed

text \<open>The flags the loop collects do not say that the peer has dropped data.\<close>

lemma no_union: "(a OR b) AND f = 0 \<longleftrightarrow> a AND f = 0 \<and> b AND (f :: 'a::len word) = 0"
  by (simp add: bit.conj_disj_distrib2 or_eq_0_iff)

lemma count_acked_flag:
  assumes "count_acked V b t n (c, s) = (c1, s1)" "\<not> has (cn_flag c) FLAG_SACK_RENEGING"
  shows "\<not> has (cn_flag c1) FLAG_SACK_RENEGING"
  using assms by (auto simp: count_acked_def acked_sample_def Let_def no_union flag_defs)

lemma clean_loop_flag:
  "clean_loop V q (c, s) = Some (c', s') \<Longrightarrow> \<not> has (cn_flag c) FLAG_SACK_RENEGING \<Longrightarrow> \<not> has (cn_flag c') FLAG_SACK_RENEGING"
proof (induction q arbitrary: c s)
  case (Cons b q)
  obtain c1 s1 where c1: "count_acked V b (w_sacked b) (tcp_skb_pcount V b) (c, s) = (c1, s1)" by force
  show ?case
  proof (cases "aft V (w_end_seq b) (snd_una s)")
    case True
    then show ?thesis using Cons.prems count_acked_flag by (auto split: if_splits bind_splits)
  next
    case False
    then show ?thesis using Cons.prems Cons.IH count_acked_flag [OF c1] c1 by simp
  qed
qed simp

text \<open>The whole function.\<close>

lemma clean_rtx_ok:
  assumes law: "tag_law V" "module_law V" "output_law V" "seq_law (tv (inp V))" and s: "board s"
    and p: "0 \<le> mtup_probe_size s" "mtup_probe_size s < 2 ^ 32"
  shows "\<exists>flag s'. tcp_clean_rtx_queue V pf una s = Some (flag, s') \<and> board s' \<and> rview s' = rview s \<and>
    trimmed (snd_una s) (unacked V (snd_una s) (sk_write_queue s)) (sk_write_queue s') \<and>
    (has flag FLAG_SACK_RENEGING \<longrightarrow> write_head s' \<noteq> None) \<and>
    (mtup_probe_size s = 0 \<longrightarrow> (cwnd_ok s \<longrightarrow> cwnd_ok s') \<and> probes s' = probes s)"
proof -
  let ?c = "\<lparr>cn_flag = 0, cn_pkts = 0, cn_reord = packets_out s, cn_seq_rtt = - 1, cn_ca_rtt = - 1, cn_ackt = net_invalid_timestamp V\<rparr>"
  obtain c s1 where s1: "clean_loop V (sk_write_queue s) (?c, s) = Some (c, s1)" "board s1" "mview s1 = mview s"
    "trimmed (snd_una s) (unacked V (snd_una s) (sk_write_queue s)) (sk_write_queue s1)"
    using clean_loop_ok [OF law(1,3,4) s refl] by blast
  have fl: "\<not> has (cn_flag c) FLAG_SACK_RENEGING" using clean_loop_flag [OF s1(1)] by simp
  define s2 where "s2 = (if between V (snd_up s1) una (snd_una s1) then s1\<lparr>snd_up := snd_una s1\<rparr> else s1)"
  have "quiet s1 s2" by (simp add: s2_def)
  then have s2: "calm s1 s2" by (rule quiet_calm)
  define flag where "flag = (case write_head s2 of
     Some b \<Rightarrow> if has (w_sacked b) (TCPCB_SACKED_ACKED V) then cn_flag c OR FLAG_SACK_RENEGING else cn_flag c | None \<Rightarrow> cn_flag c)"
  have m2: "mtup_probe_size s2 = mtup_probe_size s" "cwnd_ok s2 = cwnd_ok s" "probes s2 = probes s"
    using s1(3) by (simp_all add: s2_def mview_def cwnd_ok_def probes_def)
  then obtain s3 where s3: "acked_update V pf (sacked_out s) flag c s2 = Some s3" "calm s2 s3"
    using acked_update_ok [OF law(1-3), of s2] p by metis
  define s' where "s' = (if has flag FLAG_ACKED then s3 else s2)"
  have "tcp_clean_rtx_queue V pf una s = Some (flag, s')"
    using s1(1) s3(1) by (simp add: tcp_clean_rtx_queue_def Let_def s2_def [symmetric] flag_def [symmetric] s'_def)
  moreover have c: "calm s2 s'" using s3(2) by (simp add: s'_def)
  moreover have "write_head s' = write_head s2" using c by (simp add: write_head_def calm_def)
  then have "has flag FLAG_SACK_RENEGING \<longrightarrow> write_head s' \<noteq> None" using fl by (cases "write_head s2") (simp_all add: flag_def)
  moreover have "rview s1 = rview s" using s1(3) by (simp add: mview_def)
  moreover have "mtup_probe_size s = 0 \<longrightarrow> (cwnd_ok s \<longrightarrow> cwnd_ok s') \<and> probes s' = probes s"
    using acked_update_unprobed [OF law(2) s3(1)] m2 by (simp add: s'_def)
  ultimately show ?thesis using s1(2,4) s2 unfolding calm_def by metis
qed

end
