(* ===== verification/Tcp_Sender_Props.thy ===== *)
theory Tcp_Sender_Props
  imports Tcp_Sender_Example Tcp_Clean_Correct
begin

text \<open>The properties of the sending side.\<close>

text \<open>C33.
  Entering the loss state after a timeout (\<open>tcp_enter_loss\<close>). When the counters of the retransmission queue agree with
  the tags of its segments, they still do afterwards; the queue holds the same segments, of which each one that is not
  sacked (each one, when the peer is suspected of dropping sacked data) is tagged lost, and none retransmitted; so no
  packet counts as in flight, the congestion window is one segment, and nothing else of the connection changes.
\<close>

theorem enter_loss_scoreboard:
  assumes "tag_law V" "module_law V" "output_law V" "board s"
  shows "let s' = tcp_enter_loss V how s in
    board s' \<and> icsk_ca_state s' = TCP_CA_Loss \<and> snd_cwnd s' = 1 \<and> tcp_packets_in_flight V s' = 0 \<and> retrans_out s' = 0 \<and>
    sk_write_queue s' = map (lost_tag how) (sk_write_queue s) \<and>
    (\<forall>b \<in> set (sk_write_queue s'). has (w_sacked b) 4 \<noteq> has (w_sacked b) 1) \<and> rview s' = rview s"
proof -
  note ok = enter_loss_ok [OF assms, of how]
  have "packets (map (lost_tag how) q) = packets q" "tagged 2 (map (lost_tag how) q) = 0" for q by (simp_all only: packets_lost_tag)
  then have "retrans_out (tcp_enter_loss V how s) = 0" using ok(1,5) by (simp add: board_def)
  moreover have "has (w_sacked (lost_tag how b)) 4 \<noteq> has (w_sacked (lost_tag how b)) 1" for b
    using lost_tag_simps(5,7) [of how b] by blast
  ultimately show ?thesis using ok unfolding Let_def by (auto simp only: set_map ball_simps)
qed

theorem enter_loss_scoreboard_witness:
  "board (tcp_enter_loss V0 False tskw) \<and> tcp_packets_in_flight V0 (tcp_enter_loss V0 False tskw) = 0 \<and>
   snd_cwnd (tcp_enter_loss V0 False tskw) = 1"
  using enter_loss_scoreboard [OF V0_tag V0_module V0_output tskw_board, of False] by (simp add: Let_def)

end
