(* ===== verification/Tcp_State.thy ===== *)
theory Tcp_State
  imports Tcp_Rcvq Tcp_Sacktag
begin

text \<open>
  The receiving procedure of \<^verbatim>\<open>net/ipv4/tcp_input.c\<close>: acknowledgements (\<^verbatim>\<open>tcp_ack\<close>), the decision to send, urgent data, the
  validation of a segment, the fast and the slow path of an established connection, and the state
  machine for all other states. Results are the integers the functions return; a buffer that is
  freed is dropped. \<^verbatim>\<open>conn_request\<close> and \<^verbatim>\<open>rebuild_header\<close> are calls through the table of the address family.
\<close>

section \<open>Acknowledgements\<close>

definition tcp_ack_probe :: "senv \<Rightarrow> tcp_sock \<Rightarrow> tcp_sock option" where
  "tcp_ack_probe V s =
     (case sk_send_queue s of
        [] \<Rightarrow> None
      | b # _ \<Rightarrow>
          Some (if \<not> aft V (w_end_seq b) (tcp_wnd_end (inp V) s)
                then inet_csk_clear_xmit_timer ICSK_TIME_PROBE0 (s\<lparr>icsk_backoff := 0\<rparr>)
                else inet_csk_reset_xmit_timer (inp V) ICSK_TIME_PROBE0
                       (ucast (min (push_bit (unat (icsk_backoff s)) (icsk_rto s)) (TCP_RTO_MAX (inp V))))
                       (ucast (TCP_RTO_MAX (inp V))) s))"

definition tcp_ack_is_dubious :: "u32 \<Rightarrow> tcp_sock \<Rightarrow> bool" where
  "tcp_ack_is_dubious flag s \<longleftrightarrow>
     \<not> has flag FLAG_NOT_DUP \<or> has flag FLAG_CA_ALERT \<or> icsk_ca_state s \<noteq> TCP_CA_Open"

definition tcp_may_raise_cwnd :: "u32 \<Rightarrow> tcp_sock \<Rightarrow> bool" where
  "tcp_may_raise_cwnd flag s \<longleftrightarrow>
     (\<not> has flag FLAG_ECE \<or> snd_cwnd s < snd_ssthresh s) \<and> icsk_ca_state s \<notin> {TCP_CA_Recovery, TCP_CA_CWR}"

definition tcp_ack_update_window :: "senv \<Rightarrow> skb \<Rightarrow> u32 \<Rightarrow> u32 \<Rightarrow> tcp_sock \<Rightarrow> u32 \<times> tcp_sock" where
  "tcp_ack_update_window V b ack ack_seq s =
     (let nwin = (if sg_syn b then ucast (sg_window b) else push_bit (unat (snd_wscale (rx_opt s))) (ucast (sg_window b)))
      in if tcp_may_update_window (inp V) ack ack_seq nwin s then
           let s1 = tcp_update_wl V ack_seq s;
               s2 = (if snd_wnd s1 \<noteq> nwin then
                       let t = tcp_fast_path_check (inp V) (s1\<lparr>snd_wnd := nwin, pred_flags := 0\<rparr>)
                       in if max_window t < nwin then tcp_sync_mss V (t\<lparr>max_window := nwin\<rparr>) else t
                     else s1)
           in (FLAG_WIN_UPDATE, s2\<lparr>snd_una := ack\<rparr>)
         else (0, s\<lparr>snd_una := ack\<rparr>))"

text \<open>What \<^verbatim>\<open>tcp_ack\<close> does before it looks at the queue: count bytes, move \<^verbatim>\<open>snd_una\<close> and the window.\<close>

definition abc_count :: "senv \<Rightarrow> u32 \<Rightarrow> tcp_sock \<Rightarrow> tcp_sock" where
  "abc_count V ack s =
     (if sysctl_tcp_abc V then
        if icsk_ca_state s < TCP_CA_CWR then s\<lparr>bytes_acked := bytes_acked s + (ack - snd_una s)\<rparr>
        else if icsk_ca_state s = TCP_CA_Loss then s\<lparr>bytes_acked := bytes_acked s + min (ack - snd_una s) (mss_cache s)\<rparr>
        else s
      else s)"

definition ack_advance :: "senv \<Rightarrow> skb \<Rightarrow> u32 \<Rightarrow> tcp_sock \<Rightarrow> (u32 \<times> tcp_sock) option" where
  "ack_advance V b flag s =
     (let prior = snd_una s; ack_seq = sg_seq b; ack = sg_ack_seq b
      in if \<not> has flag FLAG_SLOWPATH \<and> aft V ack prior then
           Some (flag OR FLAG_WIN_UPDATE, tcp_ca_event V CA_EVENT_FAST_ACK ((tcp_update_wl V ack_seq s)\<lparr>snd_una := ack\<rparr>))
         else case tcp_ack_update_window V b ack ack_seq s of (w, s1) \<Rightarrow> do {
           (t, s2) \<leftarrow> (if sg_sacked b \<noteq> 0 then tcp_sacktag_write_queue V b prior s1 else Some (0, s1));
           Some ((if ack_seq \<noteq> sg_end_seq b then flag OR FLAG_DATA else flag) OR w OR t OR
                   (if TCP_ECN_rcv_ecn_echo (inp V) b s2 then FLAG_ECE else 0),
                 tcp_ca_event V CA_EVENT_SLOW_ACK s2) })"

text \<open>What it does with the queue.\<close>

definition ack_queue :: "senv \<Rightarrow> u32 \<Rightarrow> u32 \<Rightarrow> u32 \<Rightarrow> u32 \<Rightarrow> u32 \<Rightarrow> u32 \<Rightarrow> tcp_sock \<Rightarrow> tcp_sock option" where
  "ack_queue V ack prior_snd_una prior_fackets prior_in_flight prior_sacked flag s = do {
     (f, s1) \<leftarrow> tcp_clean_rtx_queue V prior_fackets prior_snd_una s;
     let flag1 = flag OR f;
     let newly_acked_sacked = sint ((packets_out s - prior_sacked) - (packets_out s1 - sacked_out s1));
     let (frto_cwnd, s2) = (if frto_counter s1 \<noteq> 0 then tcp_process_frto V flag1 s1 else (False, s1));
     let s3 = (if bef V (frto_highmark s2) (snd_una s2) then s2\<lparr>frto_highmark := 0\<rparr> else s2);
     if tcp_ack_is_dubious flag1 s3 then
       let s4 = (if has flag1 FLAG_DATA_ACKED \<and> \<not> frto_cwnd \<and> tcp_may_raise_cwnd flag1 s3
                 then tcp_cong_avoid V ack prior_in_flight s3 else s3)
       in tcp_fastretrans_alert V (sint (packets_out s - packets_out s4)) newly_acked_sacked flag1 s4
     else Some (if has flag1 FLAG_DATA_ACKED \<and> \<not> frto_cwnd then tcp_cong_avoid V ack prior_in_flight s3 else s3) }"

definition tcp_ack :: "senv \<Rightarrow> skb \<Rightarrow> u32 \<Rightarrow> tcp_sock \<Rightarrow> (int \<times> tcp_sock) option" where
  "tcp_ack V b flag s =
     (let prior_snd_una = snd_una s; ack = sg_ack_seq b
      in if bef V ack prior_snd_una then
           if sg_sacked b \<noteq> 0 then do {
             (_, s1) \<leftarrow> tcp_sacktag_write_queue V b prior_snd_una s;
             Some (0, if icsk_ca_state s1 = TCP_CA_Open then tcp_try_keep_open V s1 else s1) }
           else Some (0, s)
         else if aft V ack (snd_nxt s) then Some (- 1, s)
         else do {
           let s1 = abc_count V ack s;
           (flag1, s2) \<leftarrow> ack_advance V b (if aft V ack prior_snd_una then flag OR FLAG_SND_UNA_ADVANCED else flag) s1;
           let s3 = s2\<lparr>sk_err_soft := 0, icsk_probes_out := 0, rcv_tstamp := now V\<rparr>;
           if packets_out s3 = 0 then
             (if sk_send_queue s3 \<noteq> [] then map_option (Pair 1) (tcp_ack_probe V s3) else Some (1, s3))
           else map_option (Pair 1)
                  (ack_queue V ack prior_snd_una (fackets_out s1) (tcp_packets_in_flight V s1) (sacked_out s) flag1 s3) })"

section \<open>Room to send, and when to acknowledge\<close>

definition tcp_cwnd_application_limited :: "senv \<Rightarrow> tcp_sock \<Rightarrow> tcp_sock" where
  "tcp_cwnd_application_limited V s =
     (let s1 = (if icsk_ca_state s = TCP_CA_Open \<and> sk_socket s \<and> \<not> sk_nospace s then
                  let win_used = max (snd_cwnd_used s) (tcp_init_cwnd V s);
                      t = (if win_used < snd_cwnd s
                           then s\<lparr>snd_ssthresh := tcp_current_ssthresh V s, snd_cwnd := drop_bit 1 (snd_cwnd s + win_used)\<rparr>
                           else s)
                  in t\<lparr>snd_cwnd_used := 0\<rparr>
                else s)
      in s1\<lparr>snd_cwnd_stamp := now V\<rparr>)"

definition tcp_should_expand_sndbuf :: "senv \<Rightarrow> tcp_sock \<Rightarrow> bool" where
  "tcp_should_expand_sndbuf V s \<longleftrightarrow>
     \<not> sk_sndbuf_lock s \<and> \<not> tcp_memory_pressure (inp V) \<and> tcp_memory_low (inp V) \<and> packets_out s < snd_cwnd s"

definition tcp_new_space :: "senv \<Rightarrow> tcp_sock \<Rightarrow> tcp_sock" where
  "tcp_new_space V s =
     sk_event Write_space
       (if tcp_should_expand_sndbuf V s then
          let sndmem = SKB_TRUESIZE (inp V) (uint (max (ucast (mss_clamp (rx_opt s))) (mss_cache s)) + MAX_TCP_HEADER (inp V));
              demanded = max (snd_cwnd s) (ucast (reordering s) + 1);
              sndmem1 = sndmem * (2 * uint demanded);
              t = (if sk_sndbuf s < sndmem1 then s\<lparr>sk_sndbuf := min sndmem1 (sysctl_tcp_wmem_max (inp V))\<rparr> else s)
          in t\<lparr>snd_cwnd_stamp := now V\<rparr>
        else s)"

definition tcp_check_space :: "senv \<Rightarrow> tcp_sock \<Rightarrow> tcp_sock" where
  "tcp_check_space V s =
     (if sk_queue_shrunk s then
        let t = s\<lparr>sk_queue_shrunk := False\<rparr> in if sk_socket t \<and> sk_nospace t then tcp_new_space V t else t
      else s)"

definition tcp_data_snd_check :: "senv \<Rightarrow> tcp_sock \<Rightarrow> tcp_sock" where
  "tcp_data_snd_check V s = tcp_check_space V (tcp_push_pending_frames V s)"

definition ack_snd_check :: "senv \<Rightarrow> bool \<Rightarrow> tcp_sock \<Rightarrow> tcp_sock" where
  "ack_snd_check V ofo_possible s =
     (if (ucast (ack_rcv_mss (icsk_ack s)) < rcv_nxt s - rcv_wup s \<and> rcv_wnd s \<le> tcp_select_window (inp V) s) \<or>
         tcp_in_quickack_mode s \<or> (ofo_possible \<and> out_of_order_queue s \<noteq> [])
      then send_ack (inp V) s
      else sk_event Send_delayed_ack (tcp_send_delayed_ack (inp V) s))"

definition tcp_ack_snd_check :: "senv \<Rightarrow> tcp_sock \<Rightarrow> tcp_sock" where
  "tcp_ack_snd_check V s = (if \<not> inet_csk_ack_scheduled s then s else ack_snd_check V True s)"

section \<open>Urgent data\<close>

text \<open>The last byte read was urgent data, and the next one is too.\<close>

definition skip_urgent :: "senv \<Rightarrow> tcp_sock \<Rightarrow> tcp_sock" where
  "skip_urgent V s =
     (if urg_seq s = copied_seq s \<and> urg_data s \<noteq> 0 \<and> \<not> sk_urginline s \<and> copied_seq s \<noteq> rcv_nxt s then
        let s1 = s\<lparr>copied_seq := copied_seq s + 1\<rparr>
        in case sk_receive_queue s1 of
             b # q \<Rightarrow> if \<not> bef V (copied_seq s1) (sg_end_seq b)
                      then sock_rfree (inp V) b (s1\<lparr>sk_receive_queue := q\<rparr>) else s1
           | [] \<Rightarrow> s1
      else s)"

definition tcp_check_urg :: "senv \<Rightarrow> skb \<Rightarrow> tcp_sock \<Rightarrow> tcp_sock" where
  "tcp_check_urg V b s =
     (let p = ucast (sg_urg_ptr b) :: u32;
          ptr = (if p \<noteq> 0 \<and> \<not> sysctl_tcp_stdurg (inp V) then p - 1 else p) + sg_seq b
      in if aft V (copied_seq s) ptr \<or> bef V ptr (rcv_nxt s) \<or> (urg_data s \<noteq> 0 \<and> \<not> aft V ptr (urg_seq s)) then s
         else (skip_urgent V (sk_event Sigurg s))\<lparr>urg_data := TCP_URG_NOTYET (inp V), urg_seq := ptr, pred_flags := 0\<rparr>)"

definition tcp_urg :: "senv \<Rightarrow> skb \<Rightarrow> tcp_sock \<Rightarrow> tcp_sock option" where
  "tcp_urg V b s =
     (let s1 = (if sg_urg b then tcp_check_urg V b s else s);
          ptr = urg_seq s1 - sg_seq b + ucast (sg_doff b) * 4 - (if sg_syn b then 1 else 0)
      in if urg_data s1 = TCP_URG_NOTYET (inp V) \<and> ptr < sg_len b then do {
           bytes \<leftarrow> skb_copy_bits (inp V) b (uint ptr) 1;
           let s2 = s1\<lparr>urg_data := TCP_URG_VALID (inp V) OR ucast (hd bytes)\<rparr>;
           Some (if \<not> sk_dead s2 then sk_event Data_ready s2 else s2) }
         else Some s1)"

section \<open>Checksums and copying on the fast path\<close>

definition tcp_checksum_complete_user :: "senv \<Rightarrow> skb \<Rightarrow> bool" where
  "tcp_checksum_complete_user V b \<longleftrightarrow> \<not> skb_csum_unnecessary V b \<and> tcp_checksum_complete V b"

definition tcp_copy_to_iovec :: "senv \<Rightarrow> skb \<Rightarrow> u16 \<Rightarrow> tcp_sock \<Rightarrow> (bool \<times> tcp_sock) option" where
  "tcp_copy_to_iovec V b hlen s =
     (let chunk = sg_len b - ucast hlen
      in case (if skb_csum_unnecessary V b then skb_copy_datagram_iovec (inp V) b (uint hlen) (sint chunk)
               else skb_copy_and_csum_datagram_iovec V b (uint hlen)) of
           Some copied \<Rightarrow> do {
             s1 \<leftarrow> tcp_rcv_space_adjust (inp V)
                     (s\<lparr>ucopy_len := ucopy_len s - sint chunk, copied_seq := copied_seq s + chunk,
                        ucopy_done := ucopy_done s @ copied\<rparr>);
             Some (True, s1) }
         | None \<Rightarrow> Some (False, s))"

section \<open>Validation of a segment\<close>

text \<open>
  The first result is 1 for an acceptable segment, 0 for one that is discarded and -1 for one that is to be
  answered by a reset; the segment comes back with the place of its SACK option.
\<close>

definition tcp_validate_incoming :: "senv \<Rightarrow> skb \<Rightarrow> tcp_sock \<Rightarrow> (int \<times> skb \<times> tcp_sock) option" where
  "tcp_validate_incoming V b0 s0 = do {
     (parsed, st) \<leftarrow> tcp_fast_parse_options (tv (inp V)) (sg_doff b0) (sg_syn b0) (sg_opts b0)
                       \<lparr>opt_rx = rx_opt s0, cb_sacked = sg_sacked b0, hvpp = None\<rparr>;
     let b = b0\<lparr>sg_sacked := cb_sacked st\<rparr>;
     let s = s0\<lparr>rx_opt := opt_rx st\<rparr>;
     if parsed \<and> saw_tstamp (rx_opt s) \<and> tcp_paws_discard (inp V) b s \<and> \<not> sg_rst b then do {
       s1 \<leftarrow> tcp_send_dupack (inp V) b s;
       Some (0, b, s1) }
     else if \<not> tcp_sequence (inp V) (sg_seq b) (sg_end_seq b) s then
       (if sg_rst b then Some (0, b, s)
        else do { s1 \<leftarrow> tcp_send_dupack (inp V) b s; Some (0, b, s1) })
     else if sg_rst b then Some (0, b, tcp_reset (inp V) s)
     else let s1 = tcp_replace_ts_recent (inp V) (sg_seq b) s
          in if sg_syn b \<and> \<not> bef V (sg_seq b) (rcv_nxt s1) then Some (- 1, b, tcp_reset (inp V) s1)
             else Some (1, b, s1) }"

section \<open>Established connections\<close>

definition TCP_HP_BITS :: be32 where
  "TCP_HP_BITS = NOT (TCP_RESERVED_BITS OR TCP_FLAG_PSH)"

definition predicted :: "senv \<Rightarrow> skb \<Rightarrow> tcp_sock \<Rightarrow> bool" where
  "predicted V b s \<longleftrightarrow>
     sg_flag_word b AND TCP_HP_BITS = pred_flags s \<and> sg_seq b = rcv_nxt s \<and> \<not> aft V (sg_ack_seq b) (snd_nxt s)"

abbreviation tstamp_header :: "senv \<Rightarrow> tcp_sock \<Rightarrow> bool" where
  "tstamp_header V s \<equiv> uint (tcp_header_len s) = 20 + TCPOLEN_TSTAMP_ALIGNED (tv (inp V))"

text \<open>The check of the timestamp of a predicted segment: whether the fast path can go on.\<close>

definition fast_tstamp :: "senv \<Rightarrow> skb \<Rightarrow> tcp_sock \<Rightarrow> (bool \<times> tcp_sock) option" where
  "fast_tstamp V b s =
     (if tstamp_header V s then do {
        (hit, rx) \<leftarrow> tcp_parse_aligned_timestamp (tv (inp V)) (sg_opts b) (rx_opt s);
        Some (hit \<and> 0 \<le> sint (rcv_tsval rx - ts_recent rx), s\<lparr>rx_opt := rx\<rparr>) }
      else Some (True, s))"

definition fast_store_ts :: "senv \<Rightarrow> tcp_sock \<Rightarrow> tcp_sock" where
  "fast_store_ts V s = (if tstamp_header V s \<and> rcv_nxt s = rcv_wup s then tcp_store_ts_recent (inp V) s else s)"

text \<open>From the label \<^verbatim>\<open>step5\<close> on.\<close>

definition rcv_step5 :: "senv \<Rightarrow> skb \<Rightarrow> tcp_sock \<Rightarrow> (int \<times> tcp_sock) option" where
  "rcv_step5 V b s = do {
     (res, s1) \<leftarrow> (if sg_ack b then tcp_ack V b FLAG_SLOWPATH s else Some (0, s));
     if res < 0 then Some (0, s1)
     else do {
       s2 \<leftarrow> tcp_urg V b (tcp_rcv_rtt_measure_ts (inp V) b s1);
       s3 \<leftarrow> tcp_data_queue (inp V) b s2;
       Some (0, tcp_ack_snd_check V (tcp_data_snd_check V s3)) } }"

definition rcv_slow_path :: "senv \<Rightarrow> skb \<Rightarrow> u32 \<Rightarrow> tcp_sock \<Rightarrow> (int \<times> tcp_sock) option" where
  "rcv_slow_path V b len s =
     (if len < ucast (sg_doff b) * 4 \<or> tcp_checksum_complete_user V b then Some (0, s)
      else do {
        (res, b1, s1) \<leftarrow> tcp_validate_incoming V b s;
        if res \<le> 0 then Some (- res, s1) else rcv_step5 V b1 s1 })"

text \<open>A predicted segment with data, after its bytes were copied (\<open>eaten\<close>) or queued.\<close>

definition fast_finish :: "senv \<Rightarrow> bool \<Rightarrow> skb \<Rightarrow> tcp_sock \<Rightarrow> (int \<times> tcp_sock) option" where
  "fast_finish V eaten b s = do {
     s1 \<leftarrow> tcp_event_data_recv (inp V) b s;
     (no_ack, s2) \<leftarrow> (if sg_ack_seq b \<noteq> snd_una s1 then do {
                        (_, t) \<leftarrow> tcp_ack V b FLAG_DATA s1;
                        let t1 = tcp_data_snd_check V t;
                        Some (\<not> inet_csk_ack_scheduled t1, t1) }
                      else Some (False, s1));
     let s3 = (if no_ack then s2 else ack_snd_check V False s2);
     Some (0, if eaten then s3 else sk_event Data_ready s3) }"

definition fast_data :: "senv \<Rightarrow> skb \<Rightarrow> u32 \<Rightarrow> tcp_sock \<Rightarrow> (int \<times> tcp_sock) option" where
  "fast_data V b len s = do {
     let hlen = tcp_header_len s;
     (eaten, s1) \<leftarrow> (if copied_seq s = rcv_nxt s \<and> len - ucast hlen \<le> word_of_int (ucopy_len s) \<and> ucopy_current s \<and> sk_owned s
                     then tcp_copy_to_iovec V b hlen s else Some (False, s));
     let measured = tcp_rcv_rtt_measure_ts (inp V) b (fast_store_ts V s1);
     let b1 = skb_pull (inp V) (ucast hlen) b;
     if eaten then fast_finish V True b1 (measured\<lparr>rcv_nxt := sg_end_seq b\<rparr>)
     else if tcp_checksum_complete_user V b then Some (0, s1)
     else if sk_forward_alloc measured < sint (sg_truesize b) then rcv_step5 V b measured
     else let s2 = skb_set_owner_r b1 (measured\<lparr>sk_receive_queue := sk_receive_queue measured @ [b1]\<rparr>)
          in fast_finish V False b1 (s2\<lparr>rcv_nxt := sg_end_seq b\<rparr>) }"

definition tcp_rcv_established :: "senv \<Rightarrow> skb \<Rightarrow> u32 \<Rightarrow> tcp_sock \<Rightarrow> (int \<times> tcp_sock) option" where
  "tcp_rcv_established V b len s0 =
     (let s = s0\<lparr>rx_opt := (rx_opt s0)\<lparr>saw_tstamp := False\<rparr>\<rparr>
      in if predicted V b s then do {
           (ok, s1) \<leftarrow> fast_tstamp V b s;
           if \<not> ok then rcv_slow_path V b len s1
           else if len < ucast (tcp_header_len s1) then Some (0, s1)
           else if len = ucast (tcp_header_len s1) then do {
             (_, s2) \<leftarrow> tcp_ack V b 0 (fast_store_ts V s1);
             Some (0, tcp_data_snd_check V s2) }
           else fast_data V b len s1 }
         else rcv_slow_path V b len s)"

section \<open>The state SYN-SENT\<close>

text \<open>The cookie of the responder, from a cookie option at \<open>hvpp\<close>.\<close>

definition store_cookie :: "senv \<Rightarrow> skb \<Rightarrow> nat option \<Rightarrow> tcp_sock \<Rightarrow> tcp_sock option" where
  "store_cookie V b hv s =
     (case cookie_values s of
        None \<Rightarrow> Some s
      | Some cv \<Rightarrow>
          let sz = uint (cookie_plus (rx_opt s)) - TCPOLEN_COOKIE_BASE (tv (inp V));
              pair = sz + uint (cookie_desired cv);
              from_byte = nat (uint (cookie_desired cv))
          in if 0 < cookie_pair_size cv \<and> 0 < cookie_plus (rx_opt s) \<and> 0 \<le> pair \<and> pair \<le> int (length (cookie_pair cv)) then
               (case hv of
                  None \<Rightarrow> None
                | Some at_byte \<Rightarrow>
                    if sz < 0 \<or> length (sg_opts b) < at_byte + nat sz then None
                    else Some (s\<lparr>cookie_values := Some (cv\<lparr>cookie_pair :=
                           take from_byte (cookie_pair cv) @ take (nat sz) (drop at_byte (sg_opts b)) @
                             drop (from_byte + nat sz) (cookie_pair cv),
                           cookie_pair_size := word_of_int pair\<rparr>)\<rparr>))
             else Some s)"

definition set_tstamp_header :: "senv \<Rightarrow> bool \<Rightarrow> tcp_sock \<Rightarrow> tcp_sock" where
  "set_tstamp_header V adv s =
     (let aligned = TCPOLEN_TSTAMP_ALIGNED (tv (inp V))
      in if saw_tstamp (rx_opt s) then
           tcp_store_ts_recent (inp V)
             (s\<lparr>rx_opt := (rx_opt s)\<lparr>tstamp_ok := True\<rparr>, tcp_header_len := word_of_int (20 + aligned),
                advmss := (if adv then advmss s - word_of_int aligned else advmss s)\<rparr>)
         else s\<lparr>tcp_header_len := 20\<rparr>)"

text \<open>The SYN is acknowledged by a SYN: the socket becomes established.\<close>

definition synsent_negotiate :: "senv \<Rightarrow> skb \<Rightarrow> tcp_sock \<Rightarrow> tcp_sock" where
  "synsent_negotiate V b s =
     (let s1 = tcp_init_wl V (sg_seq b) (s\<lparr>rcv_nxt := sg_seq b + 1, rcv_wup := sg_seq b + 1, snd_wnd := ucast (sg_window b)\<rparr>);
          s2 = (if \<not> wscale_ok (rx_opt s1)
                then s1\<lparr>rx_opt := (rx_opt s1)\<lparr>snd_wscale := 0, rcv_wscale := 0\<rparr>, window_clamp := min (window_clamp s1) 65535\<rparr>
                else s1);
          s3 = set_tstamp_header V True s2;
          s4 = (if is_sack V s3 \<and> sysctl_tcp_fack (mv (inp V))
                then s3\<lparr>rx_opt := tcp_enable_fack (mv (inp V)) (rx_opt s3)\<rparr> else s3);
          s5 = tcp_initialize_rcv_mss (inp V) (tcp_sync_mss V (tcp_mtup_init V s4))
      in s5\<lparr>copied_seq := rcv_nxt s5\<rparr>)"

definition synsent_wake :: "senv \<Rightarrow> tcp_sock \<Rightarrow> tcp_sock" where
  "synsent_wake V s =
     (let s1 = (if sk_keepopen s then s\<lparr>icsk_keepalive := Some (clock (inp V) + keepalive_time_when V s)\<rparr> else s);
          s2 = (if snd_wscale (rx_opt s1) = 0 then tcp_fast_path_on_wnd V (snd_wnd s1) s1 else s1\<lparr>pred_flags := 0\<rparr>)
      in if \<not> sk_dead s2 then sk_event (Wake_async POLL_OUT) (sk_event State_change s2) else s2)"

definition synsent_established :: "senv \<Rightarrow> skb \<Rightarrow> nat option \<Rightarrow> tcp_sock \<Rightarrow> (int \<times> tcp_sock) option" where
  "synsent_established V b hv s = do {
     (_, s1) \<leftarrow> tcp_ack V b FLAG_SLOWPATH ((TCP_ECN_rcv_synack (inp V) b s)\<lparr>snd_wl1 := sg_seq b\<rparr>);
     s2 \<leftarrow> store_cookie V b hv (synsent_negotiate V b s1);
     let s3 = rebuild_header V (tcp_set_state (inp V) TCP_ESTABLISHED s2);
     let s4 = (tcp_init_congestion_control V (tcp_init_metrics V s3))\<lparr>lsndtime := now V\<rparr>;
     s5 \<leftarrow> tcp_init_buffer_space (inp V) s4;
     let s6 = synsent_wake V s5;
     if sk_write_pending s6 \<or> icsk_defer_accept s6 \<noteq> 0 \<or> ack_pingpong (icsk_ack s6) \<noteq> 0 then do {
       let s7 = upd_ack (\<lambda>a. a\<lparr>ack_lrcvtime := now V, ack_ato := TCP_ATO_MIN (inp V)\<rparr>) (inet_csk_schedule_ack s6);
       s8 \<leftarrow> tcp_incr_quickack (inp V) s7;
       s9 \<leftarrow> tcp_enter_quickack_mode (inp V) s8;
       Some (0, inet_csk_reset_xmit_timer (inp V) ICSK_TIME_DACK (TCP_DELACK_MAX (inp V)) (ucast (TCP_RTO_MAX (inp V))) s9) }
     else Some (- 1, send_ack (inp V) s6) }"

definition synsent_undo :: "u16 \<Rightarrow> tcp_sock \<Rightarrow> tcp_sock" where
  "synsent_undo saved_clamp s = s\<lparr>rx_opt := (tcp_clear_options (rx_opt s))\<lparr>mss_clamp := saved_clamp\<rparr>\<rparr>"

text \<open>A SYN without an ACK: both sides connect at the same time.\<close>

definition synsent_crossed :: "senv \<Rightarrow> skb \<Rightarrow> tcp_sock \<Rightarrow> tcp_sock" where
  "synsent_crossed V b s =
     (let s1 = set_tstamp_header V False (tcp_set_state (inp V) TCP_SYN_RECV s);
          s2 = s1\<lparr>rcv_nxt := sg_seq b + 1, rcv_wup := sg_seq b + 1, snd_wnd := ucast (sg_window b), snd_wl1 := sg_seq b,
                  max_window := ucast (sg_window b)\<rparr>;
          s3 = tcp_sync_mss V (tcp_mtup_init V (TCP_ECN_rcv_syn (inp V) b s2))
      in sk_event Send_synack (tcp_send_synack V (tcp_initialize_rcv_mss (inp V) s3)))"

definition tcp_rcv_synsent_state_process :: "senv \<Rightarrow> skb \<Rightarrow> tcp_sock \<Rightarrow> (int \<times> tcp_sock) option" where
  "tcp_rcv_synsent_state_process V b0 s0 = do {
     let saved_clamp = mss_clamp (rx_opt s0);
     st \<leftarrow> tcp_parse_options (tv (inp V)) (sg_doff b0) (sg_syn b0) (sg_opts b0) False
             \<lparr>opt_rx = rx_opt s0, cb_sacked = sg_sacked b0, hvpp = None\<rparr>;
     let b = b0\<lparr>sg_sacked := cb_sacked st\<rparr>;
     let s = s0\<lparr>rx_opt := opt_rx st\<rparr>;
     if sg_ack b then
       if sg_ack_seq b \<noteq> snd_nxt s \<or>
          (saw_tstamp (rx_opt s) \<and> rcv_tsecr (rx_opt s) \<noteq> 0 \<and> \<not> between V (rcv_tsecr (rx_opt s)) (retrans_stamp s) (now V))
       then Some (1, synsent_undo saved_clamp s)
       else if sg_rst b then Some (0, tcp_reset (inp V) s)
       else if \<not> sg_syn b then Some (0, synsent_undo saved_clamp s)
       else synsent_established V b (hvpp st) s
     else if sg_rst b then Some (0, synsent_undo saved_clamp s)
     else if ts_recent_stamp (rx_opt s) \<noteq> 0 \<and> saw_tstamp (rx_opt s) \<and> tcp_paws_reject (tv (inp V)) (rx_opt s) False
     then Some (0, synsent_undo saved_clamp s)
     else if sg_syn b then Some (0, synsent_crossed V b s)
     else Some (0, synsent_undo saved_clamp s) }"

section \<open>All states but ESTABLISHED and TIME-WAIT\<close>

definition syn_recv_ack :: "senv \<Rightarrow> skb \<Rightarrow> tcp_sock \<Rightarrow> tcp_sock option" where
  "syn_recv_ack V b s = do {
     let s1 = sk_event State_change (tcp_set_state (inp V) TCP_ESTABLISHED (s\<lparr>copied_seq := rcv_nxt s\<rparr>));
     let s2 = (if sk_socket s1 then sk_event (Wake_async POLL_OUT) s1 else s1);
     let s3 = tcp_init_wl V (sg_seq b)
                (s2\<lparr>snd_una := sg_ack_seq b,
                    snd_wnd := push_bit (unat (snd_wscale (rx_opt s2))) (ucast (sg_window b))\<rparr>);
     let s4 = (if tstamp_ok (rx_opt s3)
               then s3\<lparr>advmss := advmss s3 - word_of_int (TCPOLEN_TSTAMP_ALIGNED (tv (inp V)))\<rparr> else s3);
     let s5 = (tcp_init_congestion_control V (tcp_init_metrics V (rebuild_header V s4)))\<lparr>lsndtime := now V\<rparr>;
     s6 \<leftarrow> tcp_init_buffer_space (inp V) (tcp_initialize_rcv_mss (inp V) (tcp_mtup_init V s5));
     Some (tcp_fast_path_on (inp V) s6) }"

definition new_data :: "senv \<Rightarrow> skb \<Rightarrow> tcp_sock \<Rightarrow> bool" where
  "new_data V b s \<longleftrightarrow>
     sg_end_seq b \<noteq> sg_seq b \<and> aft V (sg_end_seq b - (if sg_fin b then 1 else 0)) (rcv_nxt s)"

text \<open>
  The FIN of this side is acknowledged. The first result is the value the function returns, if it returns.
\<close>

definition fin_wait1_ack :: "senv \<Rightarrow> skb \<Rightarrow> tcp_sock \<Rightarrow> int option \<times> tcp_sock" where
  "fin_wait1_ack V b s =
     (let s0 = tcp_set_state (inp V) TCP_FIN_WAIT2 s;
          s1 = s0\<lparr>sk_shutdown := sk_shutdown s0 OR SEND_SHUTDOWN\<rparr>
      in if \<not> sk_dead s1 then (None, sk_event State_change s1)
         else if linger2 s1 < 0 \<or> new_data V b s1 then (Some 1, tcp_done (inp V) s1)
         else let tmo = tcp_fin_time V s1; len = TCP_TIMEWAIT_LEN (mv (inp V))
              in if len < tmo then (None, s1\<lparr>icsk_keepalive := Some (clock (inp V) + word_of_int (tmo - len))\<rparr>)
                 else if sg_fin b \<or> sk_owned s1
                 then (None, s1\<lparr>icsk_keepalive := Some (clock (inp V) + word_of_int tmo)\<rparr>)
                 else (Some 0, to_time_wait (inp V) TCP_FIN_WAIT2 tmo s1))"

definition state_ack :: "senv \<Rightarrow> skb \<Rightarrow> bool \<Rightarrow> tcp_sock \<Rightarrow> (int option \<times> tcp_sock) option" where
  "state_ack V b acceptable s =
     (case sk_state s of
        TCP_SYN_RECV \<Rightarrow> if acceptable then map_option (Pair None) (syn_recv_ack V b s) else Some (Some 1, s)
      | TCP_FIN_WAIT1 \<Rightarrow> Some (if snd_una s = write_seq s then fin_wait1_ack V b s else (None, s))
      | TCP_CLOSING \<Rightarrow> Some (if snd_una s = write_seq s then (Some 0, to_time_wait (inp V) TCP_TIME_WAIT 0 s) else (None, s))
      | TCP_LAST_ACK \<Rightarrow>
          Some (if snd_una s = write_seq s then (Some 0, tcp_done (inp V) (tcp_update_metrics V s)) else (None, s))
      | _ \<Rightarrow> Some (None, s))"

text \<open>Step 7, the text of the segment; then what there is to send.\<close>

definition state_text :: "senv \<Rightarrow> skb \<Rightarrow> tcp_sock \<Rightarrow> (int \<times> tcp_sock) option" where
  "state_text V b s =
     (let st = sk_state s;
          closed = st \<in> {TCP_CLOSE_WAIT, TCP_CLOSING, TCP_LAST_ACK};
          queue = (closed \<and> bef V (sg_seq b) (rcv_nxt s)) \<or> st \<in> {TCP_FIN_WAIT1, TCP_FIN_WAIT2, TCP_ESTABLISHED}
      in if queue \<and> st \<noteq> TCP_ESTABLISHED \<and> sk_shutdown s AND RCV_SHUTDOWN \<noteq> 0 \<and> new_data V b s
         then Some (1, tcp_reset (inp V) s)
         else do {
           s1 \<leftarrow> (if queue then tcp_data_queue (inp V) b s else Some s);
           Some (0, if sk_state s1 \<noteq> TCP_CLOSE then tcp_ack_snd_check V (tcp_data_snd_check V s1) else s1) })"

definition state_synchronized :: "senv \<Rightarrow> skb \<Rightarrow> tcp_sock \<Rightarrow> (int \<times> tcp_sock) option" where
  "state_synchronized V b0 s0 = do {
     (res, b, s) \<leftarrow> tcp_validate_incoming V b0 s0;
     if res \<le> 0 then Some (- res, s)
     else if \<not> sg_ack b then Some (0, s)
     else do {
       (acked_res, s1) \<leftarrow> tcp_ack V b FLAG_SLOWPATH s;
       (ret, s2) \<leftarrow> state_ack V b (0 < acked_res) s1;
       case ret of
         Some r \<Rightarrow> Some (r, s2)
       | None \<Rightarrow> do { s3 \<leftarrow> tcp_urg V b s2; state_text V b s3 } } }"

definition tcp_rcv_state_process :: "senv \<Rightarrow> skb \<Rightarrow> tcp_sock \<Rightarrow> (int \<times> tcp_sock) option" where
  "tcp_rcv_state_process V b s0 =
     (let s = s0\<lparr>rx_opt := (rx_opt s0)\<lparr>saw_tstamp := False\<rparr>\<rparr>
      in case sk_state s of
           TCP_CLOSE \<Rightarrow> Some (0, s)
         | TCP_LISTEN \<Rightarrow>
             Some (if sg_ack b then (1, s)
                   else if sg_rst b then (0, s)
                   else if sg_syn b then (case conn_request V b s of (r, s1) \<Rightarrow> (if r < 0 then 1 else 0, s1))
                   else (0, s))
         | TCP_SYN_SENT \<Rightarrow> do {
             (queued, s1) \<leftarrow> tcp_rcv_synsent_state_process V b s;
             if 0 \<le> queued then Some (queued, s1)
             else do { s2 \<leftarrow> tcp_urg V b s1; Some (0, tcp_data_snd_check V s2) } }
         | _ \<Rightarrow> state_synchronized V b s)"

end
