(* ===== verification/Spec2Isabelle.thy ===== *)
theory Spec2Isabelle
  imports Request_Queue_Props Inet_Hash_Props Tcp_Options_Props Tcp_Sack_Props Tcp_Minisocks_Props Tcp_Tuning_Props Tcp_Rcvq_Props
    Tcp_Sender_Props Tcp_State
begin

text \<open>
  A verification development for the annotated Linux 3.2 network code of this repository
  (\<^verbatim>\<open>src/kernel-network-3.2\<close>, below: the files are named without this prefix).

  \<^bold>\<open>The program.\<close> A listening TCP socket keeps half-open connections (requests) in a hash table and completed ones in its
  accept queue (\<^verbatim>\<open>include/net/request_sock.h\<close>, \<^verbatim>\<open>net/core/request_sock.c\<close>, \<^verbatim>\<open>net/ipv4/inet_connection_sock.c\<close>). Sockets are
  found, and ports given out, by three hash tables (\<^verbatim>\<open>net/ipv4/inet_hashtables.c\<close>). Segments of the hand shake and of closed
  connections are handled by \<^verbatim>\<open>net/ipv4/tcp_minisocks.c\<close>; all others by \<^verbatim>\<open>net/ipv4/tcp_input.c\<close>, which parses options, delivers
  the stream of bytes, keeps the scoreboard of segments in flight, controls congestion and runs the state machine of RFC 793.

  \<^bold>\<open>How code is modelled.\<close> A C function is a function on explicit state. A structure is a \<open>record\<close> with the fields that the
  modelled code uses. Linked structures whose links matter (the requests, the hash chains and bind buckets) are stores from addresses
  to records; a buffer queue is a list; segments to send have an address, because the socket keeps pointers to them. Integers have the width
  of the source (\<open>u8\<close> to \<open>u64\<close>); a C \<^verbatim>\<open>int\<close> that cannot overflow, or is compared as signed, is an \<open>int\<close>. The result
  \<open>None\<close> is a fault (a dereferenced null or dangling pointer, a \<^verbatim>\<open>BUG\<close>, a division by zero) or a loop that does not end; that a
  function returns is therefore a theorem of the form \<open>\<exists>s'. f s = Some s'\<close>. No fuel is used: loops are structural recursions over the
  queue, \<open>function\<close> with a measure, or \<open>partial_function (option)\<close>. Code of files that are not in the repository (memory,
  timers, output, congestion control modules) is a field of a parameter record; what the proofs need of it is a
  named law, and each law is shown to hold for a concrete environment. Calls that only wake or signal processes are recorded as
  events. Statistics, debug output, locks and RCU are left out; the model is of one context. The configuration is
  without IPv6, MD5 signatures in mini sockets, security modules and DMA copies, on a 64-bit little-endian machine.

  \<^bold>\<open>Theories.\<close>
  \<^item> \<open>Kernel_Prelude\<close>: integer types, \<open>tcp_state\<close>, error numbers, the parameters \<open>kenv\<close> and generic lemmas. \<open>Example_Env\<close>: the concrete
    environment of the witnesses.
  \<^item> \<open>Request_Queue\<close>: requests and the request queue; the state is the record \<open>listener\<close>. \<open>Request_Queue_Correct\<close>: the relation
    \<open>rq_rel\<close> between the linked structures and lists of requests, and that every operation keeps it. \<open>Accept_Queue\<close>: the contract of a queue
    (locale \<open>fifo\<close>), what its clients get from it, and its interpretation \<open>acceptq\<close> on the code. \<open>Request_Queue_Props\<close>: the accept queue
    delivers first in, first out; insertion, lookup and removal; timer pass; blocking accept; allocation; end of listening.
  \<^item> \<open>Inet_Hash\<close>: the bind, established and listening tables (\<^verbatim>\<open>inet_hashtables.h\<close>, \<^verbatim>\<open>inet_hashtables.c\<close> and
    \<^verbatim>\<open>inet_csk_get_port\<close>, \<^verbatim>\<open>inet_csk_bind_conflict\<close>). \<open>Inet_Hash_Correct\<close>, \<open>Inet_Bind_Correct\<close>, \<open>Inet_Port_Correct\<close>,
    \<open>Inet_Ehash_Correct\<close>: invariants of the tables (\<open>bhash_ok\<close>, \<open>owners_ok\<close>, \<open>ehash_ok\<close>). \<open>Inet_Hash_Props\<close>: the search for a port ends and
    gives a free port; conflicts; a connection identity is unique; the best listener is found; round trips.
  \<^item> \<open>Tcp_Options\<close>, \<open>Tcp_Options_Correct\<close>, \<open>Tcp_Options_Props\<close>: the option parsers over bytes with checked reads; safety, meaning of
    well-formed options, agreement of the short cut with the general parser, ranges.
  \<^item> \<open>Tcp_Seq\<close>: arithmetic of sequence numbers. \<open>Tcp_Sack\<close>, \<open>Tcp_Sack_Correct\<close>, \<open>Tcp_Sack_Props\<close>: the blocks a receiver reports,
    refined to lists and then to sets of bytes.
  \<^item> \<open>Tcp_Minisocks\<close>, \<open>Tcp_Minisocks_Correct\<close>, \<open>Tcp_Minisocks_Props\<close>: time-wait sockets, the third segment of the hand shake over the
    request queue of \<open>Request_Queue\<close>, and the child socket.
  \<^item> \<open>Tcp_Sock\<close>: the state \<open>tcp_sock\<close> of a connection, buffers, timers, memory accounting, and the parameters \<open>ienv\<close>.
    \<open>Tcp_Tuning\<close>, \<open>Tcp_Tuning_Correct\<close>, \<open>Tcp_Tuning_Props\<close>: delayed acknowledgements, ECN, receive window, round trip times.
  \<^item> \<open>Tcp_Rcvq\<close>: the receive queues. \<open>Tcp_Stream\<close>: positions in an unbounded stream and what a queue holds of it. \<open>Tcp_Rcvq_Frame\<close>: what
    functions leave alone. \<open>Tcp_Collapse_Correct\<close>, \<open>Tcp_Rcvq_Correct\<close>, \<open>Tcp_Data_Correct\<close>: the queues are an image of the stream of the peer,
    whatever segment arrives and however short memory is. \<open>Tcp_Rcvq_Props\<close>: its properties. \<open>Tcp_Input_Example\<close>: an environment and a connection.
  \<^item> \<open>Tcp_Sender\<close>, \<open>Tcp_Recover\<close>, \<open>Tcp_Sacktag\<close>: the sending side, the recovery from losses, the scoreboard of selective acknowledgements.
    \<open>Tcp_Sender_Frame\<close>: the invariant \<open>board\<close> (the counters of a connection agree with the tags of its segments, hints point into the
    queue) and the laws of the functions of other files. \<open>Tcp_Sender_Correct\<close>: operations keep it. \<open>Tcp_Sender_Example\<close>,
    \<open>Tcp_Sender_Props\<close>: an example and the properties.
  \<^item> \<open>Tcp_State\<close>: acknowledgements, urgent data, header prediction, and the state machine (\<^verbatim>\<open>tcp_ack\<close>, \<^verbatim>\<open>tcp_rcv_established\<close>,
    \<^verbatim>\<open>tcp_rcv_state_process\<close>).

  \<^bold>\<open>Bounds.\<close> Positions of the receive queue are compared within 2^29 of the next expected byte and windows are at most 2^30, so that the
  signed 32-bit comparison of sequence numbers is the comparison of positions; the protocol limits windows to 2^30. Round trip times are below
  2^28 ticks, so that the scaled estimates do not wrap.

  \<^bold>\<open>Not modelled.\<close> The dispatch of segments to sockets (\<^verbatim>\<open>net/ipv4/tcp_ipv4.c\<close>), the socket operations of the address family
  (\<^verbatim>\<open>net/ipv4/af_inet.c\<close>) and the system calls (\<^verbatim>\<open>net/socket.c\<close>), which mostly pass on to code that is not in the repository; the
  example programs (\<^verbatim>\<open>tcpip/src\<close>, \<^verbatim>\<open>tuntap/src\<close>, \<^verbatim>\<open>linux-system-programming\<close>, \<^verbatim>\<open>leveldb\<close>), which are input and output.
\<close>

end
